(* ===== verification/Fwd_Prelude.thy ===== *)
theory Fwd_Prelude
  imports Main "HOL-Library.Word"
begin

text \<open>
  What the component theories share: the widths of the machine integers the
  program uses, the C++ exceptions it throws and catches, the outcome of a call
  (a value, an exception, or undefined behaviour such as a null dereference),
  state-passing programs with exceptions and the rules to reason about them, and
  the decimal printing and reading of unsigned numbers
  (\<open>fmt::format("{}", n)\<close> and \<open>std::stoi\<close>).
\<close>

section \<open>Collections and types\<close>

named_theorems prog_simps \<open>rewrite rules that run a state-passing program\<close>
named_theorems keeps \<open>rules that show that a program keeps an invariant\<close>

type_synonym u8 = "8 word"
type_synonym u16 = "16 word"
type_synonym u32 = "32 word"
type_synonym u64 = "64 word"

section \<open>Exceptions and outcomes\<close>

text \<open>
  The exception classes that the sources throw or that the standard library
  functions they call throw. \<open>Nested\<close> is \<open>std::throw_with_nested\<close>: the new
  exception and the one it was thrown from.
\<close>

datatype exn =
    RuntimeError string
  | MappingAddException string
  | TopicCreationError
  | MetadataException string
  | OutOfRange
  | InvalidArgument
  | JsonParseError
  | JsonTypeError
  | Nested exn exn

text \<open>
  \<open>catch (std::runtime_error &)\<close>: the classes derived from
  \<open>std::runtime_error\<close>. \<open>std::out_of_range\<close> and \<open>std::invalid_argument\<close>
  derive from \<open>std::logic_error\<close>, the json exceptions and
  \<open>MetadataException\<close> from \<open>std::exception\<close> directly.
\<close>

fun is_runtime_error :: "exn \<Rightarrow> bool" where
  "is_runtime_error (RuntimeError _) = True"
| "is_runtime_error (MappingAddException _) = True"
| "is_runtime_error TopicCreationError = True"
| "is_runtime_error (MetadataException _) = False"
| "is_runtime_error OutOfRange = False"
| "is_runtime_error InvalidArgument = False"
| "is_runtime_error JsonParseError = False"
| "is_runtime_error JsonTypeError = False"
| "is_runtime_error (Nested e _) = is_runtime_error e"

text \<open>
  What a call that does not return a value does: it throws, its behaviour is
  undefined (\<open>Crash\<close>: a null or dangling pointer is dereferenced) or the program is
  terminated, or it is still
  running when the steps it was given are used up (\<open>Running\<close>). No handler catches the
  last two.
\<close>

datatype failure = Throw exn | Crash | Running

type_synonym 'a res = "failure + 'a"

definition bind_res :: "'a res \<Rightarrow> ('a \<Rightarrow> 'b res) \<Rightarrow> 'b res" where
  "bind_res r f = (case r of Inl e \<Rightarrow> Inl e | Inr x \<Rightarrow> f x)"

lemma bind_res_simps [simp]:
  "bind_res (Inl e) f = Inl e"
  "bind_res (Inr x) f = f x"
  by (simp_all add: bind_res_def)

lemma bind_res_Inr_iff:
  "bind_res r f = Inr y \<longleftrightarrow> (\<exists>x. r = Inr x \<and> f x = Inr y)"
  by (cases r) auto

text \<open>A loop that pushes the value of each element and stops at the first failure.\<close>

fun map_res :: "('a \<Rightarrow> 'b res) \<Rightarrow> 'a list \<Rightarrow> 'b list res" where
  "map_res f [] = Inr []"
| "map_res f (x # xs) =
     bind_res (f x) (\<lambda>y. bind_res (map_res f xs) (\<lambda>ys. Inr (y # ys)))"

lemma map_res_Inr_iff:
  "map_res f xs = Inr ys \<longleftrightarrow> list_all2 (\<lambda>x y. f x = Inr y) xs ys"
  by (induction xs arbitrary: ys) (auto simp: bind_res_Inr_iff list_all2_Cons1)

section \<open>State-passing programs with exceptions\<close>

text \<open>
  A method that changes an object and may throw keeps the changes it made before
  it threw: the state is returned beside the outcome.
\<close>

type_synonym ('s, 'a) prog = "'s \<Rightarrow> 'a res \<times> 's"

definition ret :: "'a \<Rightarrow> ('s, 'a) prog" where
  "ret x s = (Inr x, s)"

definition fail :: "failure \<Rightarrow> ('s, 'a) prog" where
  "fail e s = (Inl e, s)"

definition raise :: "exn \<Rightarrow> ('s, 'a) prog" where
  "raise e = fail (Throw e)"

definition bnd :: "('s, 'a) prog \<Rightarrow> ('a \<Rightarrow> ('s, 'b) prog) \<Rightarrow> ('s, 'b) prog" where
  "bnd m f s = (case m s of (Inl e, s') \<Rightarrow> (Inl e, s') | (Inr x, s') \<Rightarrow> f x s')"

definition thn :: "('s, 'a) prog \<Rightarrow> ('s, 'b) prog \<Rightarrow> ('s, 'b) prog" where
  "thn m n = bnd m (\<lambda>_. n)"

definition get_st :: "('s \<Rightarrow> 'a) \<Rightarrow> ('s, 'a) prog" where
  "get_st f s = (Inr (f s), s)"

definition upd_st :: "('s \<Rightarrow> 's) \<Rightarrow> ('s, unit) prog" where
  "upd_st f s = (Inr (), f s)"

definition of_res :: "'a res \<Rightarrow> ('s, 'a) prog" where
  "of_res r s = (r, s)"

text \<open>\<open>try { m } catch (X &e) { h(e) }\<close>, with \<open>p\<close> the classes that match \<open>X\<close>.\<close>

definition try_catch ::
  "('s, 'a) prog \<Rightarrow> (exn \<Rightarrow> bool) \<Rightarrow> (exn \<Rightarrow> ('s, 'a) prog) \<Rightarrow> ('s, 'a) prog" where
  "try_catch m p h s =
     (case m s of
        (Inl (Throw e), s') \<Rightarrow> (if p e then h e s' else (Inl (Throw e), s'))
      | (r, s') \<Rightarrow> (r, s'))"

fun for_each :: "('a \<Rightarrow> ('s, unit) prog) \<Rightarrow> 'a list \<Rightarrow> ('s, unit) prog" where
  "for_each f [] = ret ()"
| "for_each f (x # xs) = thn (f x) (for_each f xs)"

fun map_prog :: "('a \<Rightarrow> ('s, 'b) prog) \<Rightarrow> 'a list \<Rightarrow> ('s, 'b list) prog" where
  "map_prog f [] = ret []"
| "map_prog f (x # xs) = bnd (f x) (\<lambda>y. bnd (map_prog f xs) (\<lambda>ys. ret (y # ys)))"

lemmas prog_defs = ret_def fail_def raise_def bnd_def thn_def get_st_def upd_st_def
  of_res_def try_catch_def

lemma run_prog [prog_simps]:
  "ret x s = (Inr x, s)"
  "fail e s = (Inl e, s)"
  "raise ex s = (Inl (Throw ex), s)"
  "get_st g s = (Inr (g s), s)"
  "upd_st h s = (Inr (), h s)"
  "of_res r s = (r, s)"
  by (simp_all add: prog_defs)

lemma run_bnd [prog_simps]:
  "m s = (Inr x, s') \<Longrightarrow> bnd m f s = f x s'"
  "m s = (Inl e, s') \<Longrightarrow> bnd m f s = (Inl e, s')"
  by (simp_all add: prog_defs)

lemma run_thn [prog_simps]:
  "m s = (Inr x, s') \<Longrightarrow> thn m n s = n s'"
  "m s = (Inl e, s') \<Longrightarrow> thn m n s = (Inl e, s')"
  by (simp_all add: prog_defs)

lemma run_try_catch [prog_simps]:
  "m s = (Inr x, s') \<Longrightarrow> try_catch m p h s = (Inr x, s')"
  "m s = (Inl Crash, s') \<Longrightarrow> try_catch m p h s = (Inl Crash, s')"
  "m s = (Inl Running, s') \<Longrightarrow> try_catch m p h s = (Inl Running, s')"
  "m s = (Inl (Throw e), s') \<Longrightarrow>
     try_catch m p h s = (if p e then h e s' else (Inl (Throw e), s'))"
  by (simp_all add: prog_defs)

subsection \<open>Invariants of programs\<close>

text \<open>
  A program keeps \<open>I\<close> when the state it leaves, returning or throwing, satisfies
  \<open>I\<close> whenever the state it starts from does.
\<close>

definition keeps_inv :: "('s \<Rightarrow> bool) \<Rightarrow> ('s, 'a) prog \<Rightarrow> bool" where
  "keeps_inv I m \<longleftrightarrow> (\<forall>s. I s \<longrightarrow> I (snd (m s)))"

lemma keeps_invI: "(\<And>s. I s \<Longrightarrow> I (snd (m s))) \<Longrightarrow> keeps_inv I m"
  by (simp add: keeps_inv_def)

lemma keeps_invD: "keeps_inv I m \<Longrightarrow> I s \<Longrightarrow> I (snd (m s))"
  by (simp add: keeps_inv_def)

lemma keeps_pure [keeps]:
  "keeps_inv I (ret x)"
  "keeps_inv I (fail e)"
  "keeps_inv I (raise ex)"
  "keeps_inv I (get_st g)"
  "keeps_inv I (of_res r)"
  by (simp_all add: keeps_inv_def prog_defs)

lemma keeps_upd: "(\<And>s. I s \<Longrightarrow> I (f s)) \<Longrightarrow> keeps_inv I (upd_st f)"
  by (simp add: keeps_inv_def prog_defs)

lemma keeps_bnd [keeps]:
  "keeps_inv I m \<Longrightarrow> (\<And>x. keeps_inv I (f x)) \<Longrightarrow> keeps_inv I (bnd m f)"
  by (fastforce simp: keeps_inv_def prog_defs split: sum.splits prod.splits)

lemma keeps_thn [keeps]: "keeps_inv I m \<Longrightarrow> keeps_inv I n \<Longrightarrow> keeps_inv I (thn m n)"
  unfolding thn_def by (rule keeps_bnd)

lemma keeps_try_catch [keeps]:
  "keeps_inv I m \<Longrightarrow> (\<And>e. keeps_inv I (h e)) \<Longrightarrow> keeps_inv I (try_catch m p h)"
  by (fastforce simp: keeps_inv_def prog_defs split: sum.splits prod.splits failure.splits)

lemma keeps_if [keeps]:
  "keeps_inv I m \<Longrightarrow> keeps_inv I n \<Longrightarrow> keeps_inv I (if b then m else n)"
  by simp

lemma keeps_case_option [keeps]:
  "keeps_inv I m \<Longrightarrow> (\<And>x. keeps_inv I (f x)) \<Longrightarrow>
   keeps_inv I (case v of None \<Rightarrow> m | Some x \<Rightarrow> f x)"
  by (simp split: option.split)

lemma keeps_case_prod [keeps]:
  "(\<And>x y. keeps_inv I (f x y)) \<Longrightarrow> keeps_inv I (case p of (x, y) \<Rightarrow> f x y)"
  by (simp split: prod.split)

lemma keeps_for_each [keeps]:
  "(\<And>x. keeps_inv I (f x)) \<Longrightarrow> keeps_inv I (for_each f xs)"
  by (induction xs) (auto intro: keeps)

lemma keeps_map_prog [keeps]:
  "(\<And>x. keeps_inv I (f x)) \<Longrightarrow> keeps_inv I (map_prog f xs)"
  by (induction xs) (auto intro!: keeps)

subsection \<open>The ways a program can fail\<close>

text \<open>
  From a state that satisfies \<open>I\<close> the program leaves one that does, and when it does not return, the
  failure is one of \<open>F\<close>.
\<close>

definition fails_only :: "failure set \<Rightarrow> ('s \<Rightarrow> bool) \<Rightarrow> ('s, 'a) prog \<Rightarrow> bool" where
  "fails_only F I m \<longleftrightarrow> (\<forall>s. I s \<longrightarrow> I (snd (m s)) \<and> (\<forall>f. fst (m s) = Inl f \<longrightarrow> f \<in> F))"

abbreviation thrown :: "failure set" where
  "thrown \<equiv> range Throw"

named_theorems fails \<open>rules for the ways a program can fail\<close>

lemma fails_onlyI:
  "(\<And>s. I s \<Longrightarrow> I (snd (m s)) \<and> (\<forall>f. fst (m s) = Inl f \<longrightarrow> f \<in> F)) \<Longrightarrow> fails_only F I m"
  by (simp add: fails_only_def)

lemma fails_onlyD:
  "fails_only F I m \<Longrightarrow> I s \<Longrightarrow> I (snd (m s)) \<and> (\<forall>f. fst (m s) = Inl f \<longrightarrow> f \<in> F)"
  by (simp add: fails_only_def)

lemma fails_only_mono: "fails_only F I m \<Longrightarrow> F \<subseteq> G \<Longrightarrow> fails_only G I m"
  unfolding fails_only_def by blast

lemma fails_only_keeps: "fails_only F I m \<Longrightarrow> keeps_inv J m \<Longrightarrow> fails_only F (\<lambda>s. I s \<and> J s) m"
  unfolding fails_only_def keeps_inv_def by blast

lemma fails_pure [fails]:
  "fails_only F I (ret x)" "fails_only F I (get_st g)"
  by (simp_all add: fails_only_def prog_defs)

lemma fails_raise [fails]: "Throw ex \<in> F \<Longrightarrow> fails_only F I (raise ex)"
  by (simp add: fails_only_def prog_defs)

lemma fails_of_res: "(\<And>f. r = Inl f \<Longrightarrow> f \<in> F) \<Longrightarrow> fails_only F I (of_res r)"
  by (simp add: fails_only_def prog_defs)

lemma fails_upd: "(\<And>s. I s \<Longrightarrow> I (f s)) \<Longrightarrow> fails_only F I (upd_st f)"
  by (simp add: fails_only_def prog_defs)

lemma fails_bnd [fails]:
  "fails_only F I m \<Longrightarrow> (\<And>x. fails_only F I (f x)) \<Longrightarrow> fails_only F I (bnd m f)"
  by (fastforce simp: fails_only_def prog_defs split: sum.splits prod.splits)

lemma fails_thn [fails]: "fails_only F I m \<Longrightarrow> fails_only F I n \<Longrightarrow> fails_only F I (thn m n)"
  unfolding thn_def by (rule fails_bnd)

lemma fails_try_catch [fails]:
  "fails_only F I m \<Longrightarrow> (\<And>e. fails_only F I (h e)) \<Longrightarrow> fails_only F I (try_catch m p h)"
  by (fastforce simp: fails_only_def prog_defs split: sum.splits prod.splits failure.splits)

text \<open>A handler for every class of exceptions.\<close>

lemma fails_caught:
  "fails_only (thrown \<union> F) I m \<Longrightarrow> (\<And>e. fails_only F I (h e)) \<Longrightarrow> fails_only F I (try_catch m (\<lambda>_. True) h)"
  by (fastforce simp: fails_only_def prog_defs split: sum.splits prod.splits failure.splits)

lemma fails_if [fails]: "fails_only F I m \<Longrightarrow> fails_only F I n \<Longrightarrow> fails_only F I (if b then m else n)"
  by simp

lemma fails_case_option [fails]:
  "fails_only F I m \<Longrightarrow> (\<And>x. fails_only F I (f x)) \<Longrightarrow> fails_only F I (case v of None \<Rightarrow> m | Some x \<Rightarrow> f x)"
  by (simp split: option.split)

lemma fails_case_prod [fails]:
  "(\<And>x y. fails_only F I (f x y)) \<Longrightarrow> fails_only F I (case p of (x, y) \<Rightarrow> f x y)"
  by (simp split: prod.split)

lemma fails_for_each [fails]: "(\<And>x. fails_only F I (f x)) \<Longrightarrow> fails_only F I (for_each f xs)"
  by (induction xs) (auto intro: fails)

lemma fails_map_prog [fails]: "(\<And>x. fails_only F I (f x)) \<Longrightarrow> fails_only F I (map_prog f xs)"
  by (induction xs) (auto intro!: fails)

lemma fails_none: "fails_only {} I m \<Longrightarrow> I s \<Longrightarrow> \<exists>x s'. m s = (Inr x, s') \<and> I s'"
  unfolding fails_only_def by (metis empty_iff prod.collapse sum.exhaust)

lemma for_each_append:
  "for_each f (xs @ ys) = thn (for_each f xs) (for_each f ys)"
  by (induction xs) (auto simp: prog_defs fun_eq_iff split: sum.splits prod.splits)

section \<open>Decimal numbers\<close>

definition digit_char :: "nat \<Rightarrow> char" where
  "digit_char d = char_of (48 + d)"

definition digit_val :: "char \<Rightarrow> nat" where
  "digit_val c = of_char c - 48"

definition is_digit :: "char \<Rightarrow> bool" where
  "is_digit c \<longleftrightarrow> (48::nat) \<le> of_char c \<and> of_char c \<le> (57::nat)"

text \<open>\<open>fmt::format("{}", n)\<close> of an unsigned number.\<close>

fun dec :: "nat \<Rightarrow> string" where
  "dec n = (if n < 10 then [digit_char n] else dec (n div 10) @ [digit_char (n mod 10)])"

declare dec.simps [simp del]

text \<open>The value of a string of digits.\<close>

definition dec_val :: "string \<Rightarrow> nat" where
  "dec_val s = foldl (\<lambda>a c. 10 * a + digit_val c) 0 s"

lemma of_char_digit_char: "d < 10 \<Longrightarrow> of_char (digit_char d) = (48 + d :: nat)"
  by (simp add: digit_char_def)

lemma digit_val_digit_char [simp]: "d < 10 \<Longrightarrow> digit_val (digit_char d) = d"
  by (simp add: digit_val_def of_char_digit_char)

lemma is_digit_digit_char [simp]: "d < 10 \<Longrightarrow> is_digit (digit_char d)"
  by (simp add: is_digit_def of_char_digit_char)

lemma digit_char_table [simp]:
  "digit_char 0 = CHR ''0''" "digit_char (Suc 0) = CHR ''1''" "digit_char 1 = CHR ''1''"
  "digit_char 2 = CHR ''2''" "digit_char 3 = CHR ''3''" "digit_char 4 = CHR ''4''"
  "digit_char 5 = CHR ''5''" "digit_char 6 = CHR ''6''" "digit_char 7 = CHR ''7''"
  "digit_char 8 = CHR ''8''" "digit_char 9 = CHR ''9''"
  by (simp_all add: digit_char_def char_of_def bit_0)

lemma dec_val_snoc [simp]: "dec_val (s @ [c]) = 10 * dec_val s + digit_val c"
  by (simp add: dec_val_def)

lemma dec_val_dec [simp]: "dec_val (dec n) = n"
proof (induction n rule: dec.induct)
  case (1 n)
  show ?case
  proof (cases "n < 10")
    case True
    then show ?thesis by (simp add: dec.simps [of n] dec_val_def)
  next
    case False
    with "1.IH" show ?thesis by (simp add: dec.simps [of n])
  qed
qed

lemma dec_inject [simp]: "dec m = dec n \<longleftrightarrow> m = n"
  by (metis dec_val_dec)

lemma dec_digits: "\<forall>c \<in> set (dec n). is_digit c"
proof (induction n rule: dec.induct)
  case (1 n)
  then show ?case by (cases "n < 10") (auto simp: dec.simps [of n])
qed

lemma dec_nonempty [simp]: "dec n \<noteq> []"
  by (subst dec.simps) simp


section \<open>Words\<close>

lemma unat_of_nat_small:
  "n < 2 ^ LENGTH('a) \<Longrightarrow> unat (of_nat n :: 'a::len word) = n"
  by (simp add: unsigned_of_nat take_bit_nat_eq_self)


lemma unat_minus_of_nat:
  fixes w :: "'a::len word"
  assumes "n \<le> unat w"
  shows "unat (w - of_nat n) = unat w - n"
proof -
  have "w - of_nat n = of_nat (unat w - n)" using assms by (simp add: of_nat_diff)
  moreover have "unat w - n < 2 ^ LENGTH('a)"
    by (rule le_less_trans [OF diff_le_self unsigned_less])
  ultimately show ?thesis by (simp only: unat_of_nat_small)
qed

end
