(* ===== verification/Conc_Queue.thy ===== *)
theory Conc_Queue
  imports Fwd_Prelude "HOL-Library.Multiset"
begin

text \<open>
  The interface of \<open>moodycamel::ConcurrentQueue\<close> that the program uses: \<open>enqueue\<close> (false when no
  memory could be allocated), \<open>try_dequeue\<close> and \<open>size_approx\<close>. The queue is a parameter of the
  definitions that use it. Its documented behaviour is stated as two locales: every element that
  was enqueued is dequeued at most once and nothing else is (\<open>bag_queue\<close>); with one producer and
  one consumer the elements come out in the order they went in (\<open>fifo_queue\<close>).
\<close>

record ('q, 'a) queue_ops =
  enqueue :: "'a \<Rightarrow> 'q \<Rightarrow> bool \<times> 'q"
  try_dequeue :: "'q \<Rightarrow> ('a \<times> 'q) option"
  size_approx :: "'q \<Rightarrow> nat"

section \<open>Contracts\<close>

locale bag_queue =
  fixes Q :: "('q, 'a) queue_ops"
    and elems :: "'q \<Rightarrow> 'a multiset"
  assumes enqueue_bag:
      "enqueue Q x q = (ok, q') \<Longrightarrow> elems q' = (if ok then add_mset x (elems q) else elems q)"
    and try_dequeue_bag: "try_dequeue Q q = Some (x, q') \<Longrightarrow> elems q = add_mset x (elems q')"
    and try_dequeue_empty: "try_dequeue Q q = None \<longleftrightarrow> elems q = {#}"
begin

text \<open>What \<open>n\<close> calls of \<open>try_dequeue\<close> give; they stop at the first that finds nothing.\<close>

primrec drain :: "nat \<Rightarrow> 'q \<Rightarrow> 'a list \<times> 'q" where
  "drain 0 q = ([], q)"
| "drain (Suc n) q = (case try_dequeue Q q of
     None \<Rightarrow> ([], q)
   | Some (x, q') \<Rightarrow> (case drain n q' of (xs, q'') \<Rightarrow> (x # xs, q'')))"

lemma drain_bag: "drain n q = (xs, q') \<Longrightarrow> elems q = mset xs + elems q'"
proof (induction n arbitrary: q xs q')
  case (Suc n)
  then show ?case
    by (auto split: option.splits prod.splits dest!: try_dequeue_bag)
qed simp

lemma drain_length: "drain n q = (xs, q') \<Longrightarrow> length xs = min n (size (elems q))"
proof (induction n arbitrary: q xs q')
  case (Suc n)
  show ?case
  proof (cases "try_dequeue Q q")
    case None
    with Suc.prems have "xs = []" by simp
    moreover have "elems q = {#}" using None by (simp add: try_dequeue_empty)
    ultimately show ?thesis by simp
  next
    case (Some p)
    obtain y q1 where p: "p = (y, q1)" by fastforce
    obtain ys q2 where d: "drain n q1 = (ys, q2)" by fastforce
    have "xs = y # ys" using Suc.prems Some p d by simp
    moreover have "size (elems q) = Suc (size (elems q1))"
      using try_dequeue_bag Some p by fastforce
    ultimately show ?thesis using Suc.IH [OF d] by simp
  qed
qed simp

end

locale fifo_queue =
  fixes Q :: "('q, 'a) queue_ops"
    and contents :: "'q \<Rightarrow> 'a list"
  assumes enqueue_fifo:
      "enqueue Q x q = (ok, q') \<Longrightarrow> contents q' = (if ok then contents q @ [x] else contents q)"
    and dequeue_Some: "try_dequeue Q q = Some (x, q') \<Longrightarrow> contents q = x # contents q'"
    and dequeue_None: "try_dequeue Q q = None \<longleftrightarrow> contents q = []"
begin

lemma dequeue_Cons:
  assumes "contents q = x # xs"
  shows "\<exists>q'. try_dequeue Q q = Some (x, q') \<and> contents q' = xs"
proof -
  obtain y q' where d: "try_dequeue Q q = Some (y, q')"
    using assms dequeue_None [of q] by (cases "try_dequeue Q q") auto
  with dequeue_Some [OF d] assms show ?thesis by auto
qed

end

text \<open>A queue that is first-in first-out is a bag of its contents.\<close>

sublocale fifo_queue \<subseteq> bag_queue Q "\<lambda>q. mset (contents q)"
proof
  fix x q ok q'
  assume "enqueue Q x q = (ok, q')"
  then show "mset (contents q') =
      (if ok then add_mset x (mset (contents q)) else mset (contents q))"
    by (simp add: enqueue_fifo)
next
  fix q x q'
  assume "try_dequeue Q q = Some (x, q')"
  then show "mset (contents q) = add_mset x (mset (contents q'))"
    by (simp add: dequeue_Some)
next
  fix q
  show "try_dequeue Q q = None \<longleftrightarrow> mset (contents q) = {#}" by (simp add: dequeue_None)
qed

context fifo_queue
begin

lemma drain_contents: "drain n q = (xs, q') \<Longrightarrow> contents q = xs @ contents q'"
  by (induction n arbitrary: q xs q')
     (auto split: option.splits prod.splits dest!: dequeue_Some)

lemma drain_take: "drain n q = (xs, q') \<Longrightarrow> xs = take n (contents q) \<and> contents q' = drop n (contents q)"
  using drain_contents [of n q xs q'] drain_length [of n q xs q']
  by (cases "n \<le> length (contents q)") auto

end

text \<open>A queue that always finds memory for another element.\<close>

locale ready_queue = fifo_queue +
  assumes enqueue_ready: "fst (enqueue Q x q)"
begin

lemma enqueue_contents: "contents (snd (enqueue Q x q)) = contents q @ [x]"
proof -
  have "enqueue Q x q = (True, snd (enqueue Q x q))"
    using enqueue_ready [of x q] by (simp add: prod_eq_iff)
  from enqueue_fifo [OF this] show ?thesis by simp
qed

end

text \<open>A queue that is not changed while its size is read.\<close>

locale sized_queue = fifo_queue +
  assumes size_exact: "size_approx Q q = length (contents q)"

section \<open>A queue of at most \<open>cap\<close> elements\<close>

text \<open>
  The sequential behaviour of the queue with memory for \<open>cap\<close> elements, as a list.
\<close>

definition list_queue :: "nat \<Rightarrow> ('a list, 'a) queue_ops" where
  "list_queue cap =
     \<lparr>enqueue = (\<lambda>x q. if length q < cap then (True, q @ [x]) else (False, q)),
      try_dequeue = (\<lambda>q. case q of [] \<Rightarrow> None | x # xs \<Rightarrow> Some (x, xs)),
      size_approx = length\<rparr>"

lemma list_queue_simps [simp]:
  "enqueue (list_queue cap) x q = (if length q < cap then (True, q @ [x]) else (False, q))"
  "try_dequeue (list_queue cap) q = (case q of [] \<Rightarrow> None | x # xs \<Rightarrow> Some (x, xs))"
  "size_approx (list_queue cap) q = length q"
  by (simp_all add: list_queue_def)

interpretation lq: fifo_queue "list_queue cap" "\<lambda>q. q"
  by unfold_locales (auto split: list.splits if_splits)


text \<open>The same without a limit.\<close>

definition growing_queue :: "('a list, 'a) queue_ops" where
  "growing_queue =
     \<lparr>enqueue = (\<lambda>x q. (True, q @ [x])),
      try_dequeue = (\<lambda>q. case q of [] \<Rightarrow> None | x # xs \<Rightarrow> Some (x, xs)),
      size_approx = length\<rparr>"

lemma growing_queue_simps [simp]:
  "enqueue growing_queue x q = (True, q @ [x])"
  "try_dequeue growing_queue q = (case q of [] \<Rightarrow> None | x # xs \<Rightarrow> Some (x, xs))"
  "size_approx growing_queue q = length q"
  by (simp_all add: growing_queue_def)

interpretation gq: ready_queue growing_queue "\<lambda>q. q"
  by unfold_locales (auto split: list.splits)


interpretation gs: sized_queue growing_queue "\<lambda>q. q"
  by unfold_locales simp

end
