(* ===== verification/Stream_Queue.thy ===== *)
theory Stream_Queue
  imports Conc_Queue
begin

text \<open>
  \<open>Stream::fillConversionQueue\<close> of \<open>Stream.cpp\<close> with the packets of \<open>ConversionWorker.h\<close>: updates
  are taken off the stream's queue and, for each update, one packet per conversion path is put on the
  queue of a conversion worker. Packets are objects in a store, since the function changes packets
  that it has already queued: it remembers the last packet of each path and, at the end, enters the
  stream in these (\<open>cwp_last[i]->stream = this\<close>) and counts one transit per path.
\<close>

record ConversionWorkPacket =
  pk_Update :: nat
  pk_Path :: nat
  pk_stream :: "nat option"

text \<open>
  What the function reads and writes: the stream's queue of (possibly null) update references, the
  worker's queue of packet references, the packets, and \<open>transit\<close> of every path.
\<close>

record ('q, 'w) fill_env =
  OutputQueue :: 'q
  WorkQueue :: 'w
  Packets :: "nat \<rightharpoonup> ConversionWorkPacket"
  NextPacket :: nat
  transit :: "nat \<Rightarrow> u32"

section \<open>The definition\<close>

text \<open>
  The loop over the conversion paths for one update; \<open>i\<close> is \<open>ConversionPathID\<close>. When the packet is
  not accepted it is destroyed with its \<open>unique_ptr\<close> and the loop is left.
\<close>

fun enqueue_paths ::
  "('w, nat) queue_ops \<Rightarrow> nat \<Rightarrow> nat list \<Rightarrow> nat \<Rightarrow> u32 \<Rightarrow> nat option list \<Rightarrow>
   (('q, 'w) fill_env, u32 \<times> nat option list) prog" where
  "enqueue_paths W up [] i NumQueued cwp_last = ret (NumQueued, cwp_last)"
| "enqueue_paths W up (p # ps) i NumQueued cwp_last =
     bnd (get_st NextPacket) (\<lambda>k.
     thn (upd_st (\<lambda>e. e\<lparr>NextPacket := Suc k,
            Packets := (Packets e)(k \<mapsto> \<lparr>pk_Update = up, pk_Path = p, pk_stream = None\<rparr>)\<rparr>))
     (bnd (get_st (\<lambda>e. enqueue W k (WorkQueue e))) (\<lambda>(ok, w).
      thn (upd_st (\<lambda>e. e\<lparr>WorkQueue := w\<rparr>))
      (if ok
       then enqueue_paths W up ps (i + 1) (NumQueued + 1) (cwp_last[i := Some k])
       else thn (upd_st (\<lambda>e. e\<lparr>Packets := (Packets e)(k := None)\<rparr>))
                (ret (NumQueued, cwp_last[i := Some k]))))))"

text \<open>The loop over the updates, with the number of rounds it is given.\<close>

fun fill_loop ::
  "('q, nat option) queue_ops \<Rightarrow> ('w, nat) queue_ops \<Rightarrow> nat list \<Rightarrow> u32 \<Rightarrow> nat \<Rightarrow> nat \<Rightarrow>
   u32 \<Rightarrow> u32 \<Rightarrow> nat option list \<Rightarrow> (('q, 'w) fill_env, u32 \<times> nat option list) prog" where
  "fill_loop Q W ConversionPaths mx BufferSize 0 NumDequeued NumQueued cwp_last = fail Running"
| "fill_loop Q W ConversionPaths mx BufferSize (Suc rounds) NumDequeued NumQueued cwp_last =
     (if unat NumDequeued < BufferSize \<and> length ConversionPaths \<le> unat (mx - NumQueued)
      then bnd (get_st (\<lambda>e. try_dequeue Q (OutputQueue e))) (\<lambda>found. case found of
             None \<Rightarrow> ret (NumQueued, cwp_last)
           | Some (EpicsUpdate, q) \<Rightarrow>
               thn (upd_st (\<lambda>e. e\<lparr>OutputQueue := q\<rparr>))
               (case EpicsUpdate of
                  None \<Rightarrow> fill_loop Q W ConversionPaths mx BufferSize rounds (NumDequeued + 1) NumQueued cwp_last
                | Some up \<Rightarrow>
                    bnd (enqueue_paths W up ConversionPaths 0 NumQueued cwp_last) (\<lambda>(n, cwp).
                    fill_loop Q W ConversionPaths mx BufferSize rounds (NumDequeued + 1) n cwp)))
      else ret (NumQueued, cwp_last))"

text \<open>\<open>cwp_last[i1]->stream = this; ConversionPaths[i1]->transit++;\<close>\<close>

definition mark_last :: "nat \<Rightarrow> nat \<times> nat option \<Rightarrow> (('q, 'w) fill_env, unit) prog" where
  "mark_last this pc = (case snd pc of
     None \<Rightarrow> fail Crash
   | Some k \<Rightarrow>
       bnd (get_st (\<lambda>e. Packets e k)) (\<lambda>obj. case obj of
         None \<Rightarrow> fail Crash
       | Some pk \<Rightarrow>
           thn (upd_st (\<lambda>e. e\<lparr>Packets := (Packets e)(k \<mapsto> pk\<lparr>pk_stream := Some this\<rparr>)\<rparr>))
           (upd_st (\<lambda>e. e\<lparr>transit := (transit e)(fst pc := transit e (fst pc) + 1)\<rparr>))))"

definition fillConversionQueue ::
  "('q, nat option) queue_ops \<Rightarrow> ('w, nat) queue_ops \<Rightarrow> nat \<Rightarrow> nat \<Rightarrow> nat list \<Rightarrow> u32 \<Rightarrow>
   (('q, 'w) fill_env, u32) prog" where
  "fillConversionQueue Q W rounds this ConversionPaths mx =
     bnd (get_st (\<lambda>e. size_approx Q (OutputQueue e))) (\<lambda>BufferSize.
     bnd (fill_loop Q W ConversionPaths mx BufferSize rounds 0 0
            (replicate (length ConversionPaths) None)) (\<lambda>(NumQueued, cwp_last).
     thn (if NumQueued > 0 then for_each (mark_last this) (zip ConversionPaths cwp_last) else ret ())
     (ret NumQueued)))"

text \<open>\<open>ConversionWorkPacket::~ConversionWorkPacket\<close>.\<close>

definition delete_packet :: "nat \<Rightarrow> (('q, 'w) fill_env, unit) prog" where
  "delete_packet k =
     bnd (get_st (\<lambda>e. Packets e k)) (\<lambda>obj. case obj of
       None \<Rightarrow> fail Crash
     | Some pk \<Rightarrow>
         thn (if pk_stream pk \<noteq> None
              then upd_st (\<lambda>e. e\<lparr>transit := (transit e)(pk_Path pk := transit e (pk_Path pk) - 1)\<rparr>)
              else ret ())
         (upd_st (\<lambda>e. e\<lparr>Packets := (Packets e)(k := None)\<rparr>)))"

section \<open>One update\<close>

text \<open>The packets for an update, before the stream is entered.\<close>

definition plain_packets :: "nat \<Rightarrow> nat list \<Rightarrow> ConversionWorkPacket list" where
  "plain_packets up ps = map (\<lambda>p. \<lparr>pk_Update = up, pk_Path = p, pk_stream = None\<rparr>) ps"

definition packets_fresh :: "('q, 'w) fill_env \<Rightarrow> bool" where
  "packets_fresh e \<longleftrightarrow> (\<forall>k \<ge> NextPacket e. Packets e k = None)"

text \<open>\<open>e'\<close> has the packets \<open>pks\<close> in addition to those of \<open>e\<close>.\<close>

definition adds_packets ::
  "('w \<Rightarrow> nat list) \<Rightarrow> ('q, 'w) fill_env \<Rightarrow> ConversionWorkPacket list \<Rightarrow> ('q, 'w) fill_env \<Rightarrow> bool" where
  "adds_packets wc e pks e' \<longleftrightarrow>
     NextPacket e' = NextPacket e + length pks
     \<and> wc (WorkQueue e') = wc (WorkQueue e) @ [NextPacket e..<NextPacket e + length pks]
     \<and> map (Packets e') [NextPacket e..<NextPacket e + length pks] = map Some pks
     \<and> (\<forall>k < NextPacket e. Packets e' k = Packets e k)
     \<and> packets_fresh e'"

lemma adds_packets_Nil [simp]: "adds_packets wc e [] e \<longleftrightarrow> packets_fresh e"
  by (simp add: adds_packets_def)

lemma upt_split: "i \<le> j \<Longrightarrow> j \<le> k \<Longrightarrow> [i..<k] = [i..<j] @ [j..<k]"
  by (metis le_Suc_ex upt_add_eq_append)

lemma adds_packets_trans:
  assumes "adds_packets wc e xs e1" "adds_packets wc e1 ys e2"
  shows "adds_packets wc e (xs @ ys) e2"
proof -
  let ?n = "NextPacket e" and ?m = "NextPacket e + length xs"
  have up: "[?n..<?n + length (xs @ ys)] = [?n..<?m] @ [?m..<?m + length ys]"
    by (subst upt_split [of _ ?m]) (simp_all add: add.assoc)
  have old: "\<forall>k < ?m. Packets e2 k = Packets e1 k"
    using assms by (simp add: adds_packets_def)
  then have "map (Packets e2) [?n..<?m] = map (Packets e1) [?n..<?m]" by simp
  then show ?thesis
    using assms old unfolding adds_packets_def up by auto
qed

lemma adds_packets_alive:
  assumes "adds_packets wc e xs e1" "NextPacket e \<le> k" "k < NextPacket e1"
  shows "Packets e1 k \<noteq> None"
proof -
  obtain j where j: "k = NextPacket e + j" using assms(2) le_Suc_ex by blast
  have n: "j < length xs" using assms(1,3) j by (simp add: adds_packets_def)
  have "map (Packets e1) [NextPacket e..<NextPacket e + length xs] ! j = map Some xs ! j"
    using assms(1) by (simp add: adds_packets_def)
  then show ?thesis using n j by simp
qed

lemma enqueue_paths_run:
  assumes "ready_queue W wc" "packets_fresh e" "i + length ps = length cwp"
  shows "\<exists>e'. enqueue_paths W up ps i n cwp e =
        (Inr (n + of_nat (length ps),
              take i cwp @ map Some [NextPacket e..<NextPacket e + length ps]), e')
     \<and> adds_packets wc e (plain_packets up ps) e'
     \<and> OutputQueue e' = OutputQueue e \<and> transit e' = transit e"
  using assms(2,3)
proof (induction ps arbitrary: i n cwp e)
  case Nil
  then show ?case by (simp add: prog_defs plain_packets_def)
next
  case (Cons p ps)
  let ?k = "NextPacket e"
  let ?pk = "\<lparr>pk_Update = up, pk_Path = p, pk_stream = None\<rparr>"
  obtain w where w: "enqueue W ?k (WorkQueue e) = (True, w)" "wc w = wc (WorkQueue e) @ [?k]"
    using ready_queue.enqueue_ready [OF assms(1)] ready_queue.enqueue_contents [OF assms(1)]
    by (metis prod.collapse)
  let ?e = "e\<lparr>NextPacket := Suc ?k, Packets := (Packets e)(?k \<mapsto> ?pk), WorkQueue := w\<rparr>"
  have fresh: "packets_fresh ?e" using Cons.prems(1) by (simp add: packets_fresh_def)
  have step: "enqueue_paths W up (p # ps) i n cwp e =
      enqueue_paths W up ps (i + 1) (n + 1) (cwp[i := Some ?k]) ?e"
    using w by (simp add: prog_defs)
  obtain e' where e': "enqueue_paths W up ps (i + 1) (n + 1) (cwp[i := Some ?k]) ?e =
        (Inr (n + 1 + of_nat (length ps),
              take (i + 1) (cwp[i := Some ?k]) @ map Some [Suc ?k..<Suc ?k + length ps]), e')"
      "adds_packets wc ?e (plain_packets up ps) e'" "OutputQueue e' = OutputQueue e" "transit e' = transit e"
    using Cons.IH [OF fresh, of "i + 1" "cwp[i := Some ?k]" "n + 1"] Cons.prems(2) by auto
  have "take (i + 1) (cwp[i := Some ?k]) = take i cwp @ [Some ?k]"
    using Cons.prems(2) by (simp add: take_Suc_conv_app_nth)
  moreover have "adds_packets wc e [?pk] ?e"
    using w(2) fresh Cons.prems(1) by (simp add: adds_packets_def)
  from adds_packets_trans [OF this e'(2)]
  have "adds_packets wc e (plain_packets up (p # ps)) e'"
    by (simp add: plain_packets_def)
  ultimately show ?case
    using step e' by (simp add: upt_conv_Cons algebra_simps del: upt_Suc)
qed


section \<open>All updates\<close>

text \<open>The updates among what was dequeued: null pointers are dropped.\<close>

definition updates :: "nat option list \<Rightarrow> nat list" where
  "updates us = map the (filter (\<lambda>u. u \<noteq> None) us)"

lemma updates_simps [simp]:
  "updates [] = []" "updates (None # us) = updates us" "updates (Some u # us) = u # updates us"
  by (simp_all add: updates_def)

text \<open>
  The outcome of the loop: \<open>us\<close> is what it took off the stream's queue; it ended because the queue
  was empty, because it had taken as many as there were at the start, or because there was no room for
  another update.
\<close>

definition fill_outcome ::
  "('q \<Rightarrow> nat option list) \<Rightarrow> ('w \<Rightarrow> nat list) \<Rightarrow> nat list \<Rightarrow> u32 \<Rightarrow> nat \<Rightarrow> nat \<Rightarrow>
   ('q, 'w) fill_env \<Rightarrow> nat option list \<Rightarrow> ('q, 'w) fill_env \<Rightarrow> bool" where
  "fill_outcome oc wc ps mx left nq e us e' \<longleftrightarrow>
     oc (OutputQueue e) = us @ oc (OutputQueue e')
     \<and> adds_packets wc e (concat (map (\<lambda>u. plain_packets u ps) (updates us))) e'
     \<and> transit e' = transit e
     \<and> nq + length ps * length (updates us) \<le> unat mx \<and> length us \<le> left
     \<and> (oc (OutputQueue e') = [] \<or> length us = left
        \<or> unat mx < nq + length ps * length (updates us) + length ps)"

definition last_packets :: "('q, 'w) fill_env \<Rightarrow> nat list \<Rightarrow> nat option list" where
  "last_packets e ps = map Some [NextPacket e - length ps..<NextPacket e]"

lemma fill_outcome_stop:
  "nq \<le> unat mx \<Longrightarrow> packets_fresh e \<Longrightarrow>
   oc (OutputQueue e) = [] \<or> left = 0 \<or> unat mx < nq + length ps \<Longrightarrow>
   fill_outcome oc wc ps mx left nq e [] e"
  by (auto simp: fill_outcome_def)

lemma fill_outcome_null:
  assumes "oc (OutputQueue e) = None # oc q" "fill_outcome oc wc ps mx left nq (e\<lparr>OutputQueue := q\<rparr>) us e'"
  shows "fill_outcome oc wc ps mx (Suc left) nq e (None # us) e'"
  using assms by (auto simp: fill_outcome_def adds_packets_def packets_fresh_def)

lemma fill_outcome_update:
  assumes "oc (OutputQueue e) = Some up # oc (OutputQueue e1)" "adds_packets wc e (plain_packets up ps) e1"
    and "transit e1 = transit e" "fill_outcome oc wc ps mx left (nq + length ps) e1 us e'"
  shows "fill_outcome oc wc ps mx (Suc left) nq e (Some up # us) e'"
  using assms adds_packets_trans [OF assms(2)] by (auto simp: fill_outcome_def algebra_simps)

lemma fill_loop_run:
  assumes "ready_queue W wc" "fifo_queue Q oc" "BufferSize < 2 ^ 32"
    and "packets_fresh e" "nd \<le> BufferSize" "BufferSize - nd < rounds" "nq \<le> unat mx"
    and "length cwp = length ps"
  shows "\<exists>us e'. fill_loop Q W ps mx BufferSize rounds (of_nat nd) (of_nat nq) cwp e =
        (Inr (of_nat (nq + length ps * length (updates us)),
              if updates us = [] then cwp else last_packets e' ps), e')
     \<and> fill_outcome oc wc ps mx (BufferSize - nd) nq e us e'"
  using assms(4-8)
proof (induction rounds arbitrary: nd nq cwp e)
  case 0
  then show ?case by simp
next
  case (Suc rounds)
  have nd: "unat (of_nat nd :: u32) = nd"
    using Suc.prems(2) assms(3) by (intro unat_of_nat_small) simp
  have room: "unat (mx - of_nat nq) = unat mx - nq"
    by (rule unat_minus_of_nat [OF Suc.prems(4)])
  note loop = fill_loop.simps(2) [of Q W ps mx BufferSize rounds "of_nat nd" "of_nat nq" cwp, unfolded nd room]
  show ?case
  proof (cases "nd < BufferSize \<and> length ps \<le> unat mx - nq")
    case False
    then have "fill_outcome oc wc ps mx (BufferSize - nd) nq e [] e"
      using Suc.prems by (intro fill_outcome_stop) auto
    moreover have "fill_loop Q W ps mx BufferSize (Suc rounds) (of_nat nd) (of_nat nq) cwp e =
        (Inr (of_nat nq, cwp), e)"
      unfolding loop if_not_P [OF False] by (simp add: prog_defs)
    ultimately show ?thesis by (intro exI [of _ "[]"]) auto
  next
    case True
    then have left: "BufferSize - nd = Suc (BufferSize - Suc nd)" by (simp add: Suc_diff_Suc)
    then have rounds: "BufferSize - Suc nd < rounds" "Suc nd \<le> BufferSize"
      using Suc.prems(3) True by simp_all
    show ?thesis
    proof (cases "oc (OutputQueue e)")
      case Nil
      then have "try_dequeue Q (OutputQueue e) = None"
        by (simp add: fifo_queue.dequeue_None [OF assms(2)])
      then have "fill_loop Q W ps mx BufferSize (Suc rounds) (of_nat nd) (of_nat nq) cwp e =
          (Inr (of_nat nq, cwp), e)"
        using True unfolding loop by (simp add: prog_defs)
      moreover have "fill_outcome oc wc ps mx (BufferSize - nd) nq e [] e"
        using Suc.prems Nil by (intro fill_outcome_stop) auto
      ultimately show ?thesis by (intro exI [of _ "[]"]) auto
    next
      case (Cons x xs)
      then obtain q where q: "try_dequeue Q (OutputQueue e) = Some (x, q)" "oc q = xs"
        using fifo_queue.dequeue_Cons [OF assms(2)] by blast
      let ?e = "e\<lparr>OutputQueue := q\<rparr>"
      have fresh: "packets_fresh ?e" using Suc.prems(1) by (simp add: packets_fresh_def)
      show ?thesis
      proof (cases x)
        case None
        obtain us e' where us: "fill_loop Q W ps mx BufferSize rounds (of_nat (Suc nd)) (of_nat nq) cwp ?e =
            (Inr (of_nat (nq + length ps * length (updates us)),
                  if updates us = [] then cwp else last_packets e' ps), e')"
            "fill_outcome oc wc ps mx (BufferSize - Suc nd) nq ?e us e'"
          using Suc.IH [OF fresh rounds(2,1) Suc.prems(4,5)] by blast
        have "fill_loop Q W ps mx BufferSize (Suc rounds) (of_nat nd) (of_nat nq) cwp e =
            fill_loop Q W ps mx BufferSize rounds (of_nat (Suc nd)) (of_nat nq) cwp ?e"
          using True q None unfolding loop by (simp add: prog_defs add.commute)
        moreover have "fill_outcome oc wc ps mx (BufferSize - nd) nq e (None # us) e'"
          unfolding left using fill_outcome_null [OF _ us(2)] Cons None q(2) by simp
        ultimately show ?thesis using us(1) by (intro exI [of _ "None # us"]) auto
      next
        case (Some up)
        obtain e1 where e1: "enqueue_paths W up ps 0 (of_nat nq) cwp ?e =
            (Inr (of_nat nq + of_nat (length ps), map Some [NextPacket ?e..<NextPacket ?e + length ps]), e1)"
            "adds_packets wc ?e (plain_packets up ps) e1" "OutputQueue e1 = q" "transit e1 = transit e"
          using enqueue_paths_run [OF assms(1) fresh, of 0 ps cwp up "of_nat nq"] Suc.prems(5) by auto
        have last: "map Some [NextPacket ?e..<NextPacket ?e + length ps] = last_packets e1 ps"
          using e1(2) by (simp add: adds_packets_def last_packets_def plain_packets_def)
        have fresh1: "packets_fresh e1" and len1: "length (last_packets e1 ps) = length ps"
          and room1: "nq + length ps \<le> unat mx"
          using e1(2) True Suc.prems(4)
          by (auto simp: adds_packets_def last_packets_def plain_packets_def)
        obtain us e' where us: "fill_loop Q W ps mx BufferSize rounds (of_nat (Suc nd))
              (of_nat (nq + length ps)) (last_packets e1 ps) e1 =
            (Inr (of_nat (nq + length ps + length ps * length (updates us)),
                  if updates us = [] then last_packets e1 ps else last_packets e' ps), e')"
            "fill_outcome oc wc ps mx (BufferSize - Suc nd) (nq + length ps) e1 us e'"
          using Suc.IH [OF fresh1 rounds(2,1) room1 len1] by blast
        have "fill_loop Q W ps mx BufferSize (Suc rounds) (of_nat nd) (of_nat nq) cwp e =
            fill_loop Q W ps mx BufferSize rounds (of_nat (Suc nd)) (of_nat (nq + length ps)) (last_packets e1 ps) e1"
          using True q Some e1(1) last unfolding loop by (simp add: prog_defs add.commute)
        moreover have "fill_outcome oc wc ps mx (BufferSize - nd) nq e (Some up # us) e'"
          unfolding left
        proof (rule fill_outcome_update [OF _ _ _ us(2)])
          show "oc (OutputQueue e) = Some up # oc (OutputQueue e1)" using Cons Some q(2) e1(3) by simp
          show "adds_packets wc e (plain_packets up ps) e1"
            using e1(2) by (simp add: adds_packets_def)
          show "transit e1 = transit e" by (rule e1(4))
        qed
        moreover have "updates us = [] \<Longrightarrow> last_packets e1 ps = last_packets e' ps"
          using us(2) by (simp add: fill_outcome_def adds_packets_def last_packets_def)
        ultimately show ?thesis
          using us(1) by (intro exI [of _ "Some up # us"]) (auto simp: algebra_simps)
      qed
    qed
  qed
qed


section \<open>Entering the stream\<close>

definition tracked_packets :: "nat \<Rightarrow> nat \<Rightarrow> nat list \<Rightarrow> ConversionWorkPacket list" where
  "tracked_packets this up ps = map (\<lambda>p. \<lparr>pk_Update = up, pk_Path = p, pk_stream = Some this\<rparr>) ps"

lemma mark_last_all:
  assumes "length ks = length ps" "distinct ks" "\<forall>k \<in> set ks. Packets e k \<noteq> None"
  shows "\<exists>e'. for_each (mark_last this) (zip ps (map Some ks)) e = (Inr (), e')
     \<and> (\<forall>k. Packets e' k = (if k \<in> set ks
             then map_option (\<lambda>pk. pk\<lparr>pk_stream := Some this\<rparr>) (Packets e k) else Packets e k))
     \<and> (\<forall>p. transit e' p = transit e p + of_nat (count_list ps p))
     \<and> OutputQueue e' = OutputQueue e \<and> WorkQueue e' = WorkQueue e \<and> NextPacket e' = NextPacket e"
  using assms
proof (induction ps arbitrary: ks e)
  case Nil
  then show ?case by (simp add: prog_defs)
next
  case (Cons p ps)
  then obtain k ks' where ks: "ks = k # ks'" by (cases ks) auto
  then obtain pk where pk: "Packets e k = Some pk" using Cons.prems(3) by auto
  let ?e = "e\<lparr>Packets := (Packets e)(k \<mapsto> pk\<lparr>pk_stream := Some this\<rparr>),
             transit := (transit e)(p := transit e p + 1)\<rparr>"
  have "mark_last this (p, Some k) e = (Inr (), ?e)"
    by (simp add: mark_last_def prog_defs pk)
  moreover have "\<forall>k' \<in> set ks'. Packets ?e k' \<noteq> None" using Cons.prems(3) ks by auto
  then obtain e' where "for_each (mark_last this) (zip ps (map Some ks')) ?e = (Inr (), e')"
     "\<forall>k'. Packets e' k' = (if k' \<in> set ks'
         then map_option (\<lambda>pk. pk\<lparr>pk_stream := Some this\<rparr>) (Packets ?e k') else Packets ?e k')"
     "\<forall>q. transit e' q = transit ?e q + of_nat (count_list ps q)"
     "OutputQueue e' = OutputQueue e" "WorkQueue e' = WorkQueue e" "NextPacket e' = NextPacket e"
    using Cons.IH [of ks' ?e] Cons.prems(1,2) ks by fastforce
  moreover have "\<forall>k' \<in> set ks'. k' \<noteq> k" using Cons.prems(2) ks by auto
  ultimately show ?case
    using pk by (intro exI [of _ e']) (auto simp: ks run_thn algebra_simps)
qed

lemma adds_packets_mark:
  assumes "adds_packets wc e (xs @ plain_packets up ps) e1"
    and "\<forall>k. Packets e' k = (if k \<in> set [NextPacket e1 - length ps..<NextPacket e1]
             then map_option (\<lambda>pk. pk\<lparr>pk_stream := Some this\<rparr>) (Packets e1 k) else Packets e1 k)"
    and "WorkQueue e' = WorkQueue e1" "NextPacket e' = NextPacket e1"
  shows "adds_packets wc e (xs @ tracked_packets this up ps) e'"
proof -
  let ?n = "NextPacket e" and ?m = "NextPacket e + length xs"
  have len: "length (plain_packets up ps) = length ps" "length (tracked_packets this up ps) = length ps"
    by (simp_all add: plain_packets_def tracked_packets_def)
  have next1: "NextPacket e1 = ?m + length ps" using assms(1) by (simp add: adds_packets_def len)
  have up: "[?n..<?n + length (xs @ zs)] = [?n..<?m] @ [?m..<?m + length zs]" for zs
    by (subst upt_split [of _ ?m]) (simp_all add: add.assoc)
  have maps: "map (Packets e1) [?n..<?m] = map Some xs"
      "map (Packets e1) [?m..<?m + length ps] = map Some (plain_packets up ps)"
    using assms(1) unfolding adds_packets_def len up by (simp_all add: append_eq_append_conv)
  have "map (Packets e') [?n..<?m] = map Some xs"
    unfolding maps(1) [symmetric] using assms(2) by (auto simp: next1)
  moreover have "map (Packets e') [?m..<?m + length ps] =
      map (map_option (\<lambda>pk. pk\<lparr>pk_stream := Some this\<rparr>)) (map (Packets e1) [?m..<?m + length ps])"
    using assms(2) by (auto simp: next1)
  then have "map (Packets e') [?m..<?m + length ps] = map Some (tracked_packets this up ps)"
    unfolding maps(2) by (simp add: plain_packets_def tracked_packets_def)
  moreover have "\<forall>k < ?n. Packets e' k = Packets e k" "packets_fresh e'"
    using assms by (auto simp: adds_packets_def next1 packets_fresh_def)
  moreover have "[?n..<?n + (length xs + length ps)] = [?n..<?m] @ [?m..<?m + length ps]"
    using up [of "tracked_packets this up ps"] by (simp add: len)
  ultimately show ?thesis
    using assms(1,3,4) by (simp add: adds_packets_def len next1)
qed

text \<open>The packets that a call of \<open>fillConversionQueue\<close> adds for the updates \<open>vs\<close>.\<close>

definition filled_packets :: "nat \<Rightarrow> nat list \<Rightarrow> nat list \<Rightarrow> ConversionWorkPacket list" where
  "filled_packets this ps vs =
     (if vs = [] then []
      else concat (map (\<lambda>u. plain_packets u ps) (butlast vs)) @ tracked_packets this (last vs) ps)"

lemma fillConversionQueue_run:
  assumes "ready_queue W wc" "fifo_queue Q oc" "size_approx Q (OutputQueue e) < 2 ^ 32"
    and "size_approx Q (OutputQueue e) < rounds" "packets_fresh e"
  shows "\<exists>us e'. fillConversionQueue Q W rounds this ps mx e =
        (Inr (of_nat (length ps * length (updates us))), e')
     \<and> length ps * length (updates us) \<le> unat mx
     \<and> oc (OutputQueue e) = us @ oc (OutputQueue e') \<and> length us \<le> size_approx Q (OutputQueue e)
     \<and> (oc (OutputQueue e') = [] \<or> length us = size_approx Q (OutputQueue e)
        \<or> unat mx < length ps * length (updates us) + length ps)
     \<and> adds_packets wc e (filled_packets this ps (updates us)) e'
     \<and> (\<forall>p. transit e' p = transit e p + (if updates us = [] then 0 else of_nat (count_list ps p)))"
proof -
  let ?B = "size_approx Q (OutputQueue e)"
  obtain us e1 where run: "fill_loop Q W ps mx ?B rounds 0 0 (replicate (length ps) None) e =
        (Inr (of_nat (length ps * length (updates us)),
              if updates us = [] then replicate (length ps) None else last_packets e1 ps), e1)"
     and out: "fill_outcome oc wc ps mx ?B 0 e us e1"
    using fill_loop_run [OF assms(1-3,5), of 0 rounds 0 mx "replicate (length ps) None" ps] assms(4)
    by auto
  let ?N = "length ps * length (updates us)"
  have "?N < 2 ^ 32"
    using out unsigned_less [of mx, where ?'a = nat] by (simp add: fill_outcome_def)
  then have "unat (of_nat ?N :: u32) = ?N" by (intro unat_of_nat_small) simp
  then have pos: "(of_nat ?N :: u32) > 0 \<longleftrightarrow> ps \<noteq> [] \<and> updates us \<noteq> []"
    by (auto simp: word_less_nat_alt)
  show ?thesis
  proof (cases "ps \<noteq> [] \<and> updates us \<noteq> []")
    case False
    then have "fillConversionQueue Q W rounds this ps mx e = (Inr (of_nat ?N), e1)"
      using run pos by (auto simp: fillConversionQueue_def prog_defs)
    moreover have "filled_packets this ps (updates us) = []" "concat (map (\<lambda>u. plain_packets u ps) (updates us)) = []"
      using False by (auto simp: filled_packets_def plain_packets_def tracked_packets_def)
    moreover from this have "adds_packets wc e [] e1" using out unfolding fill_outcome_def by metis
    ultimately show ?thesis
      using out False by (intro exI [of _ us] exI [of _ e1]) (auto simp: fill_outcome_def)
  next
    case True
    then have vs: "updates us = butlast (updates us) @ [last (updates us)]" by simp
    have "concat (map (\<lambda>u. plain_packets u ps) (updates us)) =
        concat (map (\<lambda>u. plain_packets u ps) (butlast (updates us))) @ plain_packets (last (updates us)) ps"
      by (subst vs) (simp del: append_butlast_last_id)
    then have add: "adds_packets wc e (concat (map (\<lambda>u. plain_packets u ps) (butlast (updates us)))
        @ plain_packets (last (updates us)) ps) e1"
      using out by (simp add: fill_outcome_def)
    let ?ks = "[NextPacket e1 - length ps..<NextPacket e1]"
    have len: "length ?ks = length ps" "NextPacket e \<le> NextPacket e1 - length ps"
      using add by (simp_all add: adds_packets_def plain_packets_def)
    then have "\<forall>k \<in> set ?ks. Packets e1 k \<noteq> None"
      using adds_packets_alive [OF add] by auto
    then obtain e2 where e2: "for_each (mark_last this) (zip ps (map Some ?ks)) e1 = (Inr (), e2)"
      "\<forall>k. Packets e2 k = (if k \<in> set ?ks
         then map_option (\<lambda>pk. pk\<lparr>pk_stream := Some this\<rparr>) (Packets e1 k) else Packets e1 k)"
      "\<forall>p. transit e2 p = transit e1 p + of_nat (count_list ps p)"
      "OutputQueue e2 = OutputQueue e1" "WorkQueue e2 = WorkQueue e1" "NextPacket e2 = NextPacket e1"
      using mark_last_all [OF len(1), of e1 this] by auto
    have "fillConversionQueue Q W rounds this ps mx e = (Inr (of_nat ?N), e2)"
      using run pos True e2(1) by (simp add: fillConversionQueue_def prog_defs last_packets_def)
    moreover have "adds_packets wc e (filled_packets this ps (updates us)) e2"
      using adds_packets_mark [OF add e2(2,5,6)] True by (simp add: filled_packets_def)
    ultimately show ?thesis
      using out e2(3,4) True
      by (intro exI [of _ us] exI [of _ e2]) (simp add: fill_outcome_def)
  qed
qed


section \<open>Properties\<close>

text \<open>C12: Filling a worker's queue terminates and loses nothing: the updates come off the stream's
  queue in order, and every one that is not null gives exactly one packet per conversion path at the
  end of the worker's queue, in order of updates and then paths. The number returned is the number of
  packets and never exceeds \<open>max\<close>, whatever \<open>max\<close> is (the unsigned subtraction does not wrap). The call
  stops only when the queue is empty, when it has taken as many updates as were there at its start, or
  when there is no room for one more update. Exactly the packets of the last update carry the stream,
  and the transit count of each path grows by one for each of them.\<close>

theorem fillConversionQueue_result:
  assumes "ready_queue W wc" "fifo_queue Q oc" "size_approx Q (OutputQueue e) < 2 ^ 32"
    and "size_approx Q (OutputQueue e) < rounds" "packets_fresh e"
  shows "\<exists>us e'. fillConversionQueue Q W rounds this ps mx e =
        (Inr (of_nat (length ps * length (updates us))), e')
     \<and> length ps * length (updates us) \<le> unat mx
     \<and> oc (OutputQueue e) = us @ oc (OutputQueue e') \<and> length us \<le> size_approx Q (OutputQueue e)
     \<and> (oc (OutputQueue e') = [] \<or> length us = size_approx Q (OutputQueue e)
        \<or> unat mx < length ps * length (updates us) + length ps)
     \<and> adds_packets wc e (filled_packets this ps (updates us)) e'
     \<and> (\<forall>p. transit e' p = transit e p + (if updates us = [] then 0 else of_nat (count_list ps p)))"
  by (rule fillConversionQueue_run [OF assms])

lemma fillConversionQueue_result_witness:
  "\<exists>us e'. fillConversionQueue growing_queue growing_queue 9 7 [0, 1] 5
        \<lparr>OutputQueue = [Some 4, None, Some 6], WorkQueue = [], Packets = Map.empty, NextPacket = 0,
         transit = (\<lambda>_. 0)\<rparr> = (Inr (of_nat (2 * length (updates us))), e')
     \<and> [Some 4, None, Some 6] = us @ OutputQueue e'"
proof -
  let ?e = "\<lparr>OutputQueue = [Some 4, None, Some 6], WorkQueue = [], Packets = Map.empty, NextPacket = 0,
         transit = (\<lambda>_. 0)\<rparr> :: (nat option list, nat list) fill_env"
  have "packets_fresh ?e" by (simp add: packets_fresh_def)
  then show ?thesis
    using fillConversionQueue_result [OF gq.ready_queue_axioms gq.fifo_queue_axioms, of ?e 9 7 "[0, 1]" 5]
    by auto
qed

text \<open>
  When the worker's queue has no room for a packet, the packet is destroyed while \<open>cwp_last\<close> still
  points to it, and the end of the function writes through that pointer.
\<close>

lemma enqueue_failure_dangles:
  "fst (fillConversionQueue growing_queue (list_queue 1) (Suc (Suc 0)) 7 [0, 1] 5
      \<lparr>OutputQueue = [Some 4], WorkQueue = [], Packets = Map.empty, NextPacket = 0,
       transit = (\<lambda>_. 0)\<rparr>) = Inl Crash"
  by (simp add: fillConversionQueue_def mark_last_def prog_defs)

end
