(* ===== verification/Worker_Protocol.thy ===== *)
theory Worker_Protocol
  imports Fwd_Prelude "HOL-Library.Sublist"
begin

text \<open>
  An abstract view of the protocol by which conversion paths outlive the packets that point to them.
  A worker has a list of packets, each pointing to a path and possibly tracked (its \<open>stream\<close> is set).
  Each path counts the tracked packets; it is freed when no stream owns it and its count is 0. Only
  the last packet of a path in a batch is tracked, so the count says nothing about the others: it is
  the order of the list that protects them.
\<close>

record proto =
  Work :: "nat \<Rightarrow> (nat \<times> bool) list"
  Transits :: "nat \<Rightarrow> nat"
  Owned :: "nat list list"
  Live :: "nat set"

text \<open>The packets for \<open>n\<close> updates on the paths \<open>ps\<close>: those of the last update are tracked.\<close>

definition block :: "nat list \<Rightarrow> nat \<Rightarrow> (nat \<times> bool) list" where
  "block ps n = (if n = 0 then []
     else concat (replicate (n - 1) (map (\<lambda>p. (p, False)) ps)) @ map (\<lambda>p. (p, True)) ps)"

inductive proto_step :: "nat \<Rightarrow> proto \<Rightarrow> proto \<Rightarrow> bool" for N where
  fill: "w < N \<Longrightarrow> ps \<in> set (Owned s) \<Longrightarrow> \<forall>p \<in> set ps. p \<notin> fst ` set (Work s w) \<Longrightarrow> n > 0 \<Longrightarrow>
    proto_step N s (s\<lparr>Work := (Work s)(w := Work s w @ block ps n),
                     Transits := (\<lambda>p. Transits s p + count_list ps p)\<rparr>)"
| finish: "w < N \<Longrightarrow> Work s w = (p, t) # xs \<Longrightarrow>
    proto_step N s (s\<lparr>Work := (Work s)(w := xs),
                     Transits := (if t then (Transits s)(p := Transits s p - 1) else Transits s)\<rparr>)"
| remove: "subseq xss (Owned s) \<Longrightarrow> proto_step N s (s\<lparr>Owned := xss\<rparr>)"
| add: "proto_step N s (s\<lparr>Owned := Owned s @ [[]]\<rparr>)"
| create: "p \<notin> Live s \<Longrightarrow> proto_step N s (s\<lparr>Live := insert p (Live s)\<rparr>)"
| grow: "p \<in> Live s \<Longrightarrow> p \<notin> set (concat (Owned s)) \<Longrightarrow> Owned s = xs @ ps # ys \<Longrightarrow>
    proto_step N s (s\<lparr>Owned := xs @ (ps @ [p]) # ys\<rparr>)"
| free: "p \<notin> set (concat (Owned s)) \<Longrightarrow> Transits s p = 0 \<Longrightarrow>
    proto_step N s (s\<lparr>Live := Live s - {p}\<rparr>)"

section \<open>The invariant\<close>

text \<open>Every packet is followed by a tracked packet of its path, or is one.\<close>

fun covered :: "(nat \<times> bool) list \<Rightarrow> bool" where
  "covered [] \<longleftrightarrow> True"
| "covered ((p, t) # xs) \<longleftrightarrow> (t \<or> (p, True) \<in> set xs) \<and> covered xs"

definition tracked :: "nat \<Rightarrow> (nat \<times> bool) list \<Rightarrow> nat" where
  "tracked p xs = count_list xs (p, True)"

definition proto_inv :: "nat \<Rightarrow> proto \<Rightarrow> bool" where
  "proto_inv N s \<longleftrightarrow>
     (\<forall>w < N. covered (Work s w) \<and> fst ` set (Work s w) \<subseteq> Live s \<and> (\<forall>p. tracked p (Work s w) \<le> 1))
     \<and> (\<forall>p. Transits s p = (\<Sum>w<N. tracked p (Work s w)))
     \<and> distinct (concat (Owned s)) \<and> set (concat (Owned s)) \<subseteq> Live s"

lemma tracked_simps [simp]:
  "tracked p [] = 0"
  "tracked p (xs @ ys) = tracked p xs + tracked p ys"
  "tracked p ((q, t) # xs) = (if q = p \<and> t then 1 else 0) + tracked p xs"
  by (auto simp: tracked_def count_list_append)

lemma covered_append [intro]: "covered xs \<Longrightarrow> covered ys \<Longrightarrow> covered (xs @ ys)"
  by (induction xs rule: covered.induct) auto

lemma covered_tracked: "covered xs \<Longrightarrow> (p, t) \<in> set xs \<Longrightarrow> 0 < tracked p xs"
proof -
  assume "covered xs" "(p, t) \<in> set xs"
  then have "(p, True) \<in> set xs" by (induction xs rule: covered.induct) auto
  then show ?thesis using count_list_0_iff [of xs "(p, True)"] by (auto simp: tracked_def)
qed

lemma tracked_last [simp]: "tracked p (map (\<lambda>p. (p, True)) ps) = count_list ps p"
  by (induction ps) auto

lemma tracked_plain [simp]: "tracked p (concat (replicate n (map (\<lambda>p. (p, False)) ps))) = 0"
proof -
  have "tracked p (map (\<lambda>p. (p, False)) ps) = 0" by (induction ps) auto
  then show ?thesis by (induction n) auto
qed

lemma covered_plain:
  "covered ys \<Longrightarrow> \<forall>p \<in> set ps. (p, True) \<in> set ys \<Longrightarrow>
   covered (concat (replicate n (map (\<lambda>p. (p, False)) ps)) @ ys)"
proof (induction n)
  case (Suc n)
  have "covered zs \<Longrightarrow> \<forall>p \<in> set qs. (p, True) \<in> set zs \<Longrightarrow> covered (map (\<lambda>p. (p, False)) qs @ zs)" for qs zs
    by (induction qs) auto
  with Suc show ?case by simp
qed simp

lemma covered_block: "covered (block ps n)"
proof -
  have "covered (map (\<lambda>p. (p, True)) ps)" by (induction ps) auto
  then show ?thesis by (auto simp: block_def intro!: covered_plain)
qed

lemma tracked_block: "n > 0 \<Longrightarrow> tracked p (block ps n) = count_list ps p"
  by (simp add: block_def)

lemma set_block: "fst ` set (block ps n) \<subseteq> set ps"
  by (auto simp: block_def)

lemma tracked_absent: "p \<notin> fst ` set xs \<Longrightarrow> tracked p xs = 0"
  by (force simp: tracked_def count_list_0_iff)

lemma count_list_distinct: "distinct xs \<Longrightarrow> count_list xs x \<le> 1"
  by (induction xs) (auto simp: count_list_0_iff)

lemma concat_distinct_member: "distinct (concat xss) \<Longrightarrow> xs \<in> set xss \<Longrightarrow> distinct xs"
  by (induction xss) auto

lemma subseq_concat_distinct:
  "subseq xss yss \<Longrightarrow> distinct (concat yss) \<Longrightarrow>
   distinct (concat xss) \<and> set (concat xss) \<subseteq> set (concat yss)"
  by (induction rule: list_emb.induct) auto

lemma sum_update:
  fixes f :: "nat \<Rightarrow> nat"
  assumes "w < N"
  shows "(\<Sum>v<N. if v = w then a else f v) + f w = (\<Sum>v<N. f v) + a"
  using assms by (simp add: sum.If_cases sum.remove [of "{..<N}" w] Diff_eq)

lemma sum_tracked_update:
  assumes "w < N"
  shows "(\<Sum>v<N. tracked p (((Work s)(w := xs)) v)) + tracked p (Work s w) =
     (\<Sum>v<N. tracked p (Work s v)) + tracked p xs"
  using sum_update [OF assms, of "tracked p xs" "\<lambda>v. tracked p (Work s v)"]
  by (simp add: if_distrib cong: if_cong)

lemma fill_inv:
  assumes "proto_inv N s" "w < N" "ps \<in> set (Owned s)" "\<forall>p \<in> set ps. p \<notin> fst ` set (Work s w)" "n > 0"
  shows "proto_inv N (s\<lparr>Work := (Work s)(w := Work s w @ block ps n),
                     Transits := (\<lambda>p. Transits s p + count_list ps p)\<rparr>)"
proof -
  have d: "distinct ps" "set ps \<subseteq> Live s"
    using assms(1,3) by (auto simp: proto_inv_def dest: concat_distinct_member)
  have one: "tracked p (Work s w @ block ps n) \<le> 1" for p
  proof (cases "p \<in> set ps")
    case True
    then have "tracked p (Work s w) = 0" using assms(4) by (auto intro: tracked_absent)
    then show ?thesis using count_list_distinct [OF d(1)] by (simp add: tracked_block assms(5))
  next
    case False
    then show ?thesis using assms(1,2) by (simp add: proto_inv_def tracked_block assms(5))
  qed
  have "covered (Work s w @ block ps n)"
    using assms(1,2) by (auto simp: proto_inv_def intro: covered_block)
  moreover have "fst ` set (Work s w @ block ps n) \<subseteq> Live s"
  proof -
    have "fst ` set (Work s w) \<subseteq> Live s" using assms(1,2) by (simp add: proto_inv_def)
    moreover have "fst ` set (block ps n) \<subseteq> Live s"
      by (rule subset_trans [OF set_block d(2)])
    ultimately show ?thesis by (simp add: image_Un)
  qed
  moreover have "Transits s p + count_list ps p =
      (\<Sum>v<N. tracked p (((Work s)(w := Work s w @ block ps n)) v))" for p
    using sum_tracked_update [OF assms(2), of p s "Work s w @ block ps n"] assms(1)
    by (simp add: proto_inv_def tracked_block assms(5))
  ultimately show ?thesis using assms(1) one by (simp add: proto_inv_def)
qed

lemma finish_inv:
  assumes "proto_inv N s" "w < N" "Work s w = (p, t) # xs"
  shows "proto_inv N (s\<lparr>Work := (Work s)(w := xs),
                     Transits := (if t then (Transits s)(p := Transits s p - 1) else Transits s)\<rparr>)"
proof -
  have inv: "covered ((p, t) # xs) \<and> fst ` set ((p, t) # xs) \<subseteq> Live s \<and> (\<forall>q. tracked q ((p, t) # xs) \<le> 1)"
    using assms(1,2) assms(3) [symmetric] by (simp add: proto_inv_def del: covered.simps tracked_simps)
  have "tracked q xs \<le> tracked q ((p, t) # xs)" for q by simp
  with inv have "\<And>q. tracked q xs \<le> 1" by (meson le_trans)
  moreover have "covered xs" "fst ` set xs \<subseteq> Live s" using inv by auto
  moreover have "(if t then (Transits s)(p := Transits s p - 1) else Transits s) q =
      (\<Sum>v<N. tracked q (((Work s)(w := xs)) v))" for q
    using sum_tracked_update [OF assms(2), of q s xs] assms(1,3) by (auto simp: proto_inv_def)
  ultimately show ?thesis using assms(1) by (simp add: proto_inv_def)
qed

lemma free_inv:
  assumes "proto_inv N s" "p \<notin> set (concat (Owned s))" "Transits s p = 0"
  shows "proto_inv N (s\<lparr>Live := Live s - {p}\<rparr>)"
proof -
  have "p \<notin> fst ` set (Work s w)" if "w < N" for w
  proof
    assume "p \<in> fst ` set (Work s w)"
    then have "0 < tracked p (Work s w)"
      using assms(1) that covered_tracked by (fastforce simp: proto_inv_def)
    moreover have "tracked p (Work s w) = 0" using assms(1,3) that by (simp add: proto_inv_def)
    ultimately show False by simp
  qed
  then show ?thesis using assms(1,2) by (simp add: proto_inv_def subset_Diff_insert)
qed

lemma proto_step_inv:
  "proto_step N s s' \<Longrightarrow> proto_inv N s \<Longrightarrow> proto_inv N s'"
proof (induction rule: proto_step.induct)
  case (remove xss s)
  then have "distinct (concat (Owned s))" "set (concat (Owned s)) \<subseteq> Live s"
    unfolding proto_inv_def by blast+
  with subseq_concat_distinct [OF remove(1)]
  have "distinct (concat xss)" "set (concat xss) \<subseteq> Live s" by blast+
  with remove show ?case by (simp add: proto_inv_def)
next
  case (add s)
  then show ?case by (simp add: proto_inv_def)
next
  case (create p s)
  then show ?case by (auto simp: proto_inv_def)
next
  case (grow p s xs ps ys)
  then show ?case by (auto simp: proto_inv_def)
next
  case (fill w ps s n)
  then show ?case by (intro fill_inv)
next
  case (finish w s p t xs)
  then show ?case by (intro finish_inv)
next
  case (free p s)
  then show ?case by (intro free_inv)
qed

lemma dead_untracked: "proto_inv N s \<Longrightarrow> p \<notin> Live s \<Longrightarrow> Transits s p = 0"
proof -
  assume inv: "proto_inv N s" and p: "p \<notin> Live s"
  have "tracked p (Work s w) = 0" if "w < N" for w
  proof -
    have "fst ` set (Work s w) \<subseteq> Live s" using inv that by (simp add: proto_inv_def)
    with p show ?thesis by (intro tracked_absent) blast
  qed
  with inv show ?thesis by (simp add: proto_inv_def)
qed

lemma transits_bound: "proto_inv N s \<Longrightarrow> Transits s p \<le> N"
proof -
  assume inv: "proto_inv N s"
  then have "(\<Sum>v<N. tracked p (Work s v)) \<le> (\<Sum>v<N. 1)"
    by (intro sum_mono) (auto simp: proto_inv_def)
  with inv show ?thesis by (simp add: proto_inv_def)
qed

lemma proto_safe:
  assumes "proto_inv N s" "w < N" "(p, t) \<in> set (Work s w)"
  shows "p \<in> Live s \<and> 0 < Transits s p \<and> Transits s p \<le> N"
proof -
  have "0 < tracked p (Work s w)"
    using assms covered_tracked by (auto simp: proto_inv_def)
  moreover have "tracked p (Work s w) \<le> (\<Sum>v<N. tracked p (Work s v))"
    using assms(2) by (intro member_le_sum) auto
  moreover have "Transits s p \<le> N" by (rule transits_bound [OF assms(1)])
  moreover have "fst ` set (Work s w) \<subseteq> Live s" using assms(1,2) by (simp add: proto_inv_def)
  then have "p \<in> Live s" using imageI [OF assms(3), of fst] by auto
  ultimately show ?thesis using assms(1) by (simp add: proto_inv_def)
qed

end
