(* ===== verification/Pv_Data.thy ===== *)
theory Pv_Data
  imports Fwd_Prelude
begin

text \<open>
  The data the converters read: EPICS PV structures as trees of named fields (the values of
  \<open>epics::pvData\<close> that the sources inspect, with machine integers and IEEE numbers as
  their bit patterns), the update \<open>EpicsPVUpdate\<close> (\<open>EpicsPVUpdate.h\<close>), and the message a
  converter returns (\<open>FlatbufferMessage.h\<close>). Typed access to a field of the wrong type is a
  null pointer in C++: \<open>None\<close> here, and \<open>deref\<close> turns its use into a crash.
\<close>

datatype ScalarType =
    pvBoolean | pvByte | pvShort | pvInt | pvLong
  | pvUByte | pvUShort | pvUInt | pvULong | pvFloat | pvDouble | pvString

datatype scalar =
    SBoolean u8 | SByte u8 | SShort u16 | SInt u32 | SLong u64
  | SUByte u8 | SUShort u16 | SUInt u32 | SULong u64 | SFloat u32 | SDouble u64
  | SString string

datatype scalar_array =
    ABoolean "u8 list" | AByte "u8 list" | AShort "u16 list" | AInt "u32 list" | ALong "u64 list"
  | AUByte "u8 list" | AUShort "u16 list" | AUInt "u32 list" | AULong "u64 list"
  | AFloat "u32 list" | ADouble "u64 list" | AString "string list"

datatype pvfield =
    PVScalar scalar
  | PVScalarArray scalar_array
  | PVStructure string "(string \<times> pvfield) list"
  | PVStructureArray
  | PVUnion
  | PVUnionArray

fun getScalarType :: "scalar \<Rightarrow> ScalarType" where
  "getScalarType (SBoolean _) = pvBoolean"
| "getScalarType (SByte _) = pvByte"
| "getScalarType (SShort _) = pvShort"
| "getScalarType (SInt _) = pvInt"
| "getScalarType (SLong _) = pvLong"
| "getScalarType (SUByte _) = pvUByte"
| "getScalarType (SUShort _) = pvUShort"
| "getScalarType (SUInt _) = pvUInt"
| "getScalarType (SULong _) = pvULong"
| "getScalarType (SFloat _) = pvFloat"
| "getScalarType (SDouble _) = pvDouble"
| "getScalarType (SString _) = pvString"

fun getElementType :: "scalar_array \<Rightarrow> ScalarType" where
  "getElementType (ABoolean _) = pvBoolean"
| "getElementType (AByte _) = pvByte"
| "getElementType (AShort _) = pvShort"
| "getElementType (AInt _) = pvInt"
| "getElementType (ALong _) = pvLong"
| "getElementType (AUByte _) = pvUByte"
| "getElementType (AUShort _) = pvUShort"
| "getElementType (AUInt _) = pvUInt"
| "getElementType (AULong _) = pvULong"
| "getElementType (AFloat _) = pvFloat"
| "getElementType (ADouble _) = pvDouble"
| "getElementType (AString _) = pvString"

text \<open>\<open>PVStructure::getSubField(name)\<close>, and the type tests by \<open>dynamic_cast\<close>.\<close>

fun getSubField :: "string \<Rightarrow> pvfield \<Rightarrow> pvfield option" where
  "getSubField name (PVStructure _ fields) = map_of fields name"
| "getSubField name _ = None"

fun as_structure :: "pvfield \<Rightarrow> pvfield option" where
  "as_structure (PVStructure i fs) = Some (PVStructure i fs)"
| "as_structure _ = None"

fun as_string :: "pvfield \<Rightarrow> string option" where
  "as_string (PVScalar (SString s)) = Some s"
| "as_string _ = None"

fun as_int :: "pvfield \<Rightarrow> u32 option" where
  "as_int (PVScalar (SInt n)) = Some n"
| "as_int _ = None"

fun as_long :: "pvfield \<Rightarrow> u64 option" where
  "as_long (PVScalar (SLong n)) = Some n"
| "as_long _ = None"

fun as_scalar :: "pvfield \<Rightarrow> scalar option" where
  "as_scalar (PVScalar s) = Some s"
| "as_scalar _ = None"

text \<open>Using a pointer: a null one is undefined behaviour.\<close>

definition deref :: "'a option \<Rightarrow> 'a res" where
  "deref p = (case p of None \<Rightarrow> Inl Crash | Some x \<Rightarrow> Inr x)"

lemma deref_simps [simp]: "deref None = Inl Crash" "deref (Some x) = Inr x"
  by (simp_all add: deref_def)

lemma deref_Inr_iff [simp]: "deref p = Inr x \<longleftrightarrow> p = Some x"
  by (cases p) simp_all

text \<open>
  An update as a converter sees it; a null \<open>epics_pvstr\<close> is \<open>None\<close>.
\<close>

record EpicsPVUpdate =
  epics_pvstr :: "pvfield option"
  channel :: string
  AlarmStatusChanged :: bool

text \<open>
  The message a converter returns: the table that was built, and the message key
  (empty when it was not set).
\<close>

record 't FlatbufferMessage =
  table :: 't
  Key :: string

end
