(* ===== verification/F142.thy ===== *)
theory F142
  imports Pv_Data
begin

text \<open>
  \<open>schemas/f142\<close>: the converter of general EPICS values. The template specialisations that
  choose the flatbuffer type of a C++ type are functions on the enumerations they range over.
  What the schema compiler generates is a parameter: the names and the two enumerators of
  \<open>AlarmStatus\<close> the code uses. \<open>NTEnum::isCompatible\<close> is a parameter too.
\<close>

section \<open>Types of the generated schema\<close>

datatype Value =
    V_NONE | V_Byte | V_UByte | V_Short | V_UShort | V_Int | V_UInt | V_Long | V_ULong
  | V_Float | V_Double | V_String
  | V_ArrayByte | V_ArrayUByte | V_ArrayShort | V_ArrayUShort | V_ArrayInt | V_ArrayUInt
  | V_ArrayLong | V_ArrayULong | V_ArrayFloat | V_ArrayDouble

datatype Builder =
    ByteBuilder | UByteBuilder | ShortBuilder | UShortBuilder | IntBuilder | UIntBuilder
  | LongBuilder | ULongBuilder | FloatBuilder | DoubleBuilder | StringBuilder
  | ArrayByteBuilder | ArrayUByteBuilder | ArrayShortBuilder | ArrayUShortBuilder
  | ArrayIntBuilder | ArrayUIntBuilder | ArrayLongBuilder | ArrayULongBuilder
  | ArrayFloatBuilder | ArrayDoubleBuilder

fun BuilderType_to_Enum_Value :: "Builder \<Rightarrow> Value" where
  "BuilderType_to_Enum_Value ByteBuilder = V_Byte"
| "BuilderType_to_Enum_Value UByteBuilder = V_UByte"
| "BuilderType_to_Enum_Value ShortBuilder = V_Short"
| "BuilderType_to_Enum_Value UShortBuilder = V_UShort"
| "BuilderType_to_Enum_Value IntBuilder = V_Int"
| "BuilderType_to_Enum_Value UIntBuilder = V_UInt"
| "BuilderType_to_Enum_Value LongBuilder = V_Long"
| "BuilderType_to_Enum_Value ULongBuilder = V_ULong"
| "BuilderType_to_Enum_Value FloatBuilder = V_Float"
| "BuilderType_to_Enum_Value DoubleBuilder = V_Double"
| "BuilderType_to_Enum_Value StringBuilder = V_String"
| "BuilderType_to_Enum_Value ArrayByteBuilder = V_ArrayByte"
| "BuilderType_to_Enum_Value ArrayUByteBuilder = V_ArrayUByte"
| "BuilderType_to_Enum_Value ArrayShortBuilder = V_ArrayShort"
| "BuilderType_to_Enum_Value ArrayUShortBuilder = V_ArrayUShort"
| "BuilderType_to_Enum_Value ArrayIntBuilder = V_ArrayInt"
| "BuilderType_to_Enum_Value ArrayUIntBuilder = V_ArrayUInt"
| "BuilderType_to_Enum_Value ArrayLongBuilder = V_ArrayLong"
| "BuilderType_to_Enum_Value ArrayULongBuilder = V_ArrayULong"
| "BuilderType_to_Enum_Value ArrayFloatBuilder = V_ArrayFloat"
| "BuilderType_to_Enum_Value ArrayDoubleBuilder = V_ArrayDouble"

text \<open>
  What a value table holds: a number at the width of its field, a string, or a vector: the
  element size in bytes, the number of elements and the bytes.
\<close>

datatype payload =
    P8 u8 | P16 u16 | P32 u32 | P64 u64 | PStr string
  | PVec nat nat "nat list"

text \<open>\<open>Value_t\<close>: the offset 0 of an absent value is \<open>None\<close>.\<close>

record Value_t =
  Type :: Value
  Offset :: "payload option"

definition no_value :: Value_t where
  "no_value = \<lparr>Type = V_NONE, Offset = None\<rparr>"

record Statistics =
  err_timestamp_not_available :: u64
  err_not_implemented_yet :: u64

record LogData =
  source_name :: string
  value_type :: Value
  "value" :: "payload option"
  status :: "nat option"
  severity :: "nat option"
  timestamp :: "u64 option"

section \<open>Scalars\<close>

text \<open>\<open>Make_Scalar<T0>::ScalarType\<close>; \<open>None\<close> is \<open>std::nullptr_t\<close>.\<close>

fun Make_Scalar_type :: "ScalarType \<Rightarrow> Builder option" where
  "Make_Scalar_type pvBoolean = Some ByteBuilder"
| "Make_Scalar_type pvByte = Some ByteBuilder"
| "Make_Scalar_type pvShort = Some ShortBuilder"
| "Make_Scalar_type pvInt = Some IntBuilder"
| "Make_Scalar_type pvLong = Some LongBuilder"
| "Make_Scalar_type pvUByte = Some UByteBuilder"
| "Make_Scalar_type pvUShort = Some UShortBuilder"
| "Make_Scalar_type pvUInt = Some UIntBuilder"
| "Make_Scalar_type pvULong = Some ULongBuilder"
| "Make_Scalar_type pvFloat = Some FloatBuilder"
| "Make_Scalar_type pvDouble = Some DoubleBuilder"
| "Make_Scalar_type pvString = None"

text \<open>\<open>Make_Scalar<T0>::convert\<close>: \<open>T0 Value = ValueField->get(); PVBuilder.add_value(Value)\<close>.\<close>

fun scalar_payload :: "scalar \<Rightarrow> payload" where
  "scalar_payload (SBoolean v) = P8 v"
| "scalar_payload (SByte v) = P8 v"
| "scalar_payload (SShort v) = P16 v"
| "scalar_payload (SInt v) = P32 v"
| "scalar_payload (SLong v) = P64 v"
| "scalar_payload (SUByte v) = P8 v"
| "scalar_payload (SUShort v) = P16 v"
| "scalar_payload (SUInt v) = P32 v"
| "scalar_payload (SULong v) = P64 v"
| "scalar_payload (SFloat v) = P32 v"
| "scalar_payload (SDouble v) = P64 v"
| "scalar_payload (SString v) = PStr v"

definition Make_Scalar_convert :: "scalar \<Rightarrow> Value_t" where
  "Make_Scalar_convert f = (case Make_Scalar_type (getScalarType f) of
     None \<Rightarrow> no_value
   | Some b \<Rightarrow> \<lparr>Type = BuilderType_to_Enum_Value b, Offset = Some (scalar_payload f)\<rparr>)"

definition MakeScalarString_convert :: "scalar \<Rightarrow> Value_t res" where
  "MakeScalarString_convert f = bind_res (deref (as_string (PVScalar f)))
     (\<lambda>v. Inr \<lparr>Type = BuilderType_to_Enum_Value StringBuilder, Offset = Some (PStr v)\<rparr>)"

text \<open>A null \<open>field\<close> (a failed \<open>dynamic_cast\<close>) crashes at \<open>field->getScalar()\<close>.\<close>

definition makeValueScalar :: "scalar option \<Rightarrow> (Statistics, Value_t) prog" where
  "makeValueScalar field =
     bnd (of_res (deref field)) (\<lambda>f.
     of_res (case getScalarType f of
       pvString \<Rightarrow> MakeScalarString_convert f
     | _ \<Rightarrow> Inr (Make_Scalar_convert f)))"

section \<open>Arrays\<close>

fun Make_ScalarArray_type :: "ScalarType \<Rightarrow> Builder option" where
  "Make_ScalarArray_type pvBoolean = Some ArrayByteBuilder"
| "Make_ScalarArray_type pvByte = Some ArrayByteBuilder"
| "Make_ScalarArray_type pvShort = Some ArrayShortBuilder"
| "Make_ScalarArray_type pvInt = Some ArrayIntBuilder"
| "Make_ScalarArray_type pvLong = Some ArrayLongBuilder"
| "Make_ScalarArray_type pvUByte = Some ArrayUByteBuilder"
| "Make_ScalarArray_type pvUShort = Some ArrayUShortBuilder"
| "Make_ScalarArray_type pvUInt = Some ArrayUIntBuilder"
| "Make_ScalarArray_type pvULong = Some ArrayULongBuilder"
| "Make_ScalarArray_type pvFloat = Some ArrayFloatBuilder"
| "Make_ScalarArray_type pvDouble = Some ArrayDoubleBuilder"
| "Make_ScalarArray_type pvString = None"

text \<open>The \<open>n\<close> bytes of a number in memory, least significant first, and back.\<close>

fun le_bytes :: "nat \<Rightarrow> nat \<Rightarrow> nat list" where
  "le_bytes 0 x = []"
| "le_bytes (Suc n) x = x mod 256 # le_bytes n (x div 256)"

fun of_le_bytes :: "nat list \<Rightarrow> nat" where
  "of_le_bytes [] = 0"
| "of_le_bytes (b # bs) = b + 256 * of_le_bytes bs"

text \<open>\<open>sizeof(T0)\<close> and the elements of \<open>ValueField->view()\<close> as unsigned numbers.\<close>

fun element_size :: "scalar_array \<Rightarrow> nat" where
  "element_size (ABoolean _) = 1"
| "element_size (AByte _) = 1"
| "element_size (AShort _) = 2"
| "element_size (AInt _) = 4"
| "element_size (ALong _) = 8"
| "element_size (AUByte _) = 1"
| "element_size (AUShort _) = 2"
| "element_size (AUInt _) = 4"
| "element_size (AULong _) = 8"
| "element_size (AFloat _) = 4"
| "element_size (ADouble _) = 8"
| "element_size (AString _) = 0"

fun elements :: "scalar_array \<Rightarrow> nat list" where
  "elements (ABoolean xs) = map unat xs"
| "elements (AByte xs) = map unat xs"
| "elements (AShort xs) = map unat xs"
| "elements (AInt xs) = map unat xs"
| "elements (ALong xs) = map unat xs"
| "elements (AUByte xs) = map unat xs"
| "elements (AUShort xs) = map unat xs"
| "elements (AUInt xs) = map unat xs"
| "elements (AULong xs) = map unat xs"
| "elements (AFloat xs) = map unat xs"
| "elements (ADouble xs) = map unat xs"
| "elements (AString xs) = []"

text \<open>The memory behind \<open>Value.data()\<close> on the little-endian hosts the build requires.\<close>

definition memory_image :: "nat \<Rightarrow> nat list \<Rightarrow> nat list" where
  "memory_image sz xs = concat (map (le_bytes sz) xs)"

text \<open>
  \<open>memcpy\<close> of \<open>ValueSize * sizeof(T0)\<close> bytes into the new vector, or \<open>CreateVector\<close>,
  which writes one element after the other.
\<close>

definition Make_ScalarArray_convert :: "scalar_array \<Rightarrow> bool \<Rightarrow> Value_t" where
  "Make_ScalarArray_convert f UseMemCpy = (case Make_ScalarArray_type (getElementType f) of
     None \<Rightarrow> no_value
   | Some b \<Rightarrow>
      (let xs = elements f; ValueSize = length xs; sz = element_size f in
       \<lparr>Type = BuilderType_to_Enum_Value b,
        Offset = Some (PVec sz ValueSize
          (if UseMemCpy then take (ValueSize * sz) (memory_image sz xs)
           else foldr (\<lambda>x bs. le_bytes sz x @ bs) xs []))\<rparr>))"

definition makeValueArray :: "scalar_array option \<Rightarrow> bool \<Rightarrow> (Statistics, Value_t) prog" where
  "makeValueArray ScalarArrayField opts =
     bnd (of_res (deref ScalarArrayField)) (\<lambda>f.
     (case getElementType f of
        pvString \<Rightarrow> thn (upd_st (err_not_implemented_yet_update (\<lambda>n. n + 1))) (ret no_value)
      | _ \<Rightarrow> ret (Make_ScalarArray_convert f opts)))"

section \<open>The value of an update\<close>

definition makeValue :: "(pvfield \<Rightarrow> bool) \<Rightarrow> pvfield option \<Rightarrow> bool \<Rightarrow> (Statistics, Value_t) prog" where
  "makeValue isNTEnum PVStructureField opts = (case PVStructureField of
     None \<Rightarrow> ret no_value
   | Some pv \<Rightarrow> (case getSubField ''value'' pv of
       None \<Rightarrow> ret no_value
     | Some ValueField \<Rightarrow> (case ValueField of
         PVScalar s \<Rightarrow> makeValueScalar (Some s)
       | PVScalarArray a \<Rightarrow> makeValueArray (Some a) opts
       | PVStructure _ _ \<Rightarrow>
           (if isNTEnum pv
            then makeValueScalar (Option.bind (getSubField ''index'' ValueField) as_scalar)
            else ret no_value)
       | PVStructureArray \<Rightarrow> ret no_value
       | PVUnion \<Rightarrow> ret no_value
       | PVUnionArray \<Rightarrow> ret no_value)))"

section \<open>Alarms\<close>

text \<open>The generated enumeration \<open>AlarmStatus\<close>: its names, and the two enumerators used.\<close>

record AlarmSchema =
  StatusNames :: "string list"
  Status_NO_ALARM :: nat
  Status_UDF :: nat

fun find_status :: "string list \<Rightarrow> string \<Rightarrow> nat \<Rightarrow> nat option" where
  "find_status [] AlarmString i = None"
| "find_status (n # ns) AlarmString i =
     (if AlarmString = n then Some i else find_status ns AlarmString (i + 1))"

text \<open>\<open>AlarmString.substr(0, AlarmString.length() - 6)\<close>, in the arithmetic of \<open>size_t\<close>.\<close>

definition strip_alarm :: "string \<Rightarrow> string" where
  "strip_alarm s = (if s \<noteq> ''NO_ALARM'' then take (unat (of_nat (length s) - 6 :: u64)) s else s)"

definition getAlarmStatus :: "AlarmSchema \<Rightarrow> pvfield \<Rightarrow> nat res" where
  "getAlarmStatus A pv = (case getSubField ''alarm'' pv of
     None \<Rightarrow> Inr (Status_NO_ALARM A)
   | Some AlarmField \<Rightarrow>
      bind_res (deref (as_structure AlarmField)) (\<lambda>alarm.
      bind_res (deref (Option.bind (getSubField ''message'' alarm) as_string)) (\<lambda>AlarmString.
      Inr (case find_status (StatusNames A) (strip_alarm AlarmString) 0 of
             Some i \<Rightarrow> i | None \<Rightarrow> Status_UDF A))))"

text \<open>
  The severities: the keys are the values of \<open>epics::pvData::AlarmSeverity\<close> (no, minor, major,
  invalid and undefined alarm are 0 to 4), the values the enumerators of the generated
  \<open>AlarmSeverity\<close>, which are parameters. \<open>std::map::operator[]\<close> on a missing key inserts
  the enumerator 0.
\<close>

record SeveritySchema =
  Sev_MINOR :: nat
  Sev_MAJOR :: nat
  Sev_NO_ALARM :: nat
  Sev_INVALID :: nat

definition EpicsSeverityToFlatbufferSeverity :: "SeveritySchema \<Rightarrow> (int \<rightharpoonup> nat)" where
  "EpicsSeverityToFlatbufferSeverity V =
     [1 \<mapsto> Sev_MINOR V, 2 \<mapsto> Sev_MAJOR V, 0 \<mapsto> Sev_NO_ALARM V, 3 \<mapsto> Sev_INVALID V, 4 \<mapsto> Sev_INVALID V]"

definition getAlarmSeverity ::
  "SeveritySchema \<Rightarrow> pvfield \<Rightarrow> ((int \<rightharpoonup> nat), nat) prog" where
  "getAlarmSeverity V pv = (case getSubField ''alarm'' pv of
     None \<Rightarrow> ret (Sev_NO_ALARM V)
   | Some AlarmField \<Rightarrow>
      bnd (of_res (deref (as_structure AlarmField))) (\<lambda>alarm.
      bnd (of_res (deref (Option.bind (getSubField ''severity'' alarm) as_int))) (\<lambda>SeverityValue.
      bnd (upd_st (\<lambda>m. case m (sint SeverityValue) of
              None \<Rightarrow> m(sint SeverityValue \<mapsto> 0) | Some _ \<Rightarrow> m)) (\<lambda>_.
      bnd (get_st (\<lambda>m. m (sint SeverityValue))) (\<lambda>v. of_res (deref v))))))"

section \<open>The converter\<close>

text \<open>The converter's own state and the global table of severities it may extend.\<close>

record f142_state =
  ConvStats :: Statistics
  SeverityMap :: "int \<rightharpoonup> nat"

definition on_stats :: "(Statistics, 'a) prog \<Rightarrow> (f142_state, 'a) prog" where
  "on_stats m s = (case m (ConvStats s) of (r, st) \<Rightarrow> (r, s\<lparr>ConvStats := st\<rparr>))"

definition on_severities :: "((int \<rightharpoonup> nat), 'a) prog \<Rightarrow> (f142_state, 'a) prog" where
  "on_severities m s = (case m (SeverityMap s) of (r, st) \<Rightarrow> (r, s\<lparr>SeverityMap := st\<rparr>))"

text \<open>\<open>TimeStamp = uint64_t(seconds); TimeStamp *= 1000000000; TimeStamp += nanoseconds;\<close>\<close>

definition f142_timestamp :: "u64 \<Rightarrow> u32 \<Rightarrow> u64" where
  "f142_timestamp sec nanos = sec * 1000000000 + of_int (sint nanos)"

definition read_timestamp :: "pvfield \<Rightarrow> (f142_state, u64 option) prog" where
  "read_timestamp pv = (case Option.bind (getSubField ''timeStamp'' pv) as_structure of
     Some PVTimeStamp \<Rightarrow>
       bnd (of_res (deref (Option.bind (getSubField ''secondsPastEpoch'' PVTimeStamp) as_long))) (\<lambda>sec.
       bnd (of_res (deref (Option.bind (getSubField ''nanoseconds'' PVTimeStamp) as_int))) (\<lambda>nanos.
       ret (Some (f142_timestamp sec nanos))))
   | None \<Rightarrow>
       thn (on_stats (upd_st (err_timestamp_not_available_update (\<lambda>n. n + 1)))) (ret None))"

definition read_alarm ::
  "AlarmSchema \<Rightarrow> SeveritySchema \<Rightarrow> bool \<Rightarrow> pvfield \<Rightarrow> (f142_state, nat option \<times> nat option) prog" where
  "read_alarm A V changed pv =
     (if changed
      then bnd (of_res (getAlarmStatus A pv)) (\<lambda>st.
           bnd (on_severities (getAlarmSeverity V pv)) (\<lambda>sv. ret (Some st, Some sv)))
      else ret (None, None))"

definition f142_create ::
  "(pvfield \<Rightarrow> bool) \<Rightarrow> AlarmSchema \<Rightarrow> SeveritySchema \<Rightarrow> EpicsPVUpdate \<Rightarrow>
   (f142_state, LogData FlatbufferMessage) prog" where
  "f142_create isNTEnum A V PVUpdate =
     bnd (on_stats (makeValue isNTEnum (epics_pvstr PVUpdate) True)) (\<lambda>val.
     bnd (of_res (deref (epics_pvstr PVUpdate))) (\<lambda>pv.
     bnd (read_alarm A V (AlarmStatusChanged PVUpdate) pv) (\<lambda>(st, sv).
     bnd (read_timestamp pv) (\<lambda>ts.
     ret \<lparr>table = \<lparr>source_name = channel PVUpdate, value_type = Type val, value = Offset val,
            status = st, severity = sv, timestamp = ts\<rparr>,
          Key = channel PVUpdate\<rparr>))))"


section \<open>What a reader of the message sees\<close>

text \<open>
  The specification of the value: the number (or text) a reader of the schema gets back from
  a value table, by the type recorded beside it, and the one that the PV holds.
\<close>

datatype meaning =
    MInt int | MFloat32 u32 | MFloat64 u64 | MText string

fun scalar_meaning :: "scalar \<Rightarrow> meaning" where
  "scalar_meaning (SBoolean v) = MInt (sint v)"
| "scalar_meaning (SByte v) = MInt (sint v)"
| "scalar_meaning (SShort v) = MInt (sint v)"
| "scalar_meaning (SInt v) = MInt (sint v)"
| "scalar_meaning (SLong v) = MInt (sint v)"
| "scalar_meaning (SUByte v) = MInt (uint v)"
| "scalar_meaning (SUShort v) = MInt (uint v)"
| "scalar_meaning (SUInt v) = MInt (uint v)"
| "scalar_meaning (SULong v) = MInt (uint v)"
| "scalar_meaning (SFloat v) = MFloat32 v"
| "scalar_meaning (SDouble v) = MFloat64 v"
| "scalar_meaning (SString v) = MText v"

fun array_meaning :: "scalar_array \<Rightarrow> meaning list" where
  "array_meaning (ABoolean xs) = map (\<lambda>v. MInt (sint v)) xs"
| "array_meaning (AByte xs) = map (\<lambda>v. MInt (sint v)) xs"
| "array_meaning (AShort xs) = map (\<lambda>v. MInt (sint v)) xs"
| "array_meaning (AInt xs) = map (\<lambda>v. MInt (sint v)) xs"
| "array_meaning (ALong xs) = map (\<lambda>v. MInt (sint v)) xs"
| "array_meaning (AUByte xs) = map (\<lambda>v. MInt (uint v)) xs"
| "array_meaning (AUShort xs) = map (\<lambda>v. MInt (uint v)) xs"
| "array_meaning (AUInt xs) = map (\<lambda>v. MInt (uint v)) xs"
| "array_meaning (AULong xs) = map (\<lambda>v. MInt (uint v)) xs"
| "array_meaning (AFloat xs) = map MFloat32 xs"
| "array_meaning (ADouble xs) = map MFloat64 xs"
| "array_meaning (AString xs) = map MText xs"

text \<open>Reading a scalar back by the recorded type.\<close>

fun read_scalar :: "Value \<Rightarrow> payload \<Rightarrow> meaning option" where
  "read_scalar t (P8 v) =
     (if t = V_Byte then Some (MInt (sint v))
      else if t = V_UByte then Some (MInt (uint v)) else None)"
| "read_scalar t (P16 v) =
     (if t = V_Short then Some (MInt (sint v))
      else if t = V_UShort then Some (MInt (uint v)) else None)"
| "read_scalar t (P32 v) =
     (if t = V_Int then Some (MInt (sint v))
      else if t = V_UInt then Some (MInt (uint v))
      else if t = V_Float then Some (MFloat32 v) else None)"
| "read_scalar t (P64 v) =
     (if t = V_Long then Some (MInt (sint v))
      else if t = V_ULong then Some (MInt (uint v))
      else if t = V_Double then Some (MFloat64 v) else None)"
| "read_scalar t (PStr v) = (if t = V_String then Some (MText v) else None)"
| "read_scalar t (PVec sz n bs) = None"

text \<open>
  Reading a vector back: \<open>n\<close> elements of \<open>sz\<close> bytes each, each one a little-endian number
  that the element type of the table says how to read.
\<close>

fun read_elements :: "nat \<Rightarrow> nat \<Rightarrow> nat list \<Rightarrow> nat list" where
  "read_elements sz 0 bs = []"
| "read_elements sz (Suc n) bs = of_le_bytes (take sz bs) # read_elements sz n (drop sz bs)"

fun element_reader :: "Value \<Rightarrow> (nat \<times> (nat \<Rightarrow> meaning)) option" where
  "element_reader V_ArrayByte = Some (1, \<lambda>n. MInt (sint (of_nat n :: u8)))"
| "element_reader V_ArrayShort = Some (2, \<lambda>n. MInt (sint (of_nat n :: u16)))"
| "element_reader V_ArrayInt = Some (4, \<lambda>n. MInt (sint (of_nat n :: u32)))"
| "element_reader V_ArrayLong = Some (8, \<lambda>n. MInt (sint (of_nat n :: u64)))"
| "element_reader V_ArrayUByte = Some (1, \<lambda>n. MInt (int n))"
| "element_reader V_ArrayUShort = Some (2, \<lambda>n. MInt (int n))"
| "element_reader V_ArrayUInt = Some (4, \<lambda>n. MInt (int n))"
| "element_reader V_ArrayULong = Some (8, \<lambda>n. MInt (int n))"
| "element_reader V_ArrayFloat = Some (4, \<lambda>n. MFloat32 (of_nat n))"
| "element_reader V_ArrayDouble = Some (8, \<lambda>n. MFloat64 (of_nat n))"
| "element_reader _ = None"

definition read_vector :: "Value_t \<Rightarrow> meaning list option" where
  "read_vector v = (case (element_reader (Type v), Offset v) of
     (Some (sz, rd), Some (PVec sz' n bs)) \<Rightarrow>
       (if sz = sz' \<and> length bs = n * sz then Some (map rd (read_elements sz n bs)) else None)
   | _ \<Rightarrow> None)"

subsection \<open>Scalars\<close>

lemma makeValueScalar_run:
  "makeValueScalar (Some x) st =
     (Inr (if getScalarType x = pvString
           then \<lparr>Type = V_String, Offset = Some (scalar_payload x)\<rparr> else Make_Scalar_convert x), st)"
  by (cases x) (simp_all add: makeValueScalar_def MakeScalarString_convert_def prog_defs)

text \<open>C18: A scalar value field is written with the flatbuffer type of its own width and
  signedness: for every scalar PV, of all twelve EPICS scalar types, \<open>makeValue\<close> returns, changes no
  statistics, and what a reader of the schema gets back from the table is exactly the number (or
  string) the PV holds.\<close>

theorem makeValue_scalar_roundtrip:
  assumes "getSubField ''value'' pv = Some (PVScalar x)"
  shows "\<exists>v. makeValue isNTEnum (Some pv) opts st = (Inr v, st)
             \<and> Option.bind (Offset v) (read_scalar (Type v)) = Some (scalar_meaning x)"
  using assms
  by (cases x) (simp_all add: makeValue_def makeValueScalar_run Make_Scalar_convert_def)

lemma makeValue_scalar_roundtrip_witness:
  "\<exists>v. makeValue (\<lambda>_. False) (Some (PVStructure ''s'' [(''value'', PVScalar (SShort (- 3)))])) True
         \<lparr>err_timestamp_not_available = 0, err_not_implemented_yet = 0\<rparr>
       = (Inr v, \<lparr>err_timestamp_not_available = 0, err_not_implemented_yet = 0\<rparr>)
     \<and> Option.bind (Offset v) (read_scalar (Type v)) = Some (MInt (- 3))"
  using makeValue_scalar_roundtrip
    [of "PVStructure ''s'' [(''value'', PVScalar (SShort (- 3)))]" "SShort (- 3)" "\<lambda>_. False" True]
  by simp

subsection \<open>Arrays\<close>

lemma length_le_bytes [simp]: "length (le_bytes n x) = n"
  by (induction n arbitrary: x) simp_all

lemma of_le_bytes_le_bytes: "x < 256 ^ n \<Longrightarrow> of_le_bytes (le_bytes n x) = x"
  by (induction n arbitrary: x) (simp_all add: less_mult_imp_div_less mult.commute)

lemma length_memory_image: "length (memory_image sz xs) = length xs * sz"
  by (induction xs) (simp_all add: memory_image_def)

lemma foldr_le_bytes: "foldr (\<lambda>x bs. le_bytes sz x @ bs) xs [] = memory_image sz xs"
  by (induction xs) (simp_all add: memory_image_def)

lemma read_elements_memory_image:
  "\<forall>x \<in> set xs. x < 256 ^ sz \<Longrightarrow> read_elements sz (length xs) (memory_image sz xs) = xs"
  by (induction xs) (simp_all add: memory_image_def of_le_bytes_le_bytes)

lemma unat_bounds:
  "unat (a::u8) < 256" "unat (b::u16) < 65536" "unat (c::u32) < 4294967296"
  "unat (d::u64) < 18446744073709551616"
  using unsigned_less [of a, where ?'a = nat] unsigned_less [of b, where ?'a = nat]
    unsigned_less [of c, where ?'a = nat] unsigned_less [of d, where ?'a = nat]
  by simp_all

lemma elements_bound: "\<forall>x \<in> set (elements a). x < 256 ^ element_size a"
  by (cases a) (auto simp: unat_bounds)

lemma element_reader_array:
  assumes "getElementType a \<noteq> pvString"
  shows "\<exists>b rd. Make_ScalarArray_type (getElementType a) = Some b
     \<and> element_reader (BuilderType_to_Enum_Value b) = Some (element_size a, rd)
     \<and> map rd (elements a) = array_meaning a"
  using assms by (cases a) simp_all

lemma read_vector_image:
  "element_reader t = Some (element_size a, rd) \<Longrightarrow>
   read_vector \<lparr>Type = t, Offset = Some (PVec (element_size a) (length (elements a))
     (memory_image (element_size a) (elements a)))\<rparr> = Some (map rd (elements a))"
  by (simp add: read_vector_def length_memory_image read_elements_memory_image elements_bound)

lemma Make_ScalarArray_convert_eq:
  "Make_ScalarArray_type (getElementType a) = Some b \<Longrightarrow>
   Make_ScalarArray_convert a opts =
     \<lparr>Type = BuilderType_to_Enum_Value b, Offset = Some (PVec (element_size a) (length (elements a))
        (memory_image (element_size a) (elements a)))\<rparr>"
  by (simp add: Make_ScalarArray_convert_def Let_def foldr_le_bytes length_memory_image)

lemma read_vector_convert:
  assumes "getElementType a \<noteq> pvString"
  shows "read_vector (Make_ScalarArray_convert a opts) = Some (array_meaning a)"
proof -
  obtain b rd where "Make_ScalarArray_type (getElementType a) = Some b"
      and rd: "element_reader (BuilderType_to_Enum_Value b) = Some (element_size a, rd)"
      and "map rd (elements a) = array_meaning a"
    using element_reader_array [OF assms] by blast
  then show ?thesis
    using read_vector_image [OF rd] by (simp add: Make_ScalarArray_convert_eq)
qed

text \<open>C19: An array value field is written so that a reader gets back exactly its elements, in
  order and with their signedness, for every numeric element type and every length; copying the
  memory of the array (\<open>UseMemCpy\<close>) and building the vector element by element give the same
  table. An array of strings gives no value and adds one to the statistics.\<close>

theorem makeValue_array_roundtrip:
  assumes "getSubField ''value'' pv = Some (PVScalarArray a)"
  shows "if getElementType a = pvString
     then makeValue isNTEnum (Some pv) opts st =
            (Inr no_value, st\<lparr>err_not_implemented_yet := err_not_implemented_yet st + 1\<rparr>)
     else \<exists>v. makeValue isNTEnum (Some pv) True st = (Inr v, st)
            \<and> makeValue isNTEnum (Some pv) False st = (Inr v, st)
            \<and> read_vector v = Some (array_meaning a)"
proof (cases "getElementType a = pvString")
  case True
  with assms show ?thesis
    by (simp add: makeValue_def makeValueArray_def prog_defs)
next
  case False
  then have "makeValueArray (Some a) o' st = (Inr (Make_ScalarArray_convert a o'), st)" for o'
    by (cases a) (simp_all add: makeValueArray_def prog_defs)
  moreover have "Make_ScalarArray_convert a True = Make_ScalarArray_convert a False"
    using element_reader_array [OF False] by (auto simp: Make_ScalarArray_convert_eq)
  ultimately show ?thesis
    using assms False by (simp add: makeValue_def read_vector_convert)
qed

lemma makeValue_array_roundtrip_witness:
  "\<exists>v. makeValue (\<lambda>_. False) (Some (PVStructure ''s'' [(''value'', PVScalarArray (AInt [1, - 2]))])) True
         \<lparr>err_timestamp_not_available = 0, err_not_implemented_yet = 0\<rparr>
       = (Inr v, \<lparr>err_timestamp_not_available = 0, err_not_implemented_yet = 0\<rparr>)
     \<and> read_vector v = Some [MInt 1, MInt (- 2)]"
  using makeValue_array_roundtrip
    [of "PVStructure ''s'' [(''value'', PVScalarArray (AInt [1, - 2]))]" "AInt [1, - 2]"
        "\<lambda>_. False" True "\<lparr>err_timestamp_not_available = 0, err_not_implemented_yet = 0\<rparr>"]
  by auto

subsection \<open>Alarms\<close>

lemma find_status_None [simp]: "find_status ns a i = None \<longleftrightarrow> a \<notin> set ns"
  by (induction ns arbitrary: i) auto

lemma find_status_nth:
  "distinct ns \<Longrightarrow> k < length ns \<Longrightarrow> find_status ns (ns ! k) i = Some (i + k)"
proof (induction ns arbitrary: i k)
  case (Cons n ns)
  then show ?case by (cases k) (auto simp: nth_mem)
qed simp

lemma strip_alarm_suffix:
  assumes "length n + 6 < 2 ^ 64" "n \<noteq> ''NO''"
  shows "strip_alarm (n @ ''_ALARM'') = n"
proof -
  have "n @ ''_ALARM'' \<noteq> ''NO'' @ ''_ALARM''"
    using assms(2) by (simp only: append_same_eq) simp
  moreover have "of_nat (length (n @ ''_ALARM'')) - 6 = (of_nat (length n) :: u64)"
    by simp
  moreover have "unat (of_nat (length n) :: u64) = length n"
    using assms(1) by (intro unat_of_nat_small) simp
  ultimately show ?thesis by (simp add: strip_alarm_def)
qed

definition alarm_message :: "pvfield \<Rightarrow> string option" where
  "alarm_message pv = Option.bind (Option.bind (Option.bind (getSubField ''alarm'' pv) as_structure)
     (getSubField ''message'')) as_string"

lemma getAlarmStatus_message:
  "alarm_message pv = Some m \<Longrightarrow>
   getAlarmStatus A pv = Inr (case find_status (StatusNames A) (strip_alarm m) 0 of
     Some i \<Rightarrow> i | None \<Rightarrow> Status_UDF A)"
  by (auto simp: alarm_message_def getAlarmStatus_def bind_eq_Some_conv)

text \<open>The alarm status is the index of the alarm's name in the generated list of names:
  the message \<open>X_ALARM\<close> gives the index of \<open>X\<close> and the message \<open>NO_ALARM\<close> the index of
  \<open>NO_ALARM\<close>; a message whose stripped name is not in the list gives \<open>UDF\<close>. The statuses of two
  listed names are different.\<close>

theorem getAlarmStatus_decodes:
  assumes "distinct (StatusNames A)" "k < length (StatusNames A)" "StatusNames A ! k \<noteq> ''NO''"
      and "length (StatusNames A ! k) + 6 < 2 ^ 64"
      and "alarm_message pv = Some m"
  shows "(m = StatusNames A ! k @ ''_ALARM'' \<longrightarrow> getAlarmStatus A pv = Inr k)
       \<and> (m = ''NO_ALARM'' \<and> StatusNames A ! k = ''NO_ALARM'' \<longrightarrow> getAlarmStatus A pv = Inr k)
       \<and> (strip_alarm m \<notin> set (StatusNames A) \<longrightarrow> getAlarmStatus A pv = Inr (Status_UDF A))"
proof -
  have k: "find_status (StatusNames A) (StatusNames A ! k) 0 = Some k"
    using find_status_nth [OF assms(1,2)] by simp
  have "getAlarmStatus A pv = Inr k" if "m = StatusNames A ! k @ ''_ALARM''"
    using that k strip_alarm_suffix [OF assms(4,3)] getAlarmStatus_message [OF assms(5)] by simp
  moreover have "getAlarmStatus A pv = Inr k" if "m = ''NO_ALARM''" "StatusNames A ! k = ''NO_ALARM''"
    using that k getAlarmStatus_message [OF assms(5)] by (simp add: strip_alarm_def)
  moreover have "getAlarmStatus A pv = Inr (Status_UDF A)" if "strip_alarm m \<notin> set (StatusNames A)"
    using that getAlarmStatus_message [OF assms(5)]
    by (metis find_status_None option.simps(4))
  ultimately show ?thesis by blast
qed

lemma getAlarmStatus_decodes_witness:
  "getAlarmStatus \<lparr>StatusNames = [''NO_ALARM'', ''READ'', ''HIHI''], Status_NO_ALARM = 0, Status_UDF = 9\<rparr>
     (PVStructure ''s'' [(''alarm'', PVStructure ''a'' [(''message'', PVScalar (SString ''HIHI_ALARM''))])])
   = Inr 2"
  using getAlarmStatus_decodes
    [of "\<lparr>StatusNames = [''NO_ALARM'', ''READ'', ''HIHI''], Status_NO_ALARM = 0, Status_UDF = 9\<rparr>" 2
        "PVStructure ''s'' [(''alarm'', PVStructure ''a'' [(''message'', PVScalar (SString ''HIHI_ALARM''))])]"
        "''HIHI_ALARM''"]
  by (simp add: alarm_message_def)

text \<open>
  The severity that a value of the PV's \<open>severity\<close> field means: minor, major and invalid as they
  are, undefined as invalid, and every other number the enumerator 0.
\<close>

definition severity_spec :: "SeveritySchema \<Rightarrow> int \<Rightarrow> nat" where
  "severity_spec V i =
     (if i = 0 then Sev_NO_ALARM V else if i = 1 then Sev_MINOR V else if i = 2 then Sev_MAJOR V
      else if i = 3 \<or> i = 4 then Sev_INVALID V else 0)"

text \<open>The invariant of the global table: the five known severities are as initialised, and what
  \<open>operator[]\<close> has inserted since is 0.\<close>

definition severity_map_ok :: "SeveritySchema \<Rightarrow> (int \<rightharpoonup> nat) \<Rightarrow> bool" where
  "severity_map_ok V m \<longleftrightarrow>
     {0, 1, 2, 3, 4} \<subseteq> dom m \<and> (\<forall>i v. m i = Some v \<longrightarrow> v = severity_spec V i)"

definition alarm_severity :: "pvfield \<Rightarrow> u32 option" where
  "alarm_severity pv = Option.bind (Option.bind (Option.bind (getSubField ''alarm'' pv) as_structure)
     (getSubField ''severity'')) as_int"

lemma severity_map_ok_init: "severity_map_ok V (EpicsSeverityToFlatbufferSeverity V)"
  by (auto simp: severity_map_ok_def EpicsSeverityToFlatbufferSeverity_def severity_spec_def
      split: if_splits)

lemma severity_spec_missing: "severity_map_ok V m \<Longrightarrow> m i = None \<Longrightarrow> severity_spec V i = 0"
  by (auto simp: severity_map_ok_def severity_spec_def)

lemma severity_map_ok_insert:
  assumes "severity_map_ok V m" "m i = None"
  shows "severity_map_ok V (m(i \<mapsto> 0))"
  using assms severity_spec_missing [OF assms] unfolding severity_map_ok_def by auto

lemma getAlarmSeverity_ok:
  assumes "severity_map_ok V m"
      and "getSubField ''alarm'' pv = None \<or> alarm_severity pv = Some sv"
  shows "\<exists>m'. getAlarmSeverity V pv m =
           (Inr (if getSubField ''alarm'' pv = None then Sev_NO_ALARM V
                 else severity_spec V (sint sv)), m')
         \<and> severity_map_ok V m' \<and> m \<subseteq>\<^sub>m m'"
proof (cases "getSubField ''alarm'' pv")
  case None
  with assms show ?thesis by (simp add: getAlarmSeverity_def prog_defs)
next
  case (Some f)
  then obtain a s where as: "as_structure f = Some a" "getSubField ''severity'' a = Some s"
      "as_int s = Some sv"
    using assms(2) by (auto simp: alarm_severity_def bind_eq_Some_conv)
  show ?thesis
  proof (cases "m (sint sv)")
    case None
    then have "severity_map_ok V (m(sint sv \<mapsto> 0))" "severity_spec V (sint sv) = 0"
      using assms(1) by (simp_all add: severity_map_ok_insert severity_spec_missing)
    with None Some as show ?thesis
      by (auto simp: getAlarmSeverity_def prog_defs map_le_def)
  next
    case (Some v)
    then have "v = severity_spec V (sint sv)"
      using assms(1) by (simp add: severity_map_ok_def)
    with assms(1) Some \<open>getSubField ''alarm'' pv = Some f\<close> as show ?thesis
      by (simp add: getAlarmSeverity_def prog_defs)
  qed
qed

subsection \<open>The time stamp\<close>

text \<open>The time stamp of the message is the exact number of nanoseconds since the epoch: for
  a non-negative time up to the largest whole second that 64 bits of nanoseconds hold (in the year
  2554), the multiplication and the addition do not wrap, so seconds and nanoseconds can be read
  back by division.\<close>

theorem f142_timestamp_exact:
  assumes "uint sec \<le> 18446744072" "0 \<le> sint nanos" "sint nanos < 1000000000"
  shows "uint (f142_timestamp sec nanos) = uint sec * 1000000000 + sint nanos
       \<and> uint (f142_timestamp sec nanos) div 1000000000 = uint sec
       \<and> uint (f142_timestamp sec nanos) mod 1000000000 = sint nanos"
proof -
  have "f142_timestamp sec nanos = word_of_int (uint sec * 1000000000 + sint nanos)"
    by (simp add: f142_timestamp_def)
  then have "uint (f142_timestamp sec nanos) =
        (uint sec * 1000000000 + sint nanos) mod 18446744073709551616"
    by (simp only: uint_word_of_int) simp
  also have "\<dots> = uint sec * 1000000000 + sint nanos"
    using assms by (intro mod_pos_pos_trivial) auto
  finally have ts: "uint (f142_timestamp sec nanos) = uint sec * 1000000000 + sint nanos" .
  then show ?thesis
    using assms(2,3) by (simp add: add.commute)
qed

lemma f142_timestamp_exact_witness:
  "uint (f142_timestamp 1500000000 999999999) = 1500000000999999999"
  using f142_timestamp_exact [of 1500000000 999999999] by simp


lemma read_timestamp_run:
  "read_timestamp pv st =
     (case Option.bind (getSubField ''timeStamp'' pv) as_structure of
        None \<Rightarrow> (Inr None, st\<lparr>ConvStats := (ConvStats st)\<lparr>err_timestamp_not_available :=
                              err_timestamp_not_available (ConvStats st) + 1\<rparr>\<rparr>)
      | Some t \<Rightarrow>
         (case (Option.bind (getSubField ''secondsPastEpoch'' t) as_long,
                Option.bind (getSubField ''nanoseconds'' t) as_int) of
            (Some sec, Some nanos) \<Rightarrow> (Inr (Some (f142_timestamp sec nanos)), st)
          | _ \<Rightarrow> (Inl Crash, st)))"
  by (auto simp: read_timestamp_def on_stats_def prog_defs split: option.splits)

subsection \<open>Whole messages\<close>

text \<open>
  The PV structures the converter can handle: an \<open>alarm\<close> field, where there is one, is a structure
  with a string \<open>message\<close> and an int \<open>severity\<close>; a \<open>timeStamp\<close> structure has its two
  fields; an enumeration has a scalar \<open>index\<close>.
\<close>

definition alarm_ok :: "pvfield \<Rightarrow> bool" where
  "alarm_ok pv \<longleftrightarrow> getSubField ''alarm'' pv = None
     \<or> (alarm_message pv \<noteq> None \<and> alarm_severity pv \<noteq> None)"

definition timestamp_ok :: "pvfield \<Rightarrow> bool" where
  "timestamp_ok pv \<longleftrightarrow>
     (case Option.bind (getSubField ''timeStamp'' pv) as_structure of
        None \<Rightarrow> True
      | Some t \<Rightarrow> Option.bind (getSubField ''secondsPastEpoch'' t) as_long \<noteq> None
                \<and> Option.bind (getSubField ''nanoseconds'' t) as_int \<noteq> None)"

definition enum_ok :: "(pvfield \<Rightarrow> bool) \<Rightarrow> pvfield \<Rightarrow> bool" where
  "enum_ok isNTEnum pv \<longleftrightarrow> (isNTEnum pv \<longrightarrow>
     (case Option.bind (getSubField ''value'' pv) as_structure of
        None \<Rightarrow> True
      | Some e \<Rightarrow> Option.bind (getSubField ''index'' e) as_scalar \<noteq> None))"

lemma makeValue_returns:
  "enum_ok isNTEnum pv \<Longrightarrow> \<exists>v st'. makeValue isNTEnum (Some pv) opts st = (Inr v, st')"
  by (auto simp: makeValue_def enum_ok_def makeValueScalar_run makeValueArray_def prog_defs
      split: option.splits pvfield.splits ScalarType.splits)

lemma getAlarmStatus_returns: "alarm_ok pv \<Longrightarrow> \<exists>i. getAlarmStatus A pv = Inr i"
  by (auto simp: alarm_ok_def getAlarmStatus_message) (simp add: getAlarmStatus_def)

text \<open>The severity and the time stamp that such a structure means.\<close>

definition severity_of :: "SeveritySchema \<Rightarrow> pvfield \<Rightarrow> nat" where
  "severity_of V pv = (case alarm_severity pv of
     None \<Rightarrow> Sev_NO_ALARM V | Some sv \<Rightarrow> severity_spec V (sint sv))"

definition timestamp_of :: "pvfield \<Rightarrow> u64 option" where
  "timestamp_of pv =
     Option.bind (Option.bind (getSubField ''timeStamp'' pv) as_structure) (\<lambda>t.
     Option.bind (Option.bind (getSubField ''secondsPastEpoch'' t) as_long) (\<lambda>sec.
     Option.bind (Option.bind (getSubField ''nanoseconds'' t) as_int) (\<lambda>nanos.
     Some (f142_timestamp sec nanos))))"

lemma getAlarmSeverity_returns:
  assumes "alarm_ok pv" "severity_map_ok V m"
  shows "\<exists>m'. getAlarmSeverity V pv m = (Inr (severity_of V pv), m') \<and> severity_map_ok V m'"
proof (cases "alarm_severity pv")
  case None
  with assms(1) have "getSubField ''alarm'' pv = None" by (simp add: alarm_ok_def)
  with None assms(2) show ?thesis
    by (simp add: getAlarmSeverity_def severity_of_def prog_defs)
next
  case (Some sv)
  then have "getSubField ''alarm'' pv \<noteq> None" by (auto simp: alarm_severity_def bind_eq_Some_conv)
  with Some show ?thesis
    using getAlarmSeverity_ok [OF assms(2), of pv sv] by (auto simp: severity_of_def)
qed

lemma read_alarm_returns:
  assumes "changed \<longrightarrow> alarm_ok pv" "severity_map_ok V (SeverityMap s)"
  shows "\<exists>i s'. read_alarm A V changed pv s =
       (Inr (if changed then (Some i, Some (severity_of V pv)) else (None, None)), s')
     \<and> (changed \<longrightarrow> getAlarmStatus A pv = Inr i)
     \<and> ConvStats s' = ConvStats s \<and> severity_map_ok V (SeverityMap s')"
proof (cases changed)
  case True
  then obtain i m' where "getAlarmStatus A pv = Inr i"
      and "getAlarmSeverity V pv (SeverityMap s) = (Inr (severity_of V pv), m')" "severity_map_ok V m'"
    using assms getAlarmStatus_returns getAlarmSeverity_returns by meson
  with True show ?thesis by (simp add: read_alarm_def on_severities_def prog_defs)
next
  case False
  with assms show ?thesis by (simp add: read_alarm_def prog_defs)
qed

lemma read_timestamp_returns:
  "timestamp_ok pv \<Longrightarrow> \<exists>s'. read_timestamp pv s = (Inr (timestamp_of pv), s')
     \<and> SeverityMap s' = SeverityMap s"
  by (auto simp: read_timestamp_run timestamp_of_def timestamp_ok_def
      simp del: bind_assoc split: option.splits)

lemma f142_create_returns:
  assumes "epics_pvstr u = Some pv" "enum_ok isNTEnum pv" "timestamp_ok pv"
      and "AlarmStatusChanged u \<longrightarrow> alarm_ok pv" "severity_map_ok V (SeverityMap s)"
  shows "\<exists>v i s'. f142_create isNTEnum A V u s =
      (Inr \<lparr>table = \<lparr>source_name = channel u, value_type = Type v, value = Offset v,
              status = (if AlarmStatusChanged u then Some i else None),
              severity = (if AlarmStatusChanged u then Some (severity_of V pv) else None),
              timestamp = timestamp_of pv\<rparr>,
            Key = channel u\<rparr>, s')
    \<and> fst (makeValue isNTEnum (Some pv) True (ConvStats s)) = Inr v
    \<and> (AlarmStatusChanged u \<longrightarrow> getAlarmStatus A pv = Inr i)
    \<and> severity_map_ok V (SeverityMap s')"
proof -
  obtain v st where v: "makeValue isNTEnum (Some pv) True (ConvStats s) = (Inr v, st)"
    using makeValue_returns [OF assms(2)] by blast
  define s1 where "s1 = s\<lparr>ConvStats := st\<rparr>"
  obtain i s2 where a: "read_alarm A V (AlarmStatusChanged u) pv s1 =
       (Inr (if AlarmStatusChanged u then (Some i, Some (severity_of V pv)) else (None, None)), s2)"
      "AlarmStatusChanged u \<longrightarrow> getAlarmStatus A pv = Inr i" "severity_map_ok V (SeverityMap s2)"
    using read_alarm_returns [OF assms(4), of V s1 A] assms(5) by (auto simp: s1_def)
  obtain s3 where t: "read_timestamp pv s2 = (Inr (timestamp_of pv), s3)"
      "SeverityMap s3 = SeverityMap s2"
    using read_timestamp_returns [OF assms(3)] by blast
  have "on_stats (makeValue isNTEnum (Some pv) True) s = (Inr v, s1)"
    by (simp add: on_stats_def v s1_def)
  then show ?thesis
    using assms(1) a t v by (auto simp: f142_create_def bnd_def of_res_def ret_def)
qed



end
