(* ===== verification/Tdc_Time.thy ===== *)
theory Tdc_Time
  imports Pv_Data
begin

text \<open>
  \<open>schemas/tdc_time\<close>: the converter of chopper time stamps. An array of 32 bit integers holds
  seconds and nanoseconds in turn; each pair becomes one 64 bit time stamp. Parameter:
  \<open>isNTScalarArray\<close>, which says for which structures \<open>NTScalarArray::wrap\<close> gives a non-null
  wrapper. The state is the function-static \<open>SequenceNumber\<close>.
\<close>

record timestamp_table =
  tdc_name :: string
  timestamps :: "u64 list"
  sequence_counter :: u64

definition generateFlatbufferFromData ::
  "string \<Rightarrow> u64 list \<Rightarrow> (u64, timestamp_table FlatbufferMessage) prog" where
  "generateFlatbufferFromData Name Timestamps =
     bnd (get_st id) (\<lambda>SequenceNumber.
     thn (upd_st (\<lambda>n. n + 1))
     (ret \<lparr>table = \<lparr>tdc_name = Name, timestamps = Timestamps, sequence_counter = SequenceNumber\<rparr>,
           Key = []\<rparr>))"

text \<open>\<open>pvArrPtr[i] * 1000000000L + pvArrPtr[i + 1]\<close>: signed 64 bit, stored as \<open>uint64_t\<close>.\<close>

definition tdc_timestamp :: "u32 \<Rightarrow> u32 \<Rightarrow> u64" where
  "tdc_timestamp sec nanos = scast sec * 1000000000 + scast nanos"

function CalcTimestamps_loop :: "u32 list \<Rightarrow> nat \<Rightarrow> nat \<Rightarrow> u64 list \<Rightarrow> u64 list" where
  "CalcTimestamps_loop pvArrPtr NrOfElements i RetVector =
     (if i < NrOfElements
      then CalcTimestamps_loop pvArrPtr NrOfElements (i + 2)
             (RetVector @ [tdc_timestamp (pvArrPtr ! i) (pvArrPtr ! (i + 1))])
      else RetVector)"
  by pat_completeness auto
termination
  by (relation "measure (\<lambda>(xs, n, i, acc). n - i)") auto

declare CalcTimestamps_loop.simps [simp del]

fun as_int_array :: "pvfield \<Rightarrow> u32 list option" where
  "as_int_array (PVScalarArray (AInt xs)) = Some xs"
| "as_int_array _ = None"

fun as_scalar_array :: "pvfield \<Rightarrow> scalar_array option" where
  "as_scalar_array (PVScalarArray a) = Some a"
| "as_scalar_array _ = None"

fun getID :: "pvfield \<Rightarrow> string" where
  "getID (PVStructure i _) = i"
| "getID _ = []"

definition CalcTimestamps :: "pvfield option \<Rightarrow> u64 list res" where
  "CalcTimestamps scalarArray =
     bind_res (deref (Option.bind scalarArray as_int_array)) (\<lambda>pvValues.
     if length pvValues mod 2 \<noteq> 0
     then Inl (Throw (RuntimeError ''Size of pvAccess array is not a multiple of two.''))
     else Inr (CalcTimestamps_loop pvValues (length pvValues) 0 []))"

definition ExpectedStructType :: string where
  "ExpectedStructType = ''epics:nt/NTScalarArray:1.0''"

definition tdc_create ::
  "(pvfield \<Rightarrow> bool) \<Rightarrow> EpicsPVUpdate \<Rightarrow> (u64, timestamp_table FlatbufferMessage option) prog" where
  "tdc_create isNTScalarArray PvData =
     bnd (of_res (deref (epics_pvstr PvData))) (\<lambda>pvUpdateStruct.
     if getID pvUpdateStruct \<noteq> ExpectedStructType then ret None else
     bnd (of_res (deref (if isNTScalarArray pvUpdateStruct then Some pvUpdateStruct else None)))
       (\<lambda>ntScalarData.
     bnd (of_res (deref (Option.bind (getSubField ''value'' ntScalarData) as_scalar_array)))
       (\<lambda>scalarArrPtr.
     if getElementType scalarArrPtr \<noteq> pvInt then ret None else
     try_catch
       (bnd (of_res (CalcTimestamps (getSubField ''value'' ntScalarData))) (\<lambda>NewTimestamps.
        if NewTimestamps = [] then ret None
        else bnd (generateFlatbufferFromData (channel PvData) NewTimestamps) (\<lambda>m. ret (Some m))))
       is_runtime_error (\<lambda>_. ret None))))"

section \<open>Time stamps\<close>

lemma sint_u32_range: "- 2147483648 \<le> sint (x::u32)" "sint (x::u32) \<le> 2147483647"
  using sint_range_size [of x] by (simp_all add: word_size)

lemma tdc_timestamp_exact: "sint (tdc_timestamp sec nanos) = sint sec * 1000000000 + sint nanos"
proof -
  have "tdc_timestamp sec nanos = word_of_int (sint sec * 1000000000 + sint nanos)"
    by (simp add: tdc_timestamp_def)
  then have "sint (tdc_timestamp sec nanos) = signed_take_bit 63 (sint sec * 1000000000 + sint nanos)"
    by (simp only: signed_of_int) simp
  moreover have "- (2 ^ 63) \<le> sint sec * 1000000000 + sint nanos"
      "sint sec * 1000000000 + sint nanos < 2 ^ 63"
    using sint_u32_range [of sec] sint_u32_range [of nanos] by simp_all
  ultimately show ?thesis by (simp only: signed_take_bit_int_eq_self)
qed

text \<open>The specification of the conversion: one time stamp per pair.\<close>

definition pair_timestamps :: "u32 list \<Rightarrow> u64 list" where
  "pair_timestamps xs = map (\<lambda>j. tdc_timestamp (xs ! (2 * j)) (xs ! (2 * j + 1))) [0..<length xs div 2]"

lemma CalcTimestamps_loop_run:
  assumes "length xs = 2 * n" "k \<le> n"
  shows "CalcTimestamps_loop xs (length xs) (2 * k) acc =
     acc @ map (\<lambda>j. tdc_timestamp (xs ! (2 * j)) (xs ! (2 * j + 1))) [k..<n]"
  using assms(2)
proof (induction "n - k" arbitrary: k acc)
  case 0
  with assms(1) show ?case by (simp add: CalcTimestamps_loop.simps)
next
  case (Suc d)
  then have "k < n" and IH: "CalcTimestamps_loop xs (length xs) (2 * Suc k) acc' =
      acc' @ map (\<lambda>j. tdc_timestamp (xs ! (2 * j)) (xs ! (2 * j + 1))) [Suc k..<n]" for acc'
    using Suc.hyps(1) [of "Suc k" acc'] by simp_all
  then show ?case
    using assms(1) IH by (simp add: CalcTimestamps_loop.simps [of xs _ "2 * k"] upt_conv_Cons)
qed

lemma CalcTimestamps_result:
  "CalcTimestamps (Some (PVScalarArray (AInt xs))) =
     (if even (length xs) then Inr (pair_timestamps xs)
      else Inl (Throw (RuntimeError ''Size of pvAccess array is not a multiple of two.'')))"
  using CalcTimestamps_loop_run [of xs "length xs div 2" 0 "[]"]
  by (auto simp: CalcTimestamps_def pair_timestamps_def even_iff_mod_2_eq_zero)

section \<open>Messages\<close>

text \<open>
  The arrays of time stamps the update holds, \<open>None\<close> when there is nothing to send.
\<close>

definition tdc_payload :: "EpicsPVUpdate \<Rightarrow> u64 list option" where
  "tdc_payload u = (case epics_pvstr u of
     Some pv \<Rightarrow>
       (if getID pv = ExpectedStructType then
          (case Option.bind (getSubField ''value'' pv) as_int_array of
             Some xs \<Rightarrow> if even (length xs) \<and> xs \<noteq> [] then Some (pair_timestamps xs) else None
           | None \<Rightarrow> None)
        else None)
   | None \<Rightarrow> None)"

text \<open>
  An update that the converter can inspect: a structure, and, when it has the expected identifier,
  one that can be wrapped and has an array as its value.
\<close>

definition tdc_update_ok :: "(pvfield \<Rightarrow> bool) \<Rightarrow> EpicsPVUpdate \<Rightarrow> bool" where
  "tdc_update_ok isNTScalarArray u = (case epics_pvstr u of
     Some pv \<Rightarrow> getID pv = ExpectedStructType \<longrightarrow>
       isNTScalarArray pv \<and> Option.bind (getSubField ''value'' pv) as_scalar_array \<noteq> None
   | None \<Rightarrow> False)"

lemma as_int_array_scalar:
  "as_scalar_array f = Some a \<Longrightarrow>
   f = PVScalarArray a \<and> as_int_array f = (case a of AInt xs \<Rightarrow> Some xs | _ \<Rightarrow> None)"
  by (cases f; cases a) auto

lemma pair_timestamps_Nil [simp]: "even (length xs) \<Longrightarrow> pair_timestamps xs = [] \<longleftrightarrow> xs = []"
  by (cases xs; cases "tl xs") (auto simp: pair_timestamps_def)

lemma tdc_create_run:
  assumes "tdc_update_ok N u"
  shows "tdc_create N u seq = (case tdc_payload u of
     None \<Rightarrow> (Inr None, seq)
   | Some ts \<Rightarrow> (Inr (Some \<lparr>table = \<lparr>tdc_name = channel u, timestamps = ts, sequence_counter = seq\<rparr>,
                             Key = []\<rparr>), seq + 1))"
proof -
  obtain pv where pv: "epics_pvstr u = Some pv"
    using assms by (auto simp: tdc_update_ok_def split: option.splits)
  show ?thesis
  proof (cases "getID pv = ExpectedStructType")
    case False
    with pv show ?thesis by (simp add: tdc_create_def tdc_payload_def prog_defs)
  next
    case True
    with assms pv obtain f a where f: "getSubField ''value'' pv = Some f" "as_scalar_array f = Some a"
        and w: "N pv"
      by (auto simp: tdc_update_ok_def bind_eq_Some_conv)
    with True pv show ?thesis
      using as_int_array_scalar [OF f(2)]
      by (cases a)
        (auto simp: tdc_create_def tdc_payload_def generateFlatbufferFromData_def prog_defs
          CalcTimestamps_result)
  qed
qed



lemma tdc_run_payloads:
  assumes "\<forall>u \<in> set us. tdc_update_ok N u"
  shows "\<exists>ms. map_prog (tdc_create N) us seq =
       (Inr ms, seq + of_nat (length (filter (\<lambda>m. m \<noteq> None) ms)))
     \<and> map (\<lambda>m. map_option (\<lambda>m. timestamps (table m)) m) ms = map tdc_payload us
     \<and> map (\<lambda>m. sequence_counter (table m)) (map the (filter (\<lambda>m. m \<noteq> None) ms)) =
         map (\<lambda>j. seq + of_nat j) [0..<length (filter (\<lambda>m. m \<noteq> None) ms)]"
  using assms
proof (induction us arbitrary: seq)
  case Nil
  then show ?case by (simp add: prog_defs)
next
  case (Cons u us)
  let ?n = "seq + (if tdc_payload u = None then 0 else 1)"
  obtain ms where ms: "map_prog (tdc_create N) us ?n =
       (Inr ms, ?n + of_nat (length (filter (\<lambda>m. m \<noteq> None) ms)))"
     "map (\<lambda>m. map_option (\<lambda>m. timestamps (table m)) m) ms = map tdc_payload us"
     "map (\<lambda>m. sequence_counter (table m)) (map the (filter (\<lambda>m. m \<noteq> None) ms)) =
        map (\<lambda>j. ?n + of_nat j) [0..<length (filter (\<lambda>m. m \<noteq> None) ms)]"
    using Cons.IH [of ?n] Cons.prems by auto
  have u: "tdc_update_ok N u" using Cons.prems by simp
  show ?case
  proof (cases "tdc_payload u")
    case None
    with ms show ?thesis
      by (intro exI [of _ "None # ms"]) (simp add: tdc_create_run [OF u] prog_defs)
  next
    case (Some ts)
    let ?m = "\<lparr>table = \<lparr>tdc_name = channel u, timestamps = ts, sequence_counter = seq\<rparr>, Key = []\<rparr>"
    have up: "[0..<Suc k] = 0 # map Suc [0..<k]" for k
      by (simp add: upt_conv_Cons map_Suc_upt del: upt_Suc)
    from Some ms show ?thesis
      by (intro exI [of _ "Some ?m # ms"])
         (simp add: tdc_create_run [OF u] prog_defs up algebra_simps comp_def del: upt_Suc)
  qed
qed



end
