(* ===== verification/Kafka_Producer.thy ===== *)
theory Kafka_Producer
  imports Fwd_Prelude "HOL-Library.Multiset"
begin

text \<open>
  \<open>KafkaW\<close>: the producer side. \<open>librdkafka\<close> is a parameter, the record \<open>rdkafka\<close> of the calls the
  sources make; its documented behaviour is the locale \<open>rd_client\<close>: a message that \<open>produce\<close>
  accepted is reported exactly once by a later \<open>poll\<close>, and \<open>outq_len\<close> counts the messages not yet
  reported. The state of a producer has the message objects its topics have created and not yet
  deleted, so that a leak is an object that nothing will delete, and a second \<open>delete\<close> a crash.
\<close>

section \<open>Data\<close>

datatype ErrorCode = ERR_NO_ERROR | ERR__QUEUE_FULL | ERR_MSG_SIZE_TOO_LARGE | ERR_OTHER int

record ProducerMessage =
  Data :: "u8 list"
  Size :: u32
  MsgKey :: string

record ProducerStats =
  produced :: u64
  produce_fail :: u32
  local_queue_full :: u32
  produce_cb :: u64
  produce_cb_fail :: u64
  poll_served :: u64
  msg_too_large :: u64
  produced_bytes :: u64
  out_queue :: u32

definition ProducerStats_default :: ProducerStats where
  "ProducerStats_default = \<lparr>produced = 0, produce_fail = 0, local_queue_full = 0, produce_cb = 0,
     produce_cb_fail = 0, poll_served = 0, msg_too_large = 0, produced_bytes = 0, out_queue = 0\<rparr>"

record BrokerSettings =
  Address :: string
  PollTimeoutMS :: int
  KafkaConfiguration :: "(string \<times> string) list"

text \<open>The initial \<open>std::map\<close>, in the order of its keys.\<close>

definition BrokerSettings_default :: BrokerSettings where
  "BrokerSettings_default = \<lparr>Address = [], PollTimeoutMS = 100, KafkaConfiguration =
     [(''api.version.request'', ''true''),
      (''batch.num.messages'', ''100000''),
      (''coordinator.query.interval.ms'', ''2000''),
      (''fetch.max.bytes'', ''52428800''),
      (''fetch.message.max.bytes'', ''24117248''),
      (''heartbeat.interval.ms'', ''500''),
      (''message.max.bytes'', ''24117248''),
      (''metadata.request.timeout.ms'', ''2000''),
      (''queue.buffering.max.kbytes'', ''819200''),
      (''queue.buffering.max.messages'', ''100000''),
      (''queue.buffering.max.ms'', ''50''),
      (''receive.message.max.bytes'', ''100000000''),
      (''socket.timeout.ms'', ''2000''),
      (''statistics.interval.ms'', ''600000'')]\<rparr>"

text \<open>
  The calls of \<open>librdkafka\<close>. A configuration is the list of settings made; \<open>rd_produce\<close> takes
  topic, payload, key and the opaque pointer; \<open>rd_poll\<close> gives the delivery reports it hands to the
  callback, with their errors, and the number of events served.
\<close>

record 'k rdkafka =
  rd_conf_set :: "string \<Rightarrow> string \<Rightarrow> bool"
  rd_create :: "(string \<times> string) list \<Rightarrow> 'k option"
  rd_create_topic :: "'k \<Rightarrow> string \<Rightarrow> bool"
  rd_produce :: "string \<Rightarrow> u8 list \<Rightarrow> string option \<Rightarrow> nat \<Rightarrow> 'k \<Rightarrow> ErrorCode \<times> 'k"
  rd_poll :: "int \<Rightarrow> 'k \<Rightarrow> (nat \<times> ErrorCode) list \<times> nat \<times> 'k"
  rd_outq_len :: "'k \<Rightarrow> nat"

record 'k Producer =
  Stats :: ProducerStats
  TotalMessagesProduced :: u64
  ProducerBrokerSettings :: BrokerSettings
  ProducerID :: nat
  ProducerPtr :: 'k
  Messages :: "nat \<rightharpoonup> ProducerMessage"
  NextMessage :: nat

section \<open>Settings\<close>

fun apply_items :: "'k rdkafka \<Rightarrow> (string \<times> string) list \<Rightarrow> (string \<times> string) list res" where
  "apply_items K [] = Inr []"
| "apply_items K ((k, v) # items) =
     (if rd_conf_set K k v then bind_res (apply_items K items) (\<lambda>c. Inr ((k, v) # c))
      else Inl (Throw (RuntimeError (''Failure setting config: '' @ k @ '' = '' @ v))))"

definition apply_settings :: "'k rdkafka \<Rightarrow> BrokerSettings \<Rightarrow> (string \<times> string) list res" where
  "apply_settings K Settings = apply_items K (KafkaConfiguration Settings)"

section \<open>The producer\<close>

text \<open>\<open>Producer::Producer\<close>; the state is \<open>ProducerInstanceCount\<close>.\<close>

definition new_Producer :: "'k rdkafka \<Rightarrow> BrokerSettings \<Rightarrow> (nat, 'k Producer) prog" where
  "new_Producer K Settings =
     bnd (get_st id) (\<lambda>i.
     thn (upd_st Suc)
     (bnd (try_catch (of_res (apply_settings K Settings)) is_runtime_error
            (\<lambda>_. raise (RuntimeError ''Cannot create kafka handle due to configuration error'')))
       (\<lambda>conf. case rd_create K (conf @ [(''metadata.broker.list'', Address Settings)]) of
          None \<Rightarrow> raise (RuntimeError ''can not create Kafka handle'')
        | Some k \<Rightarrow> ret \<lparr>Stats = ProducerStats_default, TotalMessagesProduced = 0,
            ProducerBrokerSettings = Settings, ProducerID = i, ProducerPtr = k,
            Messages = Map.empty, NextMessage = 0\<rparr>)))"

text \<open>\<open>delete\<close> of a message object.\<close>

definition delete_message :: "nat \<Rightarrow> ('k Producer, unit) prog" where
  "delete_message m =
     bnd (get_st (\<lambda>p. Messages p m)) (\<lambda>obj. case obj of
       None \<Rightarrow> fail Crash
     | Some _ \<Rightarrow> upd_st (Messages_update (\<lambda>h. h(m := None))))"

definition new_message :: "ProducerMessage \<Rightarrow> ('k Producer, nat) prog" where
  "new_message obj =
     bnd (get_st NextMessage) (\<lambda>m.
     thn (upd_st (\<lambda>p. p\<lparr>Messages := (Messages p)(m \<mapsto> obj), NextMessage := Suc m\<rparr>)) (ret m))"

text \<open>\<open>ProducerDeliveryCb::dr_cb\<close>.\<close>

definition dr_cb :: "nat \<times> ErrorCode \<Rightarrow> ('k Producer, unit) prog" where
  "dr_cb report =
     thn (if snd report \<noteq> ERR_NO_ERROR
          then upd_st (Stats_update (produce_cb_fail_update (\<lambda>n. n + 1)))
          else upd_st (Stats_update (produce_cb_update (\<lambda>n. n + 1))))
         (delete_message (fst report))"

text \<open>\<open>ProducerPtr->poll(TimeoutMS)\<close>, with the callbacks it makes.\<close>

definition handle_poll :: "'k rdkafka \<Rightarrow> int \<Rightarrow> ('k Producer, nat) prog" where
  "handle_poll K TimeoutMS =
     bnd (get_st ProducerPtr) (\<lambda>k. case rd_poll K TimeoutMS k of (reports, events, k') \<Rightarrow>
     thn (upd_st (\<lambda>p. p\<lparr>ProducerPtr := k'\<rparr>))
     (thn (for_each dr_cb reports) (ret events)))"

definition outputQueueLength :: "'k rdkafka \<Rightarrow> 'k Producer \<Rightarrow> nat" where
  "outputQueueLength K p = rd_outq_len K (ProducerPtr p)"

definition producer_poll :: "'k rdkafka \<Rightarrow> ('k Producer, unit) prog" where
  "producer_poll K =
     bnd (handle_poll K 0) (\<lambda>EventsHandled.
     thn (upd_st (Stats_update (poll_served_update (\<lambda>n. n + of_nat EventsHandled))))
     (upd_st (\<lambda>p. p\<lparr>Stats := (Stats p)\<lparr>out_queue := of_nat (outputQueueLength K p)\<rparr>\<rparr>)))"

definition producer_produce ::
  "'k rdkafka \<Rightarrow> string \<Rightarrow> u8 list \<Rightarrow> string option \<Rightarrow> nat \<Rightarrow> ('k Producer, ErrorCode) prog" where
  "producer_produce K Topic Payload key OpaqueMessage =
     thn (handle_poll K 0)
     (bnd (get_st (\<lambda>p. rd_produce K Topic Payload key OpaqueMessage (ProducerPtr p))) (\<lambda>(c, k').
      thn (upd_st (\<lambda>p. p\<lparr>ProducerPtr := k'\<rparr>)) (ret c)))"

text \<open>The loop of \<open>Producer::~Producer\<close>: at most 80 polls, until the queue is empty.\<close>

fun drain_loop :: "'k rdkafka \<Rightarrow> nat \<Rightarrow> ('k Producer, unit) prog" where
  "drain_loop K 0 = ret ()"
| "drain_loop K (Suc iterations) =
     bnd (get_st (outputQueueLength K)) (\<lambda>n.
     if n = 0 then ret () else thn (handle_poll K 100) (drain_loop K iterations))"

definition delete_Producer :: "'k rdkafka \<Rightarrow> ('k Producer, unit) prog" where
  "delete_Producer K = drain_loop K 80"

section \<open>Topics\<close>

text \<open>
  \<open>ProducerTopic::produce(std::unique_ptr<ProducerMessage> &)\<close>: on success the pointer is released,
  otherwise the caller still owns the message. \<open>Msg->Data\<close> with \<open>Msg->Size\<close> is the payload.
\<close>

definition topic_produce :: "'k rdkafka \<Rightarrow> string \<Rightarrow> nat \<Rightarrow> ('k Producer, int) prog" where
  "topic_produce K Name m =
     bnd (get_st (\<lambda>p. Messages p m)) (\<lambda>obj.
     bnd (case obj of None \<Rightarrow> fail Crash | Some Msg \<Rightarrow> ret Msg) (\<lambda>Msg.
     bnd (producer_produce K Name (take (unat (Size Msg)) (Data Msg))
            (if MsgKey Msg \<noteq> [] then Some (MsgKey Msg) else None) m) (\<lambda>c.
     case c of
       ERR_NO_ERROR \<Rightarrow>
         thn (upd_st (Stats_update (produced_update (\<lambda>n. n + 1))))
         (thn (upd_st (Stats_update (produced_bytes_update (\<lambda>n. n + ucast (Size Msg)))))
         (thn (upd_st (TotalMessagesProduced_update (\<lambda>n. n + 1))) (ret 0)))
     | ERR__QUEUE_FULL \<Rightarrow>
         thn (upd_st (Stats_update (local_queue_full_update (\<lambda>n. n + 1)))) (ret 1)
     | ERR_MSG_SIZE_TOO_LARGE \<Rightarrow>
         thn (upd_st (Stats_update (msg_too_large_update (\<lambda>n. n + 1)))) (ret 1)
     | ERR_OTHER _ \<Rightarrow>
         thn (upd_st (Stats_update (produce_fail_update (\<lambda>n. n + 1)))) (ret 1))))"

text \<open>The end of the scope of the \<open>unique_ptr\<close>: the message is deleted unless it was released.\<close>

definition produce_owned :: "'k rdkafka \<Rightarrow> string \<Rightarrow> ProducerMessage \<Rightarrow> ('k Producer, int) prog" where
  "produce_owned K Name obj =
     bnd (new_message obj) (\<lambda>m.
     bnd (topic_produce K Name m) (\<lambda>x.
     if x = 0 then ret x else thn (delete_message m) (ret x)))"

text \<open>\<open>Msg_\<close> with \<open>finalize\<close>; the size is stored in 32 bits.\<close>

definition Msg_finalize :: "u8 list \<Rightarrow> string \<Rightarrow> ProducerMessage" where
  "Msg_finalize v key = \<lparr>Data = v, Size = of_nat (length v), MsgKey = key\<rparr>"

definition topic_produce_bytes :: "'k rdkafka \<Rightarrow> string \<Rightarrow> u8 list \<Rightarrow> ('k Producer, int) prog" where
  "topic_produce_bytes K Name MsgData = produce_owned K Name (Msg_finalize MsgData [])"

definition produceAndSetKey :: "'k rdkafka \<Rightarrow> string \<Rightarrow> u8 list \<Rightarrow> string \<Rightarrow> ('k Producer, int) prog" where
  "produceAndSetKey K Name MsgData key = produce_owned K Name (Msg_finalize MsgData key)"

section \<open>Settings do not change\<close>

lemma handle_poll_settings [keeps]:
  "keeps_inv (\<lambda>p. ProducerBrokerSettings p = S) (handle_poll K ms)"
  unfolding handle_poll_def dr_cb_def delete_message_def
  by (auto intro!: keeps keeps_upd)

lemma producer_poll_settings: "keeps_inv (\<lambda>p. ProducerBrokerSettings p = S) (producer_poll K)"
  unfolding producer_poll_def by (auto intro!: keeps keeps_upd)

lemma delete_Producer_settings: "keeps_inv (\<lambda>p. ProducerBrokerSettings p = S) (delete_Producer K)"
proof -
  have "keeps_inv (\<lambda>p. ProducerBrokerSettings p = S) (drain_loop K n)" for n
    by (induction n) (auto intro!: keeps)
  then show ?thesis by (simp add: delete_Producer_def)
qed

lemma topic_produce_settings [keeps]:
  "keeps_inv (\<lambda>p. ProducerBrokerSettings p = S) (topic_produce K t m)"
  unfolding topic_produce_def producer_produce_def
  by (auto intro!: keeps keeps_upd split: ErrorCode.split)

lemma produce_owned_settings:
  "keeps_inv (\<lambda>p. ProducerBrokerSettings p = S) (produce_owned K t obj)"
  unfolding produce_owned_def new_message_def delete_message_def
  by (auto intro!: keeps keeps_upd)

section \<open>The contract of the client library\<close>

locale rd_client =
  fixes K :: "'k rdkafka"
    and pending :: "'k \<Rightarrow> nat multiset"
  assumes produce_pending: "rd_produce K t d key m k = (c, k') \<Longrightarrow>
      pending k' = (if c = ERR_NO_ERROR then add_mset m (pending k) else pending k)"
    and poll_pending: "rd_poll K ms k = (reports, n, k') \<Longrightarrow>
      pending k = mset (map fst reports) + pending k'"
    and create_pending: "rd_create K conf = Some k \<Longrightarrow> pending k = {#}"
    and outq_len_pending: "rd_outq_len K k = size (pending k)"

text \<open>
  The invariant of a producer: the message objects that exist are those that the library still has
  to report and those in \<open>own\<close>, which a \<open>unique_ptr\<close> holds; the counters agree with them (in the
  arithmetic of 64 bit counters), \<open>n\<close> messages being reported but not yet counted.
\<close>

definition accounts :: "('k \<Rightarrow> nat multiset) \<Rightarrow> nat multiset \<Rightarrow> nat \<Rightarrow> 'k Producer \<Rightarrow> bool" where
  "accounts pending own n p \<longleftrightarrow>
     finite (dom (Messages p)) \<and> mset_set (dom (Messages p)) = pending (ProducerPtr p) + own
     \<and> (\<forall>m \<in> dom (Messages p). m < NextMessage p)
     \<and> produced (Stats p) = produce_cb (Stats p) + produce_cb_fail (Stats p)
                             + of_nat (size (pending (ProducerPtr p)) + n)
     \<and> TotalMessagesProduced p = produced (Stats p)"

text \<open>Between two calls nothing is held and every report has been counted.\<close>

definition producer_ok :: "('k \<Rightarrow> nat multiset) \<Rightarrow> 'k Producer \<Rightarrow> bool" where
  "producer_ok pending p \<longleftrightarrow> accounts pending {#} 0 p"

text \<open>The counters of an accepted message.\<close>

definition count_produced :: "'k Producer \<Rightarrow> 'k Producer" where
  "count_produced p = p\<lparr>Stats := (Stats p)\<lparr>produced := produced (Stats p) + 1\<rparr>,
     TotalMessagesProduced := TotalMessagesProduced p + 1\<rparr>"

lemma accounts_alive: "accounts pending own n p \<Longrightarrow> m \<in># own \<Longrightarrow> Messages p m \<noteq> None"
  by (metis accounts_def domIff elem_mset_set mset_subset_eq_add_right mset_subset_eqD)

lemma accounts_new:
  assumes "accounts pending own n p"
  shows "\<exists>p'. new_message obj p = (Inr (NextMessage p), p')
     \<and> accounts pending (add_mset (NextMessage p) own) n p'
     \<and> Messages p' (NextMessage p) = Some obj \<and> ProducerPtr p' = ProducerPtr p \<and> Stats p' = Stats p"
proof -
  have "NextMessage p \<notin> dom (Messages p)" using assms by (auto simp: accounts_def)
  then show ?thesis
    using assms by (auto simp: new_message_def accounts_def prog_defs less_Suc_eq)
qed

lemma accounts_delete:
  assumes "accounts pending (add_mset m own) n p"
  shows "\<exists>p'. delete_message m p = (Inr (), p') \<and> accounts pending own n p'
     \<and> Messages p' = (Messages p)(m := None) \<and> ProducerPtr p' = ProducerPtr p \<and> Stats p' = Stats p"
proof -
  obtain obj where obj: "Messages p m = Some obj"
    using accounts_alive [OF assms] by auto
  let ?p = "p\<lparr>Messages := (Messages p)(m := None)\<rparr>"
  have "mset_set (dom (Messages p)) = add_mset m (mset_set (dom (Messages p) - {m}))"
    using assms obj by (intro mset_set.remove) (auto simp: accounts_def)
  then have "accounts pending own n ?p"
    using assms by (auto simp: accounts_def)
  moreover have "delete_message m p = (Inr (), ?p)"
    using obj by (simp add: delete_message_def prog_defs)
  ultimately show ?thesis by simp
qed

lemma accounts_distinct:
  assumes "accounts pending (add_mset m own) n p" "m' \<in># own" shows "m' \<noteq> m"
proof
  assume "m' = m"
  then have "2 \<le> count (mset_set (dom (Messages p))) m"
    using assms by (simp add: accounts_def count_greater_zero_iff [symmetric] del: count_greater_zero_iff)
  then show False by (simp add: count_mset_set' split: if_splits)
qed

lemma dr_cb_accounts:
  assumes "accounts pending (add_mset (fst r) own) (Suc n) p"
  shows "\<exists>p'. dr_cb r p = (Inr (), p') \<and> accounts pending own n p'
     \<and> ProducerPtr p' = ProducerPtr p \<and> Messages p' = (Messages p)(fst r := None)"
proof -
  define p1 where "p1 = (if snd r \<noteq> ERR_NO_ERROR
     then Stats_update (produce_cb_fail_update (\<lambda>n. n + 1)) p
     else Stats_update (produce_cb_update (\<lambda>n. n + 1)) p)"
  have "accounts pending (add_mset (fst r) own) n p1"
    using assms by (auto simp: accounts_def p1_def algebra_simps)
  from accounts_delete [OF this] obtain p' where
    "delete_message (fst r) p1 = (Inr (), p')" "accounts pending own n p'"
    "ProducerPtr p' = ProducerPtr p" "Messages p' = (Messages p)(fst r := None)"
    by (auto simp: p1_def)
  then show ?thesis by (auto simp: dr_cb_def prog_defs p1_def)
qed

lemma dr_cb_all_accounts:
  assumes "accounts pending (mset (map fst rs) + own) (length rs) p"
  shows "\<exists>p'. for_each dr_cb rs p = (Inr (), p') \<and> accounts pending own 0 p'
     \<and> ProducerPtr p' = ProducerPtr p \<and> (\<forall>m. m \<in># own \<longrightarrow> Messages p' m = Messages p m)"
  using assms
proof (induction rs arbitrary: p)
  case Nil
  then show ?case by (simp add: prog_defs)
next
  case (Cons r rs)
  have r: "accounts pending (add_mset (fst r) (mset (map fst rs) + own)) (Suc (length rs)) p"
    using Cons.prems by simp
  from dr_cb_accounts [OF r] obtain p1 where p1: "dr_cb r p = (Inr (), p1)"
      "accounts pending (mset (map fst rs) + own) (length rs) p1" "ProducerPtr p1 = ProducerPtr p"
      "Messages p1 = (Messages p)(fst r := None)"
    by blast
  obtain p2 where p2: "for_each dr_cb rs p1 = (Inr (), p2)" "accounts pending own 0 p2"
      "ProducerPtr p2 = ProducerPtr p1" "\<forall>m. m \<in># own \<longrightarrow> Messages p2 m = Messages p1 m"
    using Cons.IH [OF p1(2)] by blast
  have "\<forall>m. m \<in># own \<longrightarrow> m \<noteq> fst r"
    using accounts_distinct [OF r] by auto
  with p1 p2 show ?case by (auto simp: run_thn)
qed

context rd_client
begin

lemma handle_poll_accounts:
  assumes "accounts pending own 0 p"
  shows "\<exists>n p'. handle_poll K ms p = (Inr n, p') \<and> accounts pending own 0 p'
     \<and> (\<forall>m. m \<in># own \<longrightarrow> Messages p' m = Messages p m)
     \<and> ProducerPtr p' = snd (snd (rd_poll K ms (ProducerPtr p)))"
proof -
  obtain rs n k' where poll: "rd_poll K ms (ProducerPtr p) = (rs, n, k')"
    by (metis prod_cases3)
  have pend: "pending (ProducerPtr p) = mset (map fst rs) + pending k'"
    by (rule poll_pending [OF poll])
  have "accounts pending (mset (map fst rs) + own) (length rs) (p\<lparr>ProducerPtr := k'\<rparr>)"
    using assms by (auto simp: accounts_def pend algebra_simps)
  from dr_cb_all_accounts [OF this] poll show ?thesis
    by (auto simp: handle_poll_def prog_defs)
qed

lemma producer_poll_accounts:
  assumes "accounts pending own 0 p"
  shows "\<exists>p'. producer_poll K p = (Inr (), p') \<and> accounts pending own 0 p'
     \<and> out_queue (Stats p') = of_nat (size (pending (ProducerPtr p')))"
proof -
  obtain n p1 where p1: "handle_poll K 0 p = (Inr n, p1)" "accounts pending own 0 p1"
    using handle_poll_accounts [OF assms] by blast
  then show ?thesis
    by (auto simp: producer_poll_def prog_defs outputQueueLength_def outq_len_pending accounts_def)
qed

lemma producer_produce_accounts:
  assumes "accounts pending (add_mset m own) 0 p"
  shows "\<exists>c p'. producer_produce K t d key m p = (Inr c, p')
     \<and> (if c = ERR_NO_ERROR then accounts pending own 0 (count_produced p')
        else accounts pending (add_mset m own) 0 p')"
proof -
  obtain n p1 where p1: "handle_poll K 0 p = (Inr n, p1)" "accounts pending (add_mset m own) 0 p1"
    using handle_poll_accounts [OF assms] by blast
  obtain c k' where prod: "rd_produce K t d key m (ProducerPtr p1) = (c, k')" by fastforce
  have "producer_produce K t d key m p = (Inr c, p1\<lparr>ProducerPtr := k'\<rparr>)"
    using p1 prod by (simp add: producer_produce_def prog_defs)
  moreover have "pending k' =
      (if c = ERR_NO_ERROR then add_mset m (pending (ProducerPtr p1)) else pending (ProducerPtr p1))"
    by (rule produce_pending [OF prod])
  ultimately show ?thesis
    using p1(2) by (auto simp: accounts_def count_produced_def)
qed

lemma topic_produce_accounts:
  assumes "accounts pending (add_mset m own) 0 p"
  shows "\<exists>x p'. topic_produce K t m p = (Inr x, p')
     \<and> (if x = 0 then accounts pending own 0 p' else accounts pending (add_mset m own) 0 p')"
proof -
  obtain Msg where Msg: "Messages p m = Some Msg" using accounts_alive [OF assms] by auto
  let ?d = "take (unat (Size Msg)) (Data Msg)"
  let ?key = "if MsgKey Msg \<noteq> [] then Some (MsgKey Msg) else None"
  obtain c p1 where p1: "producer_produce K t ?d ?key m p = (Inr c, p1)"
     and acc: "if c = ERR_NO_ERROR then accounts pending own 0 (count_produced p1)
               else accounts pending (add_mset m own) 0 p1"
    using producer_produce_accounts [OF assms] by metis
  show ?thesis
    using Msg p1 acc
    by (cases c) (simp_all add: topic_produce_def prog_defs accounts_def count_produced_def)
qed

lemma produce_owned_ok:
  assumes "producer_ok pending p"
  shows "\<exists>x p'. produce_owned K t obj p = (Inr x, p') \<and> producer_ok pending p'"
proof -
  let ?m = "NextMessage p"
  obtain p1 where p1: "new_message obj p = (Inr ?m, p1)" "accounts pending {#?m#} 0 p1"
    using assms accounts_new [of pending "{#}" 0 p obj] by (auto simp: producer_ok_def)
  obtain x p2 where p2: "topic_produce K t ?m p1 = (Inr x, p2)"
      "if x = 0 then accounts pending {#} 0 p2 else accounts pending {#?m#} 0 p2"
    using topic_produce_accounts [of ?m "{#}" p1 t] p1(2) by blast
  show ?thesis
  proof (cases "x = 0")
    case True
    with p1 p2 show ?thesis by (simp add: produce_owned_def producer_ok_def prog_defs)
  next
    case False
    then obtain p3 where "delete_message ?m p2 = (Inr (), p3)" "accounts pending {#} 0 p3"
      using p2(2) accounts_delete [of pending ?m "{#}" 0 p2] by auto
    with False p1 p2 show ?thesis by (simp add: produce_owned_def producer_ok_def prog_defs)
  qed
qed

lemma drain_loop_ok:
  "producer_ok pending p \<Longrightarrow>
   \<exists>p'. drain_loop K n p = (Inr (), p') \<and> producer_ok pending p'"
proof (induction n arbitrary: p)
  case 0
  then show ?case by (simp add: prog_defs)
next
  case (Suc n)
  show ?case
  proof (cases "outputQueueLength K p = 0")
    case True
    with Suc.prems show ?thesis by (simp add: prog_defs)
  next
    case False
    obtain i p1 where p1: "handle_poll K 100 p = (Inr i, p1)" "producer_ok pending p1"
      using Suc.prems handle_poll_accounts [of "{#}" p 100] by (auto simp: producer_ok_def)
    with Suc.IH [OF p1(2)] False show ?thesis by (auto simp: prog_defs)
  qed
qed

lemma producer_ok_empty:
  "producer_ok pending p \<Longrightarrow> outputQueueLength K p = 0 \<Longrightarrow> Messages p = Map.empty"
  by (auto simp: producer_ok_def accounts_def outputQueueLength_def outq_len_pending
      mset_set_empty_iff)

lemma new_Producer_ok:
  "new_Producer K Settings i = (Inr p, i') \<Longrightarrow>
   producer_ok pending p \<and> ProducerBrokerSettings p = Settings \<and> ProducerID p = i \<and> i' = Suc i"
  by (auto simp: new_Producer_def prog_defs producer_ok_def accounts_def ProducerStats_default_def
      dest: create_pending split: sum.splits failure.splits if_splits option.splits)

lemma produce_owned_result:
  assumes "producer_ok pending p"
    and "rd_produce K t (take (unat (Size obj)) (Data obj))
             (if MsgKey obj \<noteq> [] then Some (MsgKey obj) else None) (NextMessage p)
             (snd (snd (rd_poll K 0 (ProducerPtr p)))) = (c, k')"
  shows "\<exists>p'. produce_owned K t obj p = (Inr (if c = ERR_NO_ERROR then 0 else 1), p')
           \<and> ProducerPtr p' = k'"
proof -
  let ?m = "NextMessage p"
  obtain p1 where p1: "new_message obj p = (Inr ?m, p1)" "accounts pending {#?m#} 0 p1"
      "Messages p1 ?m = Some obj" "ProducerPtr p1 = ProducerPtr p"
    using assms accounts_new [of pending "{#}" 0 p obj] by (auto simp: producer_ok_def)
  obtain n p2 where p2: "handle_poll K 0 p1 = (Inr n, p2)"
      "Messages p2 ?m = Some obj" "ProducerPtr p2 = snd (snd (rd_poll K 0 (ProducerPtr p)))"
    using handle_poll_accounts [OF p1(2), of 0] p1(3,4) by auto
  show ?thesis
    using p1 p2 assms(2)
    by (cases c) (simp_all add: produce_owned_def topic_produce_def producer_produce_def
      delete_message_def prog_defs)
qed

end

section \<open>A client with memory for \<open>cap\<close> messages\<close>

text \<open>
  The client seen from one thread, with a local queue of \<open>cap\<close> messages, that delivers all of them
  at each \<open>poll\<close>.
\<close>

definition list_client :: "nat \<Rightarrow> nat list rdkafka" where
  "list_client cap =
     \<lparr>rd_conf_set = (\<lambda>k v. True), rd_create = (\<lambda>c. Some []), rd_create_topic = (\<lambda>k t. True),
      rd_produce = (\<lambda>t d key m k. if length k < cap then (ERR_NO_ERROR, k @ [m])
                                 else (ERR__QUEUE_FULL, k)),
      rd_poll = (\<lambda>ms k. (map (\<lambda>m. (m, ERR_NO_ERROR)) k, length k, [])),
      rd_outq_len = length\<rparr>"

lemma list_client_simps [simp]:
  "rd_conf_set (list_client cap) k v"
  "rd_create (list_client cap) c = Some []"
  "rd_create_topic (list_client cap) h t"
  "rd_produce (list_client cap) t d key m q =
     (if length q < cap then (ERR_NO_ERROR, q @ [m]) else (ERR__QUEUE_FULL, q))"
  "rd_poll (list_client cap) ms q = (map (\<lambda>m. (m, ERR_NO_ERROR)) q, length q, [])"
  "rd_outq_len (list_client cap) q = length q"
  by (simp_all add: list_client_def)

lemma list_client_settings [simp]: "apply_settings (list_client cap) S = Inr (KafkaConfiguration S)"
proof -
  have "apply_items (list_client cap) items = Inr items" for items
    by (induction items) auto
  then show ?thesis by (simp add: apply_settings_def)
qed

interpretation lc: rd_client "list_client cap" mset
  by unfold_locales (auto simp: comp_def multiset.map_comp split: if_splits)

section \<open>Properties\<close>

text \<open>C14: No message object is leaked or deleted twice, and the statistics add up: whatever the
  client library answers, producing a message, polling and the loop of the destructor return, and
  afterwards the objects that exist are exactly the messages not yet reported, each once, and
  \<open>produced\<close> is the number of reports plus the messages in flight. When the destructor finds the
  queue empty, every object has been deleted.\<close>

theorem producer_accounting:
  assumes "rd_client K pending" "producer_ok pending p"
  shows "(\<exists>x p'. produceAndSetKey K t bytes key p = (Inr x, p') \<and> producer_ok pending p')
       \<and> (\<exists>x p'. topic_produce_bytes K t bytes p = (Inr x, p') \<and> producer_ok pending p')
       \<and> (\<exists>p'. producer_poll K p = (Inr (), p') \<and> producer_ok pending p')
       \<and> (\<exists>p'. delete_Producer K p = (Inr (), p') \<and> producer_ok pending p'
              \<and> (outputQueueLength K p' = 0 \<longrightarrow> Messages p' = Map.empty))"
  using rd_client.produce_owned_ok [OF assms] rd_client.drain_loop_ok [OF assms]
    rd_client.producer_poll_accounts [OF assms(1), of "{#}" p] assms(2)
    rd_client.producer_ok_empty [OF assms(1)]
  unfolding produceAndSetKey_def topic_produce_bytes_def delete_Producer_def producer_ok_def
  by metis

lemma producer_accounting_witness:
  "producer_ok mset \<lparr>Stats = ProducerStats_default, TotalMessagesProduced = 0,
       ProducerBrokerSettings = BrokerSettings_default, ProducerID = 0, ProducerPtr = [],
       Messages = Map.empty, NextMessage = 0\<rparr>
   \<and> (\<exists>x p'. produceAndSetKey (list_client 3) ''topic'' [1, 2] ''key''
        \<lparr>Stats = ProducerStats_default, TotalMessagesProduced = 0,
         ProducerBrokerSettings = BrokerSettings_default, ProducerID = 0, ProducerPtr = [],
         Messages = Map.empty, NextMessage = 0\<rparr> = (Inr x, p') \<and> producer_ok mset p')"
proof -
  let ?p = "\<lparr>Stats = ProducerStats_default, TotalMessagesProduced = 0,
       ProducerBrokerSettings = BrokerSettings_default, ProducerID = 0, ProducerPtr = [] :: nat list,
       Messages = Map.empty, NextMessage = 0\<rparr>"
  have ok: "producer_ok mset ?p"
    by (simp add: producer_ok_def accounts_def ProducerStats_default_def)
  show ?thesis
    using ok producer_accounting [OF lc.rd_client_axioms ok, of 3 "''topic''" "[1, 2]" "''key''"]
    by blast
qed

text \<open>A message shorter than 4 GiB is handed to the client library whole, with the key exactly
  when it is not empty, after the pending delivery reports have been served; the caller gets 0
  exactly when the library accepted it and 1 for every error.\<close>

theorem produceAndSetKey_payload:
  assumes "rd_client K pending" "producer_ok pending p" "length bytes < 2 ^ 32"
    and "rd_produce K t bytes (if key \<noteq> [] then Some key else None) (NextMessage p)
           (snd (snd (rd_poll K 0 (ProducerPtr p)))) = (c, k')"
  shows "\<exists>p'. produceAndSetKey K t bytes key p = (Inr (if c = ERR_NO_ERROR then 0 else 1), p')
           \<and> ProducerPtr p' = k'"
proof -
  have "unat (of_nat (length bytes) :: u32) = length bytes"
    using assms(3) by (intro unat_of_nat_small) simp
  then show ?thesis
    using rd_client.produce_owned_result [OF assms(1,2), of t "Msg_finalize bytes key" c k'] assms(4)
    by (simp add: produceAndSetKey_def Msg_finalize_def cong: if_cong)
qed

lemma produceAndSetKey_payload_witness:
  "\<exists>p'. produceAndSetKey (list_client 3) ''topic'' [1, 2] ''key''
        \<lparr>Stats = ProducerStats_default, TotalMessagesProduced = 0,
         ProducerBrokerSettings = BrokerSettings_default, ProducerID = 0, ProducerPtr = [],
         Messages = Map.empty, NextMessage = 0\<rparr> = (Inr 0, p') \<and> ProducerPtr p' = [0]"
  using produceAndSetKey_payload [OF lc.rd_client_axioms, of
      "\<lparr>Stats = ProducerStats_default, TotalMessagesProduced = 0,
         ProducerBrokerSettings = BrokerSettings_default, ProducerID = 0, ProducerPtr = [],
         Messages = Map.empty, NextMessage = 0\<rparr>" "[1, 2]" 3 "''topic''" "''key''" ERR_NO_ERROR "[0]"]
  by (simp add: producer_ok_def accounts_def ProducerStats_default_def list_client_def)

end
