(* ===== verification/Regex_Match.thy ===== *)
theory Regex_Match
  imports Fwd_Prelude
begin

text \<open>
  The part of \<open>std::regex\<close> that \<open>URI::parse\<close> uses: a backtracking matcher in
  the order of the ECMAScript grammar (alternatives from left to right, repetitions
  greedy, an iteration of a repetition must consume a character) that records the
  text of the capture groups. \<open>re_match r k s c\<close> matches a prefix of \<open>s\<close> with
  \<open>r\<close> and goes on with \<open>k\<close>; when \<open>k\<close> fails, it backtracks.
  The declarative meaning \<open>re_sem\<close> says which texts an expression matches with
  which captures, and the matcher is shown sound and complete for it.
\<close>

type_synonym caps = "nat \<Rightarrow> string option"

datatype re =
    Eps
  | Cls "char \<Rightarrow> bool"
  | Seq re re
  | Alt re re
  | Star re
  | Grp nat re

definition orelse :: "'a option \<Rightarrow> 'a option \<Rightarrow> 'a option" where
  "orelse x y = (case x of None \<Rightarrow> y | Some r \<Rightarrow> Some r)"

lemma orelse_simps [simp]:
  "orelse None y = y"
  "orelse (Some r) y = Some r"
  "orelse x None = x"
  by (simp_all add: orelse_def split: option.split)

lemma orelse_eq_None [simp]: "orelse x y = None \<longleftrightarrow> x = None \<and> y = None"
  by (cases x) simp_all

text \<open>At most \<open>n\<close> greedy iterations of \<open>m\<close>, each consuming something, then \<open>k\<close>.\<close>

primrec iterate ::
  "nat \<Rightarrow> ((string \<Rightarrow> caps \<Rightarrow> 'r option) \<Rightarrow> string \<Rightarrow> caps \<Rightarrow> 'r option) \<Rightarrow>
   (string \<Rightarrow> caps \<Rightarrow> 'r option) \<Rightarrow> string \<Rightarrow> caps \<Rightarrow> 'r option" where
  "iterate 0 m k s c = k s c"
| "iterate (Suc n) m k s c =
     orelse (m (\<lambda>s' c'. if length s' < length s then iterate n m k s' c' else None) s c)
            (k s c)"

primrec re_match ::
  "re \<Rightarrow> (string \<Rightarrow> caps \<Rightarrow> 'r option) \<Rightarrow> string \<Rightarrow> caps \<Rightarrow> 'r option" where
  "re_match Eps k s c = k s c"
| "re_match (Cls P) k s c =
     (case s of [] \<Rightarrow> None | x # s' \<Rightarrow> if P x then k s' c else None)"
| "re_match (Seq a b) k s c = re_match a (re_match b k) s c"
| "re_match (Alt a b) k s c = orelse (re_match a k s c) (re_match b k s c)"
| "re_match (Star r) k s c = iterate (length s) (re_match r) k s c"
| "re_match (Grp i r) k s c =
     re_match r (\<lambda>s' c'. k s' (c'(i \<mapsto> take (length s - length s') s))) s c"

text \<open>\<open>std::regex_match\<close>: the whole text must match.\<close>

definition regex_match :: "re \<Rightarrow> string \<Rightarrow> caps option" where
  "regex_match r s = re_match r (\<lambda>s' c. if s' = [] then Some c else None) s Map.empty"

definition Plus :: "re \<Rightarrow> re" where
  "Plus r = Seq r (Star r)"

definition Opt :: "re \<Rightarrow> re" where
  "Opt r = Alt r Eps"

definition Lit :: "char \<Rightarrow> re" where
  "Lit x = Cls (\<lambda>y. y = x)"

section \<open>Declarative meaning\<close>

inductive re_sem :: "re \<Rightarrow> string \<Rightarrow> caps \<Rightarrow> caps \<Rightarrow> bool" where
  sem_Eps: "re_sem Eps [] c c"
| sem_Cls: "P x \<Longrightarrow> re_sem (Cls P) [x] c c"
| sem_Seq: "re_sem a s c c' \<Longrightarrow> re_sem b t c' d \<Longrightarrow> re_sem (Seq a b) (s @ t) c d"
| sem_AltL: "re_sem a s c d \<Longrightarrow> re_sem (Alt a b) s c d"
| sem_AltR: "re_sem b s c d \<Longrightarrow> re_sem (Alt a b) s c d"
| sem_Star0: "re_sem (Star r) [] c c"
| sem_StarS: "re_sem r s c c' \<Longrightarrow> s \<noteq> [] \<Longrightarrow> re_sem (Star r) t c' d \<Longrightarrow>
     re_sem (Star r) (s @ t) c d"
| sem_Grp: "re_sem r s c d \<Longrightarrow> re_sem (Grp i r) s c (d(i \<mapsto> s))"

inductive_cases sem_EpsE [elim!]: "re_sem Eps s c d"
inductive_cases sem_ClsE [elim!]: "re_sem (Cls P) s c d"
inductive_cases sem_SeqE [elim!]: "re_sem (Seq a b) s c d"
inductive_cases sem_AltE [elim!]: "re_sem (Alt a b) s c d"
inductive_cases sem_GrpE [elim!]: "re_sem (Grp i r) s c d"

text \<open>Every result of the matcher is a match of a prefix followed by \<open>k\<close>.\<close>

definition sound :: "re \<Rightarrow> bool" where
  "sound r \<longleftrightarrow> (\<forall>k s c x. re_match r k s c = Some (x :: caps) \<longrightarrow>
     (\<exists>u v d. s = u @ v \<and> re_sem r u c d \<and> k v d = Some x))"

lemma iterate_sound:
  assumes "sound r" and "iterate n (re_match r) k s c = Some (x :: caps)"
  shows "\<exists>u v d. s = u @ v \<and> re_sem (Star r) u c d \<and> k v d = Some x"
  using assms(2)
proof (induction n arbitrary: s c)
  case 0
  then show ?case by (auto intro: sem_Star0)
next
  case (Suc n)
  let ?k = "\<lambda>s' c'. if length s' < length s then iterate n (re_match r) k s' c' else None"
  show ?case
  proof (cases "re_match r ?k s c")
    case None
    with Suc.prems show ?thesis by (auto intro: sem_Star0)
  next
    case (Some y)
    with Suc.prems have "re_match r ?k s c = Some x" by simp
    with assms(1) obtain u v d where u: "s = u @ v" "re_sem r u c d" and "?k v d = Some x"
      unfolding sound_def by blast
    then have ne: "u \<noteq> []" and "iterate n (re_match r) k v d = Some x"
      by (auto split: if_splits)
    then obtain u' v' d' where "v = u' @ v'" "re_sem (Star r) u' d d'" "k v' d' = Some x"
      using Suc.IH by blast
    with u ne show ?thesis
      by (metis append.assoc sem_StarS)
  qed
qed

lemma re_match_sound: "sound r"
proof (induction r)
  case (Cls P)
  show ?case
    unfolding sound_def
    by (auto split: list.splits if_splits) (metis append_Cons append_Nil sem_Cls)
next
  case (Seq a b)
  show ?case
    unfolding sound_def
  proof (intro allI impI)
    fix k s c x
    assume "re_match (Seq a b) k s c = Some (x :: caps)"
    then have "re_match a (re_match b k) s c = Some x" by simp
    with Seq.IH(1) obtain u v d
      where u: "s = u @ v" "re_sem a u c d" and "re_match b k v d = Some x"
      unfolding sound_def by blast
    with Seq.IH(2) obtain u' v' d'
      where "v = u' @ v'" "re_sem b u' d d'" "k v' d' = Some x"
      unfolding sound_def by blast
    with u show "\<exists>u v d. s = u @ v \<and> re_sem (Seq a b) u c d \<and> k v d = Some x"
      by (metis append.assoc sem_Seq)
  qed
next
  case (Alt a b)
  show ?case
    unfolding sound_def
  proof (intro allI impI)
    fix k s c x
    assume "re_match (Alt a b) k s c = Some (x :: caps)"
    then have "re_match a k s c = Some x \<or> re_match b k s c = Some x"
      by (cases "re_match a k s c") auto
    with Alt.IH show "\<exists>u v d. s = u @ v \<and> re_sem (Alt a b) u c d \<and> k v d = Some x"
      unfolding sound_def by (metis sem_AltL sem_AltR)
  qed
next
  case (Star r)
  then show ?case using iterate_sound by (simp add: sound_def)
next
  case (Grp i r)
  show ?case
    unfolding sound_def
  proof (intro allI impI)
    fix k s c x
    assume "re_match (Grp i r) k s c = Some (x :: caps)"
    then obtain u v d where "s = u @ v" "re_sem r u c d"
        and "k v (d(i \<mapsto> take (length s - length v) s)) = Some x"
      using Grp.IH unfolding sound_def re_match.simps by blast
    then show "\<exists>u v d. s = u @ v \<and> re_sem (Grp i r) u c d \<and> k v d = Some x"
      by (intro exI [of _ u] exI [of _ v] exI [of _ "d(i \<mapsto> u)"]) (auto intro: sem_Grp)
  qed
qed (auto simp: sound_def intro: sem_Eps)

text \<open>Backtracking misses no match: where \<open>k\<close> succeeds after some match, so does the matcher.\<close>

lemma iterate_complete:
  assumes "re_sem q u c d" and "q = Star r"
    and step: "\<And>u v c d k. re_sem r u c d \<Longrightarrow> k v d \<noteq> (None :: caps option) \<Longrightarrow>
      re_match r k (u @ v) c \<noteq> None"
    and "k v d \<noteq> (None :: caps option)" and "length u \<le> n"
  shows "iterate n (re_match r) k (u @ v) c \<noteq> None"
  using assms(1,2,4,5)
proof (induction q u c d arbitrary: n rule: re_sem.induct)
  case (sem_Star0 r' c)
  then show ?case by (cases n) auto
next
  case (sem_StarS r' s c c' t d)
  then obtain n' where n: "n = Suc n'" by (cases n) auto
  let ?k = "\<lambda>s' c'. if length s' < length (s @ t @ v) then iterate n' (re_match r) k s' c' else None"
  from sem_StarS.hyps sem_StarS.prems n have "length t \<le> n'" by (cases s) auto
  with sem_StarS have "iterate n' (re_match r) k (t @ v) c' \<noteq> None" by blast
  with sem_StarS.hyps have "?k (t @ v) c' \<noteq> None" by (cases s) auto
  with step [of s c c' ?k "t @ v"] sem_StarS.hyps sem_StarS.prems
  have "re_match r ?k (s @ t @ v) c \<noteq> None" by auto
  with n show ?case by (auto simp del: orelse_eq_None)
qed auto

lemma re_match_complete:
  "re_sem r u c d \<Longrightarrow> k v d \<noteq> (None :: caps option) \<Longrightarrow> re_match r k (u @ v) c \<noteq> None"
proof (induction r arbitrary: u v c d k)
  case (Seq a b)
  then show ?case by (auto simp del: not_None_eq) blast
next
  case (Alt a b)
  from Alt.prems(1) show ?case
    using Alt.IH(1) [of u c d k v] Alt.IH(2) [of u c d k v] Alt.prems(2) by auto
next
  case (Star r)
  then show ?case using iterate_complete [of "Star r"] by (simp del: not_None_eq)
next
  case (Grp i r)
  from Grp.prems(1) obtain d' where d': "re_sem r u c d'" "d = d'(i \<mapsto> u)" by auto
  have "re_match r (\<lambda>s' c'. k s' (c'(i \<mapsto> take (length (u @ v) - length s') (u @ v))))
      (u @ v) c \<noteq> None"
    using Grp.prems(2) d'(2) by (intro Grp.IH [OF d'(1)]) simp
  then show ?case by simp
qed (auto simp del: not_None_eq)

lemma Cls_match [simp]:
  "re_match (Cls P) k [] c = None"
  "re_match (Cls P) k (x # s) c = (if P x then k s c else None)"
  by simp_all

declare re_match.simps(2) [simp del]

theorem regex_match_Some: "regex_match r s = Some d \<Longrightarrow> re_sem r s Map.empty d"
  using re_match_sound [of r] unfolding sound_def regex_match_def
  by (fastforce split: if_splits)

theorem regex_match_None: "regex_match r s = None \<longleftrightarrow> (\<nexists>d. re_sem r s Map.empty d)"
proof -
  have "regex_match r s \<noteq> None" if "re_sem r s Map.empty d" for d
    using re_match_complete [OF that, of "\<lambda>s' c. if s' = [] then Some c else None" "[]"]
    by (simp add: regex_match_def)
  then show ?thesis using regex_match_Some by (metis option.exhaust)
qed

end
