(* ===== verification/Uri.thy ===== *)
theory Uri
  imports Regex_Match
begin

text \<open>
  \<open>URI.h\<close> and \<open>URI.cpp\<close>: the record of a broker address and topic, the regular
  expression of \<open>URI::parse\<close> group by group, and \<open>parse\<close> itself, which changes the
  fields it finds and leaves the others. The lemmas say what it makes of every
  address of the documented form, what any accepted text looks like, and which
  exception each rejected text gives.
\<close>

section \<open>Model\<close>

record URI =
  HostPort :: string
  Port :: u32
  Topic :: string

definition URI_default :: URI where
  "URI_default = \<lparr>HostPort = [], Port = 0, Topic = []\<rparr>"

definition getURIString :: "URI \<Rightarrow> string" where
  "getURIString u = HostPort u @ ''/'' @ Topic u"

text \<open>The character classes \<open>\s\<close>, \<open>[^:/?#]\<close> (also \<open>[^/?#:]\<close>), \<open>\d\<close>, \<open>[a-zA-Z0-9._-]\<close>.\<close>

definition space_char :: "char \<Rightarrow> bool" where
  "space_char x \<longleftrightarrow> of_char x = (32::nat) \<or> (9::nat) \<le> of_char x \<and> of_char x \<le> (13::nat)"

definition host_char :: "char \<Rightarrow> bool" where
  "host_char x \<longleftrightarrow> x \<notin> set ''/?#:''"

definition topic_char :: "char \<Rightarrow> bool" where
  "topic_char x \<longleftrightarrow> (let n = of_char x :: nat in
     97 \<le> n \<and> n \<le> 122 \<or> 65 \<le> n \<and> n \<le> 90 \<or> 48 \<le> n \<and> n \<le> 57 \<or> x \<in> set ''._-'')"

text \<open>The separator \<open>://\<close> after a scheme name.\<close>

definition re_sep :: re where
  "re_sep = Seq (Lit CHR '':'') (Seq (Lit CHR ''/'') (Lit CHR ''/''))"

definition re_scheme :: re where
  "re_scheme =
     Grp 1 (Alt (Grp 2 (Seq (Grp 3 (Plus (Cls host_char))) re_sep))
           (Alt (Grp 4 (Seq (Lit CHR ''/'') (Lit CHR ''/''))) (Grp 5 Eps)))"

definition re_host :: re where
  "re_host = Grp 7 (Plus (Grp 8 (Plus (Cls host_char))))"

definition re_port :: re where
  "re_port = Opt (Grp 9 (Seq (Lit CHR '':'') (Grp 10 (Plus (Cls is_digit)))))"

definition re_topic :: re where
  "re_topic = Seq (Opt (Lit CHR ''/'')) (Opt (Grp 11 (Plus (Cls topic_char))))"

text \<open>
  The pattern \<^verbatim>\<open>\s*((([^:/?#]+)://)|(//)|())((([^/?#:]+)+)(:(\d+))?)/?([a-zA-Z0-9._-]+)?\s*\<close>
\<close>

definition uri_regex :: re where
  "uri_regex =
     Seq (Star (Cls space_char)) (Seq re_scheme (Seq (Grp 6 (Seq re_host re_port))
       (Seq re_topic (Star (Cls space_char)))))"

text \<open>\<open>std::stoi\<close> of a string of digits: \<open>std::out_of_range\<close> above the largest \<open>int\<close>.\<close>

definition stoi_digits :: "string \<Rightarrow> nat res" where
  "stoi_digits ds = (if dec_val ds \<le> 2147483647 then Inr (dec_val ds) else Inl (Throw OutOfRange))"

definition parse :: "string \<Rightarrow> (URI, unit) prog" where
  "parse URIString =
     (let Matches = (case regex_match uri_regex URIString of None \<Rightarrow> Map.empty | Some m \<Rightarrow> m) in
      case Matches 6 of
        None \<Rightarrow> raise (RuntimeError (''Unable to extract host from the URI: '' @ URIString))
      | Some host \<Rightarrow>
          thn (upd_st (HostPort_update (\<lambda>_. host)))
         (thn (case Matches 10 of
                 None \<Rightarrow> ret ()
               | Some port \<Rightarrow> bnd (of_res (stoi_digits port))
                   (\<lambda>n. upd_st (Port_update (\<lambda>_. of_nat n))))
              (case Matches 11 of
                 None \<Rightarrow> ret ()
               | Some topic \<Rightarrow> upd_st (Topic_update (\<lambda>_. topic)))))"

text \<open>The constructor \<open>URI(const std::string &)\<close>.\<close>

definition new_URI :: "string \<Rightarrow> URI res" where
  "new_URI URIString = (case parse URIString URI_default of
     (Inl e, _) \<Rightarrow> Inl e | (Inr _, u) \<Rightarrow> Inr u)"

section \<open>Greedy matching of character classes\<close>

text \<open>\<open>stops P s\<close>: the run of \<open>P\<close> characters does not go on into \<open>s\<close>.\<close>

definition stops :: "(char \<Rightarrow> bool) \<Rightarrow> string \<Rightarrow> bool" where
  "stops P s \<longleftrightarrow> (case s of [] \<Rightarrow> True | x # _ \<Rightarrow> \<not> P x)"

lemma stops_simps [simp]: "stops P []" "stops P (x # s) \<longleftrightarrow> \<not> P x"
  by (simp_all add: stops_def)

lemma stops_append: "xs \<noteq> [] \<Longrightarrow> stops P (xs @ ys) \<longleftrightarrow> \<not> P (hd xs)"
  by (cases xs) auto

lemma iterate_Cls_greedy:
  "list_all P xs \<Longrightarrow> stops P ys \<Longrightarrow> k ys c \<noteq> None \<Longrightarrow> length xs \<le> n \<Longrightarrow>
   iterate n (re_match (Cls P)) k (xs @ ys) c = k ys c"
proof (induction xs arbitrary: n)
  case Nil
  then show ?case by (cases n; cases ys) auto
next
  case (Cons x xs)
  then show ?case by (cases n) auto
qed

lemma iterate_Cls_None:
  "list_all P xs \<Longrightarrow> stops P ys \<Longrightarrow> (\<And>u v. xs = u @ v \<Longrightarrow> k (v @ ys) c = None) \<Longrightarrow>
   iterate n (re_match (Cls P)) k (xs @ ys) c = None"
proof (induction xs arbitrary: n)
  case Nil
  then have "k ys c = None" by auto
  with Nil show ?case by (cases n; cases ys) auto
next
  case (Cons x xs)
  from Cons.prems(3) [of "[]" "x # xs"] have k: "k (x # xs @ ys) c = None" by simp
  have "iterate m (re_match (Cls P)) k (xs @ ys) c = None" for m
    using Cons.prems(1,2) Cons.prems(3) [of "x # u" for u] by (intro Cons.IH) auto
  with k Cons.prems(1) show ?case by (cases n) auto
qed

lemma Star_greedy:
  "list_all P xs \<Longrightarrow> stops P ys \<Longrightarrow> k ys c \<noteq> None \<Longrightarrow>
   re_match (Star (Cls P)) k (xs @ ys) c = k ys c"
  by (simp only: re_match.simps) (rule iterate_Cls_greedy, simp_all)

lemma Plus_greedy:
  assumes "xs \<noteq> []" "list_all P xs" "stops P ys" "k ys c \<noteq> None"
  shows "re_match (Plus (Cls P)) k (xs @ ys) c = k ys c"
proof -
  from assms(1) obtain x xs' where "xs = x # xs'" by (cases xs) auto
  with assms show ?thesis
    by (simp add: Plus_def Star_greedy del: re_match.simps(5))
qed

lemma Plus_None:
  assumes "list_all P xs" "stops P ys"
    and "\<And>u v. xs = u @ v \<Longrightarrow> k (v @ ys) c = None"
  shows "re_match (Plus (Cls P)) k (xs @ ys) c = None"
proof (cases xs)
  case Nil
  with assms(2) show ?thesis by (cases ys) (simp_all add: Plus_def)
next
  case (Cons x xs')
  have "iterate n (re_match (Cls P)) k (xs' @ ys) c = None" for n
    using assms Cons by (intro iterate_Cls_None) (auto simp: assms(3) [of "x # u" for u])
  with Cons assms(1) show ?thesis by (simp add: Plus_def)
qed

lemma Plus_stuck: "stops P ys \<Longrightarrow> re_match (Plus (Cls P)) k ys c = None"
  using Plus_None [of P "[]" ys] by (cases ys) (simp_all add: Plus_def)

lemma Lit_match [simp]:
  "re_match (Lit x) k [] c = None"
  "re_match (Lit x) k (y # s) c = (if y = x then k s c else None)"
  by (simp_all add: Lit_def)


section \<open>The groups of the pattern\<close>

lemma host_char_facts [simp]:
  "\<not> host_char CHR ''/''" "\<not> host_char CHR '':''"
  by (simp_all add: host_char_def)

lemma host_char_not: "host_char x \<Longrightarrow> x \<noteq> CHR ''/'' \<and> x \<noteq> CHR '':''"
  by (auto simp: host_char_def)

lemma digit_facts [simp]:
  "\<not> is_digit CHR ''/''" "\<not> is_digit CHR '':''"
  "\<not> topic_char CHR ''/''" "\<not> topic_char CHR '':''"
  "\<not> space_char CHR ''/''" "\<not> space_char CHR '':''"
  by (simp_all add: is_digit_def topic_char_def space_char_def Let_def)

lemma space_char_not:
  assumes "space_char x"
  shows "\<not> is_digit x" "\<not> topic_char x" "x \<noteq> CHR ''/''" "x \<noteq> CHR '':''"
  using assms by (auto simp: space_char_def is_digit_def topic_char_def Let_def)

lemma stops_spaces:
  assumes "list_all space_char ws"
  shows "stops is_digit ws" "stops topic_char ws" "stops (\<lambda>x. x = CHR ''/'') ws"
    "stops (\<lambda>x. x = CHR '':'') ws"
  using assms by (cases ws; simp add: space_char_not)+

lemma re_port_Some:
  assumes "d \<noteq> []" "list_all is_digit d" "stops is_digit s"
    and "k s (c(10 \<mapsto> d, 9 \<mapsto> CHR '':'' # d)) \<noteq> None"
  shows "re_match re_port k (CHR '':'' # d @ s) c = k s (c(10 \<mapsto> d, 9 \<mapsto> CHR '':'' # d))"
  using assms by (auto simp: re_port_def Opt_def Plus_greedy)

lemma re_port_None: "stops (\<lambda>x. x = CHR '':'') s \<Longrightarrow> re_match re_port k s c = k s c"
  by (cases s) (simp_all add: re_port_def Opt_def)

lemma re_host_match:
  assumes "h \<noteq> []" "list_all host_char h" "stops host_char s"
    and "k s (c(8 \<mapsto> h, 7 \<mapsto> h)) \<noteq> None"
  shows "re_match re_host k (h @ s) c = k s (c(8 \<mapsto> h, 7 \<mapsto> h))"
proof -
  let ?g = "Grp 8 (Plus (Cls host_char))"
  have star: "re_match (Star ?g) k' s c' = k' s c'" for k' c'
    by (cases "length s") (simp_all add: Plus_stuck [OF assms(3)])
  show ?thesis
    unfolding re_host_def Plus_def [of ?g] re_match.simps(3,6)
    using assms by (subst Plus_greedy) (simp_all add: star del: re_match.simps(5))
qed

lemma re_topic_Some:
  assumes "t \<noteq> []" "list_all topic_char t" "stops topic_char s" "k s (c(11 \<mapsto> t)) \<noteq> None"
  shows "re_match re_topic k (CHR ''/'' # t @ s) c = k s (c(11 \<mapsto> t))"
  using assms by (auto simp: re_topic_def Opt_def Plus_greedy)

lemma re_topic_None:
  assumes "stops topic_char s" "stops (\<lambda>x. x = CHR ''/'') s"
  shows "re_match re_topic k s c = k s c"
  using assms by (cases s) (simp_all add: re_topic_def Opt_def Plus_stuck)

lemma re_sep_match [simp]: "re_match re_sep k (CHR '':'' # CHR ''/'' # CHR ''/'' # s) c = k s c"
  by (simp add: re_sep_def)

lemma re_sep_None: "take 3 s \<noteq> ''://'' \<Longrightarrow> re_match re_sep k s c = None"
  by (cases s; cases "tl s"; cases "tl (tl s)") (auto simp: re_sep_def)

lemma re_scheme_none:
  assumes "h \<noteq> []" "list_all host_char h" "stops host_char s" "take 3 s \<noteq> ''://''"
  shows "re_match re_scheme k (h @ s) c = k (h @ s) (c(5 \<mapsto> [], 1 \<mapsto> []))"
proof -
  have sep: "re_match re_sep k' (v @ s) c' = None" if "h = u @ v" for u v k' c'
    using that assms(2,4) by (cases v) (auto intro!: re_sep_None dest: host_char_not)
  have alt1: "re_match (Grp 2 (Seq (Grp 3 (Plus (Cls host_char))) re_sep)) k' (h @ s) c' = None"
    for k' c'
    unfolding re_match.simps(3,6) by (rule Plus_None [OF assms(2,3)]) (rule sep)
  from assms(1,2) obtain x h' where "h = x # h'" "x \<noteq> CHR ''/''"
    by (cases h) (auto dest: host_char_not)
  then have alt2: "re_match (Alt (Grp 4 (Seq (Lit CHR ''/'') (Lit CHR ''/''))) (Grp 5 Eps)) k' (h @ s) c
      = k' (h @ s) (c(5 \<mapsto> []))" for k'
    by simp
  show ?thesis
    unfolding re_scheme_def re_match.simps(6) [of 1]
    by (subst re_match.simps(4)) (simp add: alt1 alt2 del: re_match.simps)
qed

lemma re_scheme_slashes:
  assumes "k s (c(4 \<mapsto> ''//'', 1 \<mapsto> ''//'')) \<noteq> None"
  shows "re_match re_scheme k (''//'' @ s) c = k s (c(4 \<mapsto> ''//'', 1 \<mapsto> ''//''))"
  using assms by (auto simp: re_scheme_def Plus_stuck)

lemma re_scheme_named:
  assumes "sc \<noteq> []" "list_all host_char sc"
    and "k s (c(3 \<mapsto> sc, 2 \<mapsto> sc @ ''://'', 1 \<mapsto> sc @ ''://'')) \<noteq> None"
  shows "re_match re_scheme k (sc @ ''://'' @ s) c
     = k s (c(3 \<mapsto> sc, 2 \<mapsto> sc @ ''://'', 1 \<mapsto> sc @ ''://''))"
  using assms by (auto simp: re_scheme_def Plus_greedy)


section \<open>Addresses of the documented form\<close>

text \<open>
  An address \<open>[scheme:]//host[:port][/topic]\<close>, where the slashes before the host may be
  left out when there is no scheme.
\<close>

datatype scheme = NoScheme | Slashes | Named string

fun scheme_text :: "scheme \<Rightarrow> string" where
  "scheme_text NoScheme = []"
| "scheme_text Slashes = ''//''"
| "scheme_text (Named sc) = sc @ ''://''"

fun scheme_ok :: "scheme \<Rightarrow> string \<Rightarrow> bool" where
  "scheme_ok NoScheme host \<longleftrightarrow> \<not> space_char (hd host)"
| "scheme_ok Slashes host \<longleftrightarrow> True"
| "scheme_ok (Named sc) host \<longleftrightarrow> sc \<noteq> [] \<and> list_all host_char sc \<and> \<not> space_char (hd sc)"

definition port_text :: "nat option \<Rightarrow> string" where
  "port_text p = (case p of None \<Rightarrow> [] | Some n \<Rightarrow> '':'' @ dec n)"

definition topic_text :: "string option \<Rightarrow> string" where
  "topic_text t = (case t of None \<Rightarrow> [] | Some x \<Rightarrow> ''/'' @ x)"

definition address_text :: "scheme \<Rightarrow> string \<Rightarrow> nat option \<Rightarrow> string option \<Rightarrow> string" where
  "address_text sch host p t = scheme_text sch @ host @ port_text p @ topic_text t"

definition address_ok :: "scheme \<Rightarrow> string \<Rightarrow> string option \<Rightarrow> bool" where
  "address_ok sch host t \<longleftrightarrow> host \<noteq> [] \<and> list_all host_char host \<and> scheme_ok sch host \<and>
     (case t of None \<Rightarrow> True | Some x \<Rightarrow> x \<noteq> [] \<and> list_all topic_char x)"

text \<open>Spaces around it; after a bare host they would be taken as part of the host.\<close>

definition padding_ok :: "string \<Rightarrow> nat option \<Rightarrow> string option \<Rightarrow> string \<Rightarrow> bool" where
  "padding_ok ws p t ws' \<longleftrightarrow> list_all space_char ws \<and> list_all space_char ws' \<and>
     (ws' = [] \<or> p \<noteq> None \<or> t \<noteq> None)"

lemma list_all_dec [simp]: "list_all is_digit (dec n)"
  using dec_digits [of n] by (simp add: list_all_iff)

abbreviation fin :: "string \<Rightarrow> caps \<Rightarrow> caps option" where
  "fin s c \<equiv> (if s = [] then Some c else None)"

lemma match_spaces_end:
  "list_all space_char ws \<Longrightarrow> re_match (Star (Cls space_char)) fin ws c = Some c"
  using Star_greedy [of space_char ws "[]" fin c] by (simp del: re_match.simps)

lemma match_topic_end:
  assumes "address_ok sch host t" "list_all space_char ws"
  shows "re_match (Seq re_topic (Star (Cls space_char))) fin (topic_text t @ ws) c
     = Some (case t of None \<Rightarrow> c | Some x \<Rightarrow> c(11 \<mapsto> x))"
  using assms unfolding re_match.simps(3)
  by (auto simp: topic_text_def address_ok_def re_topic_None re_topic_Some match_spaces_end
        stops_spaces simp del: re_match.simps split: option.splits)

lemma match_port_end:
  assumes ok: "address_ok sch host t" "list_all space_char ws" and "ws = [] \<or> p \<noteq> None \<or> t \<noteq> None"
    and k: "\<And>c. k (topic_text t @ ws) c = Some (f c)"
  shows "re_match re_port k (port_text p @ topic_text t @ ws) c
     = Some (f (case p of None \<Rightarrow> c | Some n \<Rightarrow> c(10 \<mapsto> dec n, 9 \<mapsto> '':'' @ dec n)))"
proof -
  have "stops (\<lambda>x. x = CHR '':'') (topic_text t @ ws)" "stops is_digit (topic_text t @ ws)"
    using ok by (auto simp: topic_text_def stops_spaces split: option.split)
  then show ?thesis
    using k by (auto simp: port_text_def re_port_None re_port_Some split: option.split)
qed


text \<open>The captures after the host, and after an optional port and topic.\<close>

definition port_caps :: "nat option \<Rightarrow> caps \<Rightarrow> caps" where
  "port_caps p c = (case p of None \<Rightarrow> c | Some n \<Rightarrow> c(10 \<mapsto> dec n, 9 \<mapsto> '':'' @ dec n))"

definition topic_caps :: "string option \<Rightarrow> caps \<Rightarrow> caps" where
  "topic_caps t c = (case t of None \<Rightarrow> c | Some x \<Rightarrow> c(11 \<mapsto> x))"

abbreviation re_authority :: re where
  "re_authority \<equiv> Grp 6 (Seq re_host re_port)"

abbreviation re_rest :: re where
  "re_rest \<equiv> Seq re_topic (Star (Cls space_char))"

lemma match_authority:
  assumes ok: "address_ok sch host t" and pad: "padding_ok ws p t ws'"
  shows "re_match (Seq re_authority re_rest) fin (host @ port_text p @ topic_text t @ ws') c
     = Some (topic_caps t ((port_caps p (c(8 \<mapsto> host, 7 \<mapsto> host)))(6 \<mapsto> host @ port_text p)))"
proof -
  let ?s = "host @ port_text p @ topic_text t @ ws'"
  let ?k = "\<lambda>s' c'. re_match re_rest fin s' (c'(6 \<mapsto> take (length ?s - length s') ?s))"
  from ok pad have host: "host \<noteq> []" "list_all host_char host"
    and stop: "stops host_char (port_text p @ topic_text t @ ws')"
    by (auto simp: address_ok_def padding_ok_def port_text_def topic_text_def split: option.splits)
  have "?k (topic_text t @ ws') c' = Some (topic_caps t (c'(6 \<mapsto> host @ port_text p)))" for c'
    using match_topic_end [OF ok, of ws'] pad
    by (simp add: padding_ok_def topic_caps_def del: re_match.simps)
  then have "re_match re_port ?k (port_text p @ topic_text t @ ws') c'
      = Some (topic_caps t ((port_caps p c')(6 \<mapsto> host @ port_text p)))" for c'
    using match_port_end [OF ok, of ws' p ?k] pad
    by (simp add: padding_ok_def port_caps_def del: re_match.simps)
  with re_host_match [OF host stop, of "re_match re_port ?k" c] show ?thesis
    unfolding re_match.simps(3) [of re_authority] re_match.simps(6) [of 6]
      re_match.simps(3) [of re_host] by simp
qed

lemma port_text_no_sep: "take 3 (port_text (Some n) @ s) \<noteq> ''://''"
proof -
  obtain d ds where "dec n = d # ds" by (cases "dec n") auto
  with dec_digits [of n] have "dec n = d # ds" "d \<noteq> CHR ''/''" by auto
  then show ?thesis by (simp add: port_text_def)
qed

lemma regex_match_address:
  assumes ok: "address_ok sch host t" and pad: "padding_ok ws p t ws'"
  obtains m where "regex_match uri_regex (ws @ address_text sch host p t @ ws') = Some m"
    and "m 6 = Some (host @ port_text p)" and "m 10 = map_option dec p" and "m 11 = t"
proof -
  let ?s = "host @ port_text p @ topic_text t @ ws'"
  let ?k = "re_match (Seq re_authority re_rest) fin"
  have auth: "?k ?s c = Some (topic_caps t ((port_caps p (c(8 \<mapsto> host, 7 \<mapsto> host)))(6 \<mapsto> host @ port_text p)))"
    for c by (rule match_authority [OF ok pad])
  have host: "host \<noteq> []" "list_all host_char host" using ok by (auto simp: address_ok_def)
  have stop: "stops host_char (port_text p @ topic_text t @ ws')"
    using pad by (auto simp: padding_ok_def port_text_def topic_text_def split: option.splits)
  have "take 3 (port_text p @ topic_text t @ ws') \<noteq> ''://''"
  proof (cases p)
    case None
    with pad show ?thesis
      by (auto simp: padding_ok_def port_text_def topic_text_def split: option.splits)
  qed (simp only: port_text_no_sep not_False_eq_True)
  note rest = stop this
  have "\<exists>c. re_match re_scheme ?k (scheme_text sch @ ?s) Map.empty = ?k ?s c \<and>
      c 10 = None \<and> c 11 = None"
  proof (cases sch)
    case NoScheme
    then show ?thesis
      using re_scheme_none [OF host rest, of ?k Map.empty]
      by (intro exI [of _ "Map.empty(5 \<mapsto> [], 1 \<mapsto> [])"]) (simp del: re_match.simps)
  next
    case Slashes
    then show ?thesis using re_scheme_slashes [of ?k ?s] auth by (auto simp del: re_match.simps)
  next
    case (Named sc)
    then show ?thesis
      using re_scheme_named [of sc ?k ?s] auth ok by (auto simp: address_ok_def simp del: re_match.simps)
  qed
  then obtain c where c: "re_match re_scheme ?k (scheme_text sch @ ?s) Map.empty = ?k ?s c"
      "c 10 = None" "c 11 = None" by blast
  have "stops space_char (scheme_text sch @ ?s)"
    using ok by (cases sch) (auto simp: address_ok_def stops_append)
  with c(1) auth [of c] Star_greedy [of space_char ws "scheme_text sch @ ?s" "re_match re_scheme ?k"]
  have "regex_match uri_regex (ws @ address_text sch host p t @ ws') = ?k ?s c"
    using pad unfolding regex_match_def uri_regex_def address_text_def re_match.simps(3)
    by (auto simp: padding_ok_def simp del: re_match.simps)
  with that auth [of c] c(2,3) show thesis
    by (auto simp: topic_caps_def port_caps_def split: option.splits)
qed


section \<open>Accepted and rejected texts\<close>

fun groups :: "re \<Rightarrow> nat set" where
  "groups Eps = {}"
| "groups (Cls P) = {}"
| "groups (Seq a b) = groups a \<union> groups b"
| "groups (Alt a b) = groups a \<union> groups b"
| "groups (Star r) = groups r"
| "groups (Grp i r) = insert i (groups r)"

lemma sem_frame: "re_sem r s c d \<Longrightarrow> i \<notin> groups r \<Longrightarrow> d i = c i"
  by (induction rule: re_sem.induct) auto

lemma sem_Star_Cls: "re_sem (Star (Cls P)) s c d \<Longrightarrow> list_all P s"
  by (induction "Star (Cls P)" s c d rule: re_sem.induct) auto

lemma sem_Plus_Cls: "re_sem (Plus (Cls P)) s c d \<Longrightarrow> s \<noteq> [] \<and> list_all P s"
  by (auto simp: Plus_def dest: sem_Star_Cls)

lemma sem_re_host: "re_sem re_host s c d \<Longrightarrow> s \<noteq> [] \<and> list_all host_char s"
proof -
  have star: "list_all host_char s" if "re_sem (Star (Grp 8 (Plus (Cls host_char)))) s c d" for s c d
    using that
    by (induction "Star (Grp 8 (Plus (Cls host_char)))" s c d rule: re_sem.induct)
       (auto dest: sem_Plus_Cls)
  show "re_sem re_host s c d \<Longrightarrow> s \<noteq> [] \<and> list_all host_char s"
    by (auto simp: re_host_def Plus_def [of "Grp 8 r" for r] dest: sem_Plus_Cls star)
qed

lemma sem_re_port:
  "re_sem re_port s c d \<Longrightarrow> s = [] \<and> d 10 = c 10 \<or>
     (\<exists>ds. s = CHR '':'' # ds \<and> ds \<noteq> [] \<and> list_all is_digit ds \<and> d 10 = Some ds)"
  by (auto simp: re_port_def Opt_def Lit_def dest: sem_Plus_Cls)

lemma sem_re_topic:
  "re_sem re_topic s c d \<Longrightarrow> d 11 = c 11 \<or>
     (\<exists>t. t \<noteq> [] \<and> list_all topic_char t \<and> d 11 = Some t)"
  by (auto simp: re_topic_def Opt_def Lit_def dest: sem_Plus_Cls)

text \<open>What the captures of any accepted text look like.\<close>

lemma regex_match_uri_shape:
  assumes "regex_match uri_regex s = Some m"
  shows "\<exists>host port. m 6 = Some (host @ port) \<and> host \<noteq> [] \<and> list_all host_char host \<and>
      (port = [] \<and> m 10 = None \<or>
       (\<exists>ds. port = CHR '':'' # ds \<and> ds \<noteq> [] \<and> list_all is_digit ds \<and> m 10 = Some ds)) \<and>
      (m 11 = None \<or> (\<exists>t. t \<noteq> [] \<and> list_all topic_char t \<and> m 11 = Some t))"
proof -
  from regex_match_Some [OF assms] obtain c1 c2 c3 c4 h1 c5 host port x1 x2 x3 x4
    where s1: "re_sem (Star (Cls space_char)) x1 Map.empty c1"
      and s2: "re_sem re_scheme x2 c1 c2"
      and s3: "re_sem re_host host c2 c3" and s4: "re_sem re_port port c3 c4"
      and s5: "re_sem re_topic x3 (c4(6 \<mapsto> host @ port)) c5"
      and s6: "re_sem (Star (Cls space_char)) x4 c5 m"
    unfolding uri_regex_def by blast
  have g: "groups re_scheme = {1, 2, 3, 4, 5}" "groups re_host = {7, 8}"
    "groups re_port = {9, 10}" "groups re_topic = {11}"
    by (auto simp: re_scheme_def re_host_def re_port_def re_topic_def re_sep_def Plus_def Opt_def Lit_def)
  have m: "m i = c5 i" for i using sem_frame [OF s6, of i] by simp
  have c3: "c3 10 = None" "c3 11 = None"
    using sem_frame [OF s1] sem_frame [OF s2] sem_frame [OF s3] by (simp_all add: g)
  have c5: "c5 6 = Some (host @ port)" "c5 10 = c4 10"
    using sem_frame [OF s5] by (simp_all add: g)
  have "c4 11 = None" using sem_frame [OF s4, of 11] c3 by (simp add: g)
  with sem_re_topic [OF s5] have "c5 11 = None \<or> (\<exists>t. t \<noteq> [] \<and> list_all topic_char t \<and> c5 11 = Some t)"
    by auto
  with sem_re_host [OF s3] sem_re_port [OF s4] c3 c5 m show ?thesis by auto
qed


lemma parse_matched:
  assumes "regex_match uri_regex s = Some m" and "m 6 = Some hp"
  shows "parse s U =
    (case map_option stoi_digits (m 10) of
       Some (Inl e) \<Rightarrow> (Inl e, U\<lparr>HostPort := hp\<rparr>)
     | Some (Inr n) \<Rightarrow> (Inr (), U\<lparr>HostPort := hp, Port := of_nat n,
           Topic := (case m 11 of None \<Rightarrow> Topic U | Some t \<Rightarrow> t)\<rparr>)
     | None \<Rightarrow> (Inr (), U\<lparr>HostPort := hp,
           Topic := (case m 11 of None \<Rightarrow> Topic U | Some t \<Rightarrow> t)\<rparr>))"
  using assms by (auto simp: parse_def Let_def prog_defs split: option.splits sum.splits)

lemma parse_unmatched:
  "regex_match uri_regex s = None \<Longrightarrow>
   parse s U = (Inl (Throw (RuntimeError (''Unable to extract host from the URI: '' @ s))), U)"
  by (simp add: parse_def prog_defs)

lemma parse_text:
  assumes "address_ok sch host t" and "padding_ok ws p t ws'"
  shows "parse (ws @ address_text sch host p t @ ws') U =
    (if \<exists>n. p = Some n \<and> 2147483647 < n then (Inl (Throw OutOfRange), U\<lparr>HostPort := host @ port_text p\<rparr>)
     else (Inr (), U\<lparr>HostPort := host @ port_text p,
       Port := (case p of None \<Rightarrow> Port U | Some n \<Rightarrow> of_nat n),
       Topic := (case t of None \<Rightarrow> Topic U | Some x \<Rightarrow> x)\<rparr>))"
proof -
  obtain m where m: "regex_match uri_regex (ws @ address_text sch host p t @ ws') = Some m"
      "m 6 = Some (host @ port_text p)" "m 10 = map_option dec p" "m 11 = t"
    using regex_match_address [OF assms] .
  show ?thesis
    unfolding parse_matched [OF m(1,2)] m(3,4)
    by (auto simp: stoi_digits_def split: option.splits)
qed

section \<open>Properties\<close>



text \<open>Whatever string \<open>URI::parse\<close> accepts, the \<open>HostPort\<close> it stores is a non-empty
  host without \<open>/ ? # :\<close> and an optional colon and port number, \<open>Port\<close> is that number
  (or unchanged when there is none) and \<open>Topic\<close> is unchanged or a non-empty name of topic
  characters.\<close>

theorem parse_accepted_shape:
  assumes "parse s U = (Inr (), U')"
  shows "\<exists>host port. HostPort U' = host @ port \<and> host \<noteq> [] \<and> list_all host_char host \<and>
    (port = [] \<and> Port U' = Port U \<or>
     (\<exists>ds. port = '':'' @ ds \<and> ds \<noteq> [] \<and> list_all is_digit ds \<and>
        dec_val ds \<le> 2147483647 \<and> Port U' = of_nat (dec_val ds))) \<and>
    (Topic U' = Topic U \<or> Topic U' \<noteq> [] \<and> list_all topic_char (Topic U'))"
proof (cases "regex_match uri_regex s")
  case None
  with assms show ?thesis by (simp add: parse_unmatched)
next
  case (Some m)
  from regex_match_uri_shape [OF Some] obtain host port where hp: "m 6 = Some (host @ port)"
      "host \<noteq> []" "list_all host_char host"
    and port: "port = [] \<and> m 10 = None \<or>
       (\<exists>ds. port = CHR '':'' # ds \<and> ds \<noteq> [] \<and> list_all is_digit ds \<and> m 10 = Some ds)"
    and topic: "m 11 = None \<or> (\<exists>t. t \<noteq> [] \<and> list_all topic_char t \<and> m 11 = Some t)"
    by blast
  from assms parse_matched [OF Some hp(1), of U] port topic show ?thesis
    by (intro exI [of _ host] exI [of _ port])
       (auto simp: hp stoi_digits_def split: if_splits)
qed

theorem parse_accepted_shape_witness:
  "parse ''h:80'' (URI_default\<lparr>Topic := ''t''\<rparr>) = (Inr (), \<lparr>HostPort = ''h:80'', Port = 80, Topic = ''t''\<rparr>) \<and>
   (\<exists>host port. ''h:80'' = host @ port \<and> host \<noteq> [] \<and> list_all host_char host)"
proof -
  have ok: "address_ok NoScheme ''h'' None" "padding_ok [] (Some 80) None []"
    and texts: "address_text NoScheme ''h'' (Some 80) None = ''h:80''" "port_text (Some 80) = '':80''"
      "stoi_digits (dec 80) = Inr 80"
    by (simp_all add: address_ok_def padding_ok_def host_char_def space_char_def
          address_text_def port_text_def topic_text_def stoi_digits_def, simp_all add: dec.simps)
  obtain m where m: "regex_match uri_regex ''h:80'' = Some m" "m 6 = Some ''h:80''"
      "m 10 = Some (dec 80)" "m 11 = None"
    using regex_match_address [OF ok] by (auto simp: texts)
  have run: "parse ''h:80'' (URI_default\<lparr>Topic := ''t''\<rparr>)
      = (Inr (), \<lparr>HostPort = ''h:80'', Port = 80, Topic = ''t''\<rparr>)"
    unfolding parse_matched [OF m(1,2)] m(3,4) by (simp add: texts URI_default_def)
  from parse_accepted_shape [OF run] run show ?thesis by auto
qed



text \<open>C35: \<open>URI::getURIString\<close> and the constructor \<open>URI(std::string)\<close> are inverse on
  addresses with a topic: parsing what \<open>getURIString\<close> prints gives the same three
  fields back.\<close>

theorem getURIString_roundtrip:
  assumes ok: "address_ok NoScheme host (Some t)" and "\<forall>n. p = Some n \<longrightarrow> n \<le> 2147483647"
    and u: "u = \<lparr>HostPort = host @ port_text p, Port = (case p of None \<Rightarrow> 0 | Some n \<Rightarrow> of_nat n), Topic = t\<rparr>"
  shows "new_URI (getURIString u) = Inr u"
proof -
  have "padding_ok [] p (Some t) []" by (simp add: padding_ok_def)
  moreover have "getURIString u = [] @ address_text NoScheme host p (Some t) @ []"
    by (simp add: u getURIString_def address_text_def topic_text_def)
  ultimately obtain m where m: "regex_match uri_regex (getURIString u) = Some m"
      "m 6 = Some (host @ port_text p)" "m 10 = map_option dec p" "m 11 = Some t"
    using regex_match_address [OF ok] by metis
  show ?thesis
    unfolding new_URI_def parse_matched [OF m(1,2)] m(3,4)
    using assms(2) by (simp add: u stoi_digits_def URI_default_def split: option.split)
qed

theorem getURIString_roundtrip_witness:
  "new_URI (getURIString \<lparr>HostPort = ''localhost:9092'', Port = 9092, Topic = ''TEST_writerCommand''\<rparr>)
   = Inr \<lparr>HostPort = ''localhost:9092'', Port = 9092, Topic = ''TEST_writerCommand''\<rparr>"
proof -
  have ok: "address_ok NoScheme ''localhost'' (Some ''TEST_writerCommand'')"
    by (simp add: address_ok_def host_char_def topic_char_def space_char_def)
  have "port_text (Some 9092) = '':9092''" by (simp add: port_text_def dec.simps)
  with getURIString_roundtrip [OF ok, of "Some 9092"] show ?thesis by simp
qed

end
