(* ===== verification/Kafka_Instances.thy ===== *)
theory Kafka_Instances
  imports Kafka_Producer Uri Pv_Data "HOL-Library.List_Lexorder" "HOL-Library.Char_ord"
begin

text \<open>
  \<open>Kafka.cpp\<close> (\<open>InstanceSet\<close>: one producer per broker address), the constructor of
  \<open>KafkaW::ProducerTopic\<close> and \<open>KafkaOutput.cpp\<close>. The producers are objects in a store, addressed by
  their \<open>ProducerID\<close>; \<open>ProducersByHost\<close> is the \<open>std::map\<close> as its list of entries in key order.
\<close>

record ProducerTopic =
  KafkaProducer :: nat
  Name :: string

record 'k InstanceSet =
  GlobalSettings :: BrokerSettings
  ProducersByHost :: "(string \<times> nat) list"
  Producers :: "nat \<rightharpoonup> 'k Producer"
  ProducerInstanceCount :: nat
  total_msgs_to_kafka :: u64
  total_bytes_to_kafka :: u64

definition new_InstanceSet :: "BrokerSettings \<Rightarrow> 'k InstanceSet" where
  "new_InstanceSet Settings = \<lparr>GlobalSettings = Settings, ProducersByHost = [],
     Producers = Map.empty, ProducerInstanceCount = 0,
     total_msgs_to_kafka = 0, total_bytes_to_kafka = 0\<rparr>"

text \<open>A call of a method of the producer behind a pointer.\<close>

definition on_producer :: "nat \<Rightarrow> ('k Producer, 'a) prog \<Rightarrow> ('k InstanceSet, 'a) prog" where
  "on_producer i m ks = (case Producers ks i of
     None \<Rightarrow> (Inl Crash, ks)
   | Some p \<Rightarrow> (case m p of (r, p') \<Rightarrow> (r, ks\<lparr>Producers := (Producers ks)(i \<mapsto> p')\<rparr>)))"

definition on_instance_count :: "(nat, 'a) prog \<Rightarrow> ('k InstanceSet, 'a) prog" where
  "on_instance_count m ks = (case m (ProducerInstanceCount ks) of
     (r, c) \<Rightarrow> (r, ks\<lparr>ProducerInstanceCount := c\<rparr>))"

definition new_ProducerTopic ::
  "'k rdkafka \<Rightarrow> nat \<Rightarrow> string \<Rightarrow> ('k InstanceSet, ProducerTopic) prog" where
  "new_ProducerTopic K ProducerRef TopicName =
     bnd (on_producer ProducerRef (get_st (\<lambda>p. rd_create_topic K (ProducerPtr p) TopicName))) (\<lambda>ok.
     if ok then ret \<lparr>KafkaProducer = ProducerRef, Name = TopicName\<rparr>
     else raise TopicCreationError)"

definition brokerAddress :: "'k InstanceSet \<Rightarrow> ProducerTopic \<Rightarrow> string res" where
  "brokerAddress ks t =
     bind_res (deref (Producers ks (KafkaProducer t))) (\<lambda>p. Inr (Address (ProducerBrokerSettings p)))"

definition createProducerTopic :: "'k rdkafka \<Rightarrow> URI \<Rightarrow> ('k InstanceSet, ProducerTopic) prog" where
  "createProducerTopic K Uri =
     bnd (get_st (\<lambda>ks. map_of (ProducersByHost ks) (HostPort Uri))) (\<lambda>it. case it of
       Some i \<Rightarrow> new_ProducerTopic K i (Topic Uri)
     | None \<Rightarrow>
         bnd (get_st GlobalSettings) (\<lambda>Settings.
         bnd (on_instance_count (new_Producer K (Settings\<lparr>Address := HostPort Uri\<rparr>))) (\<lambda>p.
         thn (upd_st (\<lambda>ks. ks\<lparr>Producers := (Producers ks)(ProducerID p \<mapsto> p),
                ProducersByHost := insort_key fst (HostPort Uri, ProducerID p) (ProducersByHost ks)\<rparr>))
         (new_ProducerTopic K (ProducerID p) (Topic Uri)))))"

definition instances_poll :: "'k rdkafka \<Rightarrow> ('k InstanceSet, unit) prog" where
  "instances_poll K =
     bnd (get_st ProducersByHost) (\<lambda>hs. for_each (\<lambda>(h, i). on_producer i (producer_poll K)) hs)"

text \<open>
  The destruction of the set: the producers are destroyed in the order of the map when nothing else holds them. What
  a producer was at its end stays visible in \<open>Producers\<close>.
\<close>

definition delete_InstanceSet :: "'k rdkafka \<Rightarrow> ('k InstanceSet, unit) prog" where
  "delete_InstanceSet K =
     bnd (get_st ProducersByHost) (\<lambda>hs.
     thn (for_each (\<lambda>(h, i). on_producer i (delete_Producer K)) hs) (upd_st (\<lambda>ks. ks\<lparr>ProducersByHost := []\<rparr>)))"

text \<open>The figures \<open>logMetrics\<close> writes to the log, and the statistics.\<close>

definition logMetrics :: "'k rdkafka \<Rightarrow> ('k InstanceSet, (string \<times> u64 \<times> nat) list) prog" where
  "logMetrics K =
     bnd (get_st ProducersByHost) (\<lambda>hs. map_prog (\<lambda>(h, i).
       on_producer i (get_st (\<lambda>p. (h, TotalMessagesProduced p, outputQueueLength K p)))) hs)"

definition getStatsForAllProducers :: "('k InstanceSet, ProducerStats list) prog" where
  "getStatsForAllProducers =
     bnd (get_st ProducersByHost) (\<lambda>hs. map_prog (\<lambda>(h, i). on_producer i (get_st Stats)) hs)"

section \<open>KafkaOutput\<close>

text \<open>
  \<open>FlatbufferMessage::message\<close>: the bytes the builder holds, and an empty slice when there is no
  builder. \<open>serialize\<close>, the bytes the flatbuffer library builds for a table, is a parameter.
\<close>

fun FlatbufferMessage_message :: "('t \<Rightarrow> u8 list) \<Rightarrow> 't option \<Rightarrow> u8 list" where
  "FlatbufferMessage_message serialize None = []"
| "FlatbufferMessage_message serialize (Some builder) = serialize builder"

definition KafkaOutput_emit ::
  "'k rdkafka \<Rightarrow> ('t \<Rightarrow> u8 list) \<Rightarrow> ProducerTopic \<Rightarrow> 't FlatbufferMessage option \<Rightarrow>
   ('k InstanceSet, int) prog" where
  "KafkaOutput_emit K serialize Output fb = (case fb of
     None \<Rightarrow> ret (- 1024)
   | Some msg \<Rightarrow>
       (let m1 = FlatbufferMessage_message serialize (Some (table msg)) in
        bnd (on_producer (KafkaProducer Output) (produce_owned K (Name Output)
               \<lparr>Data = m1, Size = of_nat (length m1), MsgKey = Key msg\<rparr>)) (\<lambda>x.
        if x = 0
        then thn (upd_st (total_msgs_to_kafka_update (\<lambda>n. n + 1)))
             (thn (upd_st (total_bytes_to_kafka_update (\<lambda>n. n + of_nat (length m1)))) (ret x))
        else ret x)))"

lemma KafkaOutput_emit_None: "KafkaOutput_emit K serialize out None ks = (Inr (- 1024), ks)"
  by (simp add: KafkaOutput_emit_def prog_defs)

section \<open>The invariant\<close>

text \<open>
  The map has one entry per host in key order, each naming its own producer, which sends to that
  host and keeps its own invariant.
\<close>

definition instances_ok :: "('k \<Rightarrow> nat multiset) \<Rightarrow> 'k InstanceSet \<Rightarrow> bool" where
  "instances_ok pending ks \<longleftrightarrow>
     sorted (map fst (ProducersByHost ks)) \<and> distinct (map fst (ProducersByHost ks))
     \<and> distinct (map snd (ProducersByHost ks))
     \<and> (\<forall>i. Producers ks i \<noteq> None \<longrightarrow> i < ProducerInstanceCount ks)
     \<and> (\<forall>h i. (h, i) \<in> set (ProducersByHost ks) \<longrightarrow>
          (\<exists>p. Producers ks i = Some p \<and> Address (ProducerBrokerSettings p) = h))
     \<and> (\<forall>i p. Producers ks i = Some p \<longrightarrow> producer_ok pending p)"

lemma new_InstanceSet_ok: "instances_ok pending (new_InstanceSet Settings)"
  by (simp add: instances_ok_def new_InstanceSet_def)

lemma on_producer_ok:
  assumes "instances_ok pending ks" "Producers ks i = Some p"
    and "m p = (r, p')" "producer_ok pending p'" "ProducerBrokerSettings p' = ProducerBrokerSettings p"
  shows "on_producer i m ks = (r, ks\<lparr>Producers := (Producers ks)(i \<mapsto> p')\<rparr>)
     \<and> instances_ok pending (ks\<lparr>Producers := (Producers ks)(i \<mapsto> p')\<rparr>)"
  using assms by (fastforce simp: on_producer_def instances_ok_def)


lemma map_of_insort:
  "k \<notin> fst ` set xs \<Longrightarrow> map_of (insort_key fst (k, v) xs) = (map_of xs)(k \<mapsto> v)"
  by (induction xs) (auto simp: fun_eq_iff)

lemma distinct_snd_insort:
  "distinct (map snd (insort_key fst (k, v) xs)) \<longleftrightarrow> v \<notin> snd ` set xs \<and> distinct (map snd xs)"
  by (induction xs) (auto simp: set_insort_key)

lemma map_of_None_fst: "map_of xs k = None \<Longrightarrow> k \<notin> fst ` set xs"
  by (simp add: map_of_eq_None_iff)

lemma new_ProducerTopic_run:
  "Producers ks i = Some p \<Longrightarrow>
   new_ProducerTopic K i n ks =
     (if rd_create_topic K (ProducerPtr p) n then Inr \<lparr>KafkaProducer = i, Name = n\<rparr>
      else Inl (Throw TopicCreationError), ks)"
  by (simp add: new_ProducerTopic_def on_producer_def prog_defs map_upd_triv)

lemma new_Producer_throws:
  "new_Producer K Settings i = (Inl e, i') \<Longrightarrow> \<exists>x. e = Throw x \<and> is_runtime_error x"
proof -
  have "apply_items K items = Inl e \<Longrightarrow> \<exists>x. e = Throw (RuntimeError x)" for items e
    by (induction items) (auto simp: bind_res_def split: if_splits sum.splits)
  then show "new_Producer K Settings i = (Inl e, i') \<Longrightarrow> \<exists>x. e = Throw x \<and> is_runtime_error x"
    by (fastforce simp: new_Producer_def apply_settings_def prog_defs
        split: sum.splits failure.splits if_splits option.splits)
qed

lemma new_Producer_count: "new_Producer K Settings i = (r, i') \<Longrightarrow> i' = Suc i"
  by (auto simp: new_Producer_def prog_defs split: sum.splits failure.splits if_splits option.splits)

context rd_client
begin

text \<open>A new producer is registered under its host.\<close>

lemma register_ok:
  assumes "instances_ok pending ks" "map_of (ProducersByHost ks) h = None"
    and "new_Producer K (S\<lparr>Address := h\<rparr>) (ProducerInstanceCount ks) = (Inr p, c)"
  shows "instances_ok pending (ks\<lparr>ProducerInstanceCount := c, Producers := (Producers ks)(ProducerID p \<mapsto> p),
     ProducersByHost := insort_key fst (h, ProducerID p) (ProducersByHost ks)\<rparr>)"
proof -
  have p: "producer_ok pending p" "ProducerBrokerSettings p = S\<lparr>Address := h\<rparr>"
      "ProducerID p = ProducerInstanceCount ks" "c = Suc (ProducerInstanceCount ks)"
    using new_Producer_ok [OF assms(3)] by auto
  have fresh: "Producers ks (ProducerInstanceCount ks) = None"
    using assms(1) by (auto simp: instances_ok_def)
  then have "ProducerInstanceCount ks \<notin> snd ` set (ProducersByHost ks)"
    using assms(1) by (force simp: instances_ok_def)
  then show ?thesis
    using assms(1) p map_of_None_fst [OF assms(2)]
    by (fastforce simp: instances_ok_def sorted_insort_key distinct_insort_key distinct_snd_insort
        set_insort_key less_Suc_eq)
qed

lemma createProducerTopic_ok:
  assumes "instances_ok pending ks" "createProducerTopic K uri ks = (r, ks')"
  shows "instances_ok pending ks' \<and> GlobalSettings ks' = GlobalSettings ks
     \<and> (\<forall>h. h \<noteq> HostPort uri \<or> map_of (ProducersByHost ks) h \<noteq> None \<longrightarrow>
           map_of (ProducersByHost ks') h = map_of (ProducersByHost ks) h)
     \<and> (\<forall>i p. Producers ks i = Some p \<longrightarrow> Producers ks' i = Some p)
     \<and> (case r of
          Inr t \<Rightarrow> Name t = Topic uri \<and> brokerAddress ks' t = Inr (HostPort uri)
                   \<and> map_of (ProducersByHost ks') (HostPort uri) = Some (KafkaProducer t)
        | Inl e \<Rightarrow> \<exists>x. e = Throw x \<and> is_runtime_error x)"
proof (cases "map_of (ProducersByHost ks) (HostPort uri)")
  case (Some i)
  then obtain p where "Producers ks i = Some p" "Address (ProducerBrokerSettings p) = HostPort uri"
    using assms(1) map_of_SomeD [OF Some] unfolding instances_ok_def by blast
  with Some assms show ?thesis
    by (auto simp: createProducerTopic_def new_ProducerTopic_run brokerAddress_def prog_defs
        split: if_splits)
next
  case None
  let ?S = "GlobalSettings ks\<lparr>Address := HostPort uri\<rparr>"
  obtain r1 c where np: "new_Producer K ?S (ProducerInstanceCount ks) = (r1, c)" by fastforce
  show ?thesis
  proof (cases r1)
    case (Inl e)
    then have "\<exists>x. e = Throw x \<and> is_runtime_error x" "c = Suc (ProducerInstanceCount ks)"
      using np new_Producer_throws new_Producer_count by blast+
    moreover have "r = Inl e" "ks' = ks\<lparr>ProducerInstanceCount := c\<rparr>"
      using None Inl np assms(2) by (auto simp: createProducerTopic_def on_instance_count_def prog_defs)
    ultimately show ?thesis
      using assms(1) by (auto simp: instances_ok_def less_Suc_eq)
  next
    case (Inr p)
    let ?ks = "ks\<lparr>ProducerInstanceCount := c, Producers := (Producers ks)(ProducerID p \<mapsto> p),
      ProducersByHost := insort_key fst (HostPort uri, ProducerID p) (ProducersByHost ks)\<rparr>"
    have ok: "instances_ok pending ?ks" by (rule register_ok [OF assms(1) None np [unfolded Inr]])
    have new: "ProducerBrokerSettings p = ?S" "Producers ks (ProducerID p) = None"
      using new_Producer_ok [OF np [unfolded Inr]] assms(1) by (auto simp: instances_ok_def)
    have "createProducerTopic K uri ks = new_ProducerTopic K (ProducerID p) (Topic uri) ?ks"
      using None Inr np by (simp add: createProducerTopic_def on_instance_count_def prog_defs)
    then show ?thesis
      using assms(2) ok new None map_of_None_fst [OF None]
      by (auto simp: new_ProducerTopic_run map_of_insort brokerAddress_def split: if_splits)
  qed
qed

lemma produce_owned_in_set:
  assumes "instances_ok pending ks" "Producers ks i = Some p"
  shows "\<exists>x p'. on_producer i (produce_owned K t obj) ks = (Inr x, ks\<lparr>Producers := (Producers ks)(i \<mapsto> p')\<rparr>)
     \<and> instances_ok pending (ks\<lparr>Producers := (Producers ks)(i \<mapsto> p')\<rparr>) \<and> (x = 0 \<or> x = 1)"
proof -
  have p: "producer_ok pending p" using assms by (simp add: instances_ok_def)
  obtain x p' where x: "produce_owned K t obj p = (Inr x, p')" "producer_ok pending p'"
    using produce_owned_ok [OF p] by blast
  have "ProducerBrokerSettings p' = ProducerBrokerSettings p"
    using keeps_invD [OF produce_owned_settings, of p "ProducerBrokerSettings p" K t obj] x by simp
  moreover have "x = 0 \<or> x = 1"
  proof -
    obtain c k' where "rd_produce K t (take (unat (Size obj)) (Data obj))
        (if MsgKey obj \<noteq> [] then Some (MsgKey obj) else None) (NextMessage p)
        (snd (snd (rd_poll K 0 (ProducerPtr p)))) = (c, k')" by fastforce
    from produce_owned_result [OF p this] x show ?thesis by (auto split: if_splits)
  qed
  ultimately show ?thesis
    using on_producer_ok [OF assms, of "produce_owned K t obj" "Inr x" p'] x by blast
qed

lemma poll_in_set:
  assumes "instances_ok pending ks" "Producers ks i = Some p"
  shows "\<exists>p'. on_producer i (producer_poll K) ks = (Inr (), ks\<lparr>Producers := (Producers ks)(i \<mapsto> p')\<rparr>)
     \<and> instances_ok pending (ks\<lparr>Producers := (Producers ks)(i \<mapsto> p')\<rparr>)"
proof -
  obtain p' where p': "producer_poll K p = (Inr (), p')" "producer_ok pending p'"
    using assms producer_poll_accounts [of "{#}" p] by (auto simp: instances_ok_def producer_ok_def)
  have "ProducerBrokerSettings p' = ProducerBrokerSettings p"
    using keeps_invD [OF producer_poll_settings, of p "ProducerBrokerSettings p" K] p' by simp
  with on_producer_ok [OF assms, of "producer_poll K" "Inr ()" p'] p' show ?thesis by blast
qed

lemma delete_in_set:
  assumes "instances_ok pending ks" "Producers ks i = Some p"
  shows "\<exists>p'. on_producer i (delete_Producer K) ks = (Inr (), ks\<lparr>Producers := (Producers ks)(i \<mapsto> p')\<rparr>)
     \<and> instances_ok pending (ks\<lparr>Producers := (Producers ks)(i \<mapsto> p')\<rparr>)"
proof -
  obtain p' where p': "delete_Producer K p = (Inr (), p')" "producer_ok pending p'"
    using assms drain_loop_ok [of p 80] by (auto simp: instances_ok_def delete_Producer_def)
  have "ProducerBrokerSettings p' = ProducerBrokerSettings p"
    using keeps_invD [OF delete_Producer_settings, of p "ProducerBrokerSettings p" K] p' by simp
  with on_producer_ok [OF assms, of "delete_Producer K" "Inr ()" p'] p' show ?thesis by blast
qed

text \<open>A call of every producer.\<close>

lemma each_producer:
  assumes "\<forall>ks i p. instances_ok pending ks \<longrightarrow> Producers ks i = Some p \<longrightarrow>
     (\<exists>p'. on_producer i m ks = (Inr (), ks\<lparr>Producers := (Producers ks)(i \<mapsto> p')\<rparr>)
       \<and> instances_ok pending (ks\<lparr>Producers := (Producers ks)(i \<mapsto> p')\<rparr>))"
    and "instances_ok pending ks" "\<forall>(h, i) \<in> set hs. Producers ks i \<noteq> None"
  shows "\<exists>ks'. for_each (\<lambda>(h, i). on_producer i m) hs ks = (Inr (), ks')
     \<and> instances_ok pending ks' \<and> ProducersByHost ks' = ProducersByHost ks"
  using assms(2,3)
proof (induction hs arbitrary: ks)
  case Nil
  then show ?case by (simp add: prog_defs)
next
  case (Cons hi hs)
  obtain h i where hi: "hi = (h, i)" by fastforce
  obtain p where "Producers ks i = Some p" using Cons.prems hi by auto
  then obtain p' where p': "on_producer i m ks = (Inr (), ks\<lparr>Producers := (Producers ks)(i \<mapsto> p')\<rparr>)"
      "instances_ok pending (ks\<lparr>Producers := (Producers ks)(i \<mapsto> p')\<rparr>)"
    using assms(1) Cons.prems(1) by blast
  with Cons.IH [OF p'(2)] Cons.prems(2) hi show ?case
    by (fastforce simp: run_thn)
qed

lemma poll_all:
  assumes "instances_ok pending ks" "\<forall>(h, i) \<in> set hs. Producers ks i \<noteq> None"
  shows "\<exists>ks'. for_each (\<lambda>(h, i). on_producer i (producer_poll K)) hs ks = (Inr (), ks')
     \<and> instances_ok pending ks' \<and> ProducersByHost ks' = ProducersByHost ks"
  by (rule each_producer [OF _ assms]) (use poll_in_set in blast)

lemma delete_all:
  assumes "instances_ok pending ks" "\<forall>(h, i) \<in> set hs. Producers ks i \<noteq> None"
  shows "\<exists>ks'. for_each (\<lambda>(h, i). on_producer i (delete_Producer K)) hs ks = (Inr (), ks')
     \<and> instances_ok pending ks' \<and> ProducersByHost ks' = ProducersByHost ks"
  by (rule each_producer [OF _ assms]) (use delete_in_set in blast)

lemma KafkaOutput_emit_ok:
  assumes "instances_ok pending ks" "Producers ks (KafkaProducer out) \<noteq> None"
  shows "\<exists>x ks'. KafkaOutput_emit K serialize out (Some msg) ks = (Inr x, ks')
       \<and> instances_ok pending ks' \<and> (x = 0 \<or> x = 1)
       \<and> total_msgs_to_kafka ks' = total_msgs_to_kafka ks + (if x = 0 then 1 else 0)
       \<and> total_bytes_to_kafka ks' = total_bytes_to_kafka ks
            + (if x = 0 then of_nat (length (serialize (table msg))) else 0)"
proof -
  obtain p where p: "Producers ks (KafkaProducer out) = Some p" using assms(2) by auto
  let ?b = "serialize (table msg)"
  obtain x p' where "on_producer (KafkaProducer out) (produce_owned K (Name out)
        \<lparr>Data = ?b, Size = of_nat (length ?b), MsgKey = Key msg\<rparr>) ks
      = (Inr x, ks\<lparr>Producers := (Producers ks)(KafkaProducer out \<mapsto> p')\<rparr>)"
      "instances_ok pending (ks\<lparr>Producers := (Producers ks)(KafkaProducer out \<mapsto> p')\<rparr>)" "x = 0 \<or> x = 1"
    using produce_owned_in_set [OF assms(1) p] by blast
  then show ?thesis
    by (auto simp: KafkaOutput_emit_def Let_def prog_defs instances_ok_def)
qed

lemma instances_poll_ok:
  assumes "instances_ok pending ks"
  shows "\<exists>ks'. instances_poll K ks = (Inr (), ks') \<and> instances_ok pending ks'"
proof -
  have "\<forall>(h, i) \<in> set (ProducersByHost ks). Producers ks i \<noteq> None"
    using assms by (fastforce simp: instances_ok_def)
  then show ?thesis
    using poll_all [OF assms] by (fastforce simp: instances_poll_def prog_defs)
qed

lemma delete_InstanceSet_ok:
  assumes "instances_ok pending ks"
  shows "\<exists>ks'. delete_InstanceSet K ks = (Inr (), ks') \<and> instances_ok pending ks' \<and> ProducersByHost ks' = []"
proof -
  have "\<forall>(h, i) \<in> set (ProducersByHost ks). Producers ks i \<noteq> None"
    using assms by (fastforce simp: instances_ok_def)
  then obtain ks1 where ks1: "for_each (\<lambda>(h, i). on_producer i (delete_Producer K)) (ProducersByHost ks) ks = (Inr (), ks1)"
      "instances_ok pending ks1"
    using delete_all [OF assms] by blast
  then have "instances_ok pending (ks1\<lparr>ProducersByHost := []\<rparr>)" by (simp add: instances_ok_def)
  with ks1(1) show ?thesis by (simp add: delete_InstanceSet_def prog_defs)
qed

end

section \<open>Properties\<close>

text \<open>C25: There is one producer per broker address. Asking for a topic gives a topic of that
  name on the producer of the address; the producer is created with the address the first time and
  shared from then on. The producers of all other addresses stay as they are, an address keeps its
  producer, and a failure (the handle or the topic cannot be created) is an exception derived from
  \<open>std::runtime_error\<close>.\<close>

theorem createProducerTopic_shared:
  assumes "rd_client K pending" "instances_ok pending ks" "createProducerTopic K uri ks = (r, ks')"
  shows "instances_ok pending ks'
     \<and> (\<forall>h. h \<noteq> HostPort uri \<or> map_of (ProducersByHost ks) h \<noteq> None \<longrightarrow>
           map_of (ProducersByHost ks') h = map_of (ProducersByHost ks) h)
     \<and> (\<forall>i p. Producers ks i = Some p \<longrightarrow> Producers ks' i = Some p)
     \<and> (case r of
          Inr t \<Rightarrow> Name t = Topic uri \<and> brokerAddress ks' t = Inr (HostPort uri)
                   \<and> map_of (ProducersByHost ks') (HostPort uri) = Some (KafkaProducer t)
        | Inl e \<Rightarrow> \<exists>x. e = Throw x \<and> is_runtime_error x)"
  using rd_client.createProducerTopic_ok [OF assms] by blast

lemma createProducerTopic_shared_witness:
  "\<exists>t ks'. createProducerTopic (list_client 9) \<lparr>HostPort = ''h'', Port = 9092, Topic = ''t''\<rparr>
       (new_InstanceSet BrokerSettings_default) = (Inr t, ks')
     \<and> brokerAddress ks' t = Inr ''h''"
proof -
  let ?u = "\<lparr>HostPort = ''h'', Port = 9092, Topic = ''t''\<rparr>"
  obtain r ks' where r: "createProducerTopic (list_client 9) ?u
      (new_InstanceSet BrokerSettings_default) = (r, ks')" by fastforce
  then obtain t where "r = Inr t"
    by (auto simp: createProducerTopic_def new_InstanceSet_def on_instance_count_def new_Producer_def
        new_ProducerTopic_def on_producer_def prog_defs)
  then show ?thesis
    using r createProducerTopic_shared [OF lc.rd_client_axioms new_InstanceSet_ok r] by auto
qed

text \<open>Sending a converted message: a missing message gives -1024 and changes nothing;
  otherwise the call returns 0 or 1 and the total numbers of messages and of bytes sent grow
  exactly when the client library accepted the message, by one and by the size of the message. The
  accounting of every producer stays intact, and so it does when all producers are polled.\<close>

theorem KafkaOutput_emit_counts:
  assumes "rd_client K pending" "instances_ok pending ks" "Producers ks (KafkaProducer out) \<noteq> None"
  shows "KafkaOutput_emit K serialize out None ks = (Inr (- 1024), ks)
     \<and> (\<exists>x ks'. KafkaOutput_emit K serialize out (Some msg) ks = (Inr x, ks')
       \<and> instances_ok pending ks' \<and> (x = 0 \<or> x = 1)
       \<and> total_msgs_to_kafka ks' = total_msgs_to_kafka ks + (if x = 0 then 1 else 0)
       \<and> total_bytes_to_kafka ks' = total_bytes_to_kafka ks
            + (if x = 0 then of_nat (length (serialize (table msg))) else 0))
     \<and> (\<exists>ks'. instances_poll K ks = (Inr (), ks') \<and> instances_ok pending ks')"
  by (intro conjI KafkaOutput_emit_None rd_client.KafkaOutput_emit_ok [OF assms]
      rd_client.instances_poll_ok [OF assms(1,2)])

definition one_producer :: "nat list InstanceSet" where
  "one_producer = (new_InstanceSet BrokerSettings_default)\<lparr>
     Producers := [0 \<mapsto> \<lparr>Stats = ProducerStats_default, TotalMessagesProduced = 0,
         ProducerBrokerSettings = BrokerSettings_default\<lparr>Address := ''h''\<rparr>, ProducerID = 0,
         ProducerPtr = [], Messages = Map.empty, NextMessage = 0\<rparr>],
     ProducersByHost := [(''h'', 0)], ProducerInstanceCount := 1\<rparr>"

lemma one_producer_ok: "instances_ok mset one_producer"
  by (auto simp: instances_ok_def one_producer_def new_InstanceSet_def producer_ok_def accounts_def
      ProducerStats_default_def split: if_splits)

lemma KafkaOutput_emit_counts_witness:
  "\<exists>x ks'. KafkaOutput_emit (list_client 9) (\<lambda>t. [t]) \<lparr>KafkaProducer = 0, Name = ''t''\<rparr>
     (Some \<lparr>table = 7, Key = ''k''\<rparr>) one_producer = (Inr x, ks') \<and> instances_ok mset ks'"
  using KafkaOutput_emit_counts [OF lc.rd_client_axioms one_producer_ok,
      of "\<lparr>KafkaProducer = 0, Name = ''t''\<rparr>" 9 "\<lambda>t. [t]" "\<lparr>table = 7, Key = ''k''\<rparr>"]
  by (auto simp: one_producer_def)

end
