(* ===== verification/Json_Access.thy ===== *)
theory Json_Access
  imports Fwd_Prelude
begin

text \<open>
  \<open>json.h\<close> and \<open>json.cpp\<close>: looking a key up in a JSON document without throwing.
  A \<open>nlohmann::json\<close> value is data; the two functions of that library which turn
  text into a value and back (\<open>json::parse\<close>, \<open>json::dump\<close>) are parameters of the
  definitions that call them. \<open>JsonMaybe<T>\<close> is \<open>'a option\<close>: \<open>None\<close> is
  \<open>found_ == false\<close>.
\<close>

datatype json =
    JNull
  | JBool bool
  | JInt int
  | JFloat u64
  | JString string
  | JArray "json list"
  | JObject "(string \<times> json) list"

fun is_object :: "json \<Rightarrow> bool" where
  "is_object (JObject _) = True"
| "is_object _ = False"

fun is_array :: "json \<Rightarrow> bool" where
  "is_array (JArray _) = True"
| "is_array _ = False"

text \<open>\<open>json::get<std::string>()\<close>: \<open>None\<close> where it throws \<open>type_error\<close>.\<close>

fun get_string :: "json \<Rightarrow> string option" where
  "get_string (JString s) = Some s"
| "get_string _ = None"

text \<open>\<open>JsonMaybe<T>::inner\<close>.\<close>

definition inner :: "'a option \<Rightarrow> 'a res" where
  "inner m = (case m of
     None \<Rightarrow> Inl (Throw (RuntimeError ''Can not retrieve inner() on empty JsonMaybe''))
   | Some x \<Rightarrow> Inr x)"

text \<open>\<open>find<T>(Key, Json)\<close>, with \<open>get\<close> the conversion \<open>get<T>()\<close>.\<close>

definition find_as :: "(json \<Rightarrow> 'a option) \<Rightarrow> string \<Rightarrow> json \<Rightarrow> 'a option" where
  "find_as get Key Json = (case Json of
     JObject kvs \<Rightarrow> (case map_of kvs Key of None \<Rightarrow> None | Some v \<Rightarrow> get v)
   | _ \<Rightarrow> None)"

definition find_string :: "string \<Rightarrow> json \<Rightarrow> string option" where
  "find_string = find_as get_string"

definition find_json :: "string \<Rightarrow> json \<Rightarrow> json option" where
  "find_json = find_as Some"

definition find_array :: "string \<Rightarrow> json \<Rightarrow> json option" where
  "find_array Key Json = (case Json of
     JObject kvs \<Rightarrow> (case map_of kvs Key of
        None \<Rightarrow> None
      | Some v \<Rightarrow> (if is_array v then Some v else None))
   | _ \<Rightarrow> None)"

text \<open>What is found is an entry of the object; a document that is no object has none.\<close>

lemma find_as_Some_iff:
  "find_as get Key Json = Some x \<longleftrightarrow>
     (\<exists>kvs v. Json = JObject kvs \<and> map_of kvs Key = Some v \<and> get v = Some x)"
  by (auto simp: find_as_def split: json.splits option.splits)

lemma find_string_Some_iff:
  "find_string Key Json = Some s \<longleftrightarrow>
     (\<exists>kvs. Json = JObject kvs \<and> map_of kvs Key = Some (JString s))"
  by (auto simp: find_string_def find_as_Some_iff elim: get_string.elims)

lemma find_json_Some_iff:
  "find_json Key Json = Some v \<longleftrightarrow> (\<exists>kvs. Json = JObject kvs \<and> map_of kvs Key = Some v)"
  by (auto simp: find_json_def find_as_Some_iff)

lemma find_string_object: "find_string Key Json = Some s \<Longrightarrow> is_object Json"
  by (auto simp: find_string_Some_iff)

lemma find_array_json:
  "find_array Key Json = (case find_json Key Json of
     None \<Rightarrow> None | Some v \<Rightarrow> if is_array v then Some v else None)"
  by (auto simp: find_array_def find_json_def find_as_def split: json.splits option.splits)

end
