(* ===== verification/Converter.thy ===== *)
theory Converter
  imports F142 Tdc_Time Kafka_Instances Json_Access
begin

text \<open>
  \<open>SchemaRegistry.h\<close>, \<open>FlatBufferCreator.h\<close>, \<open>Converter.cpp\<close> and the conversion paths of
  \<open>Stream.cpp\<close>. The schema plugins are the two that the program registers. A converter object is
  shared; the state of a creator is its own statistics, and what the two plugins keep globally (the
  severity table and the sequence number) is the record \<open>ConverterGlobals\<close>.
\<close>

section \<open>Schemas\<close>

datatype SchemaInfo = F142Info | TdcInfo

datatype FlatBufferCreator = F142Creator Statistics | TdcCreator

fun createConverter :: "SchemaInfo \<Rightarrow> FlatBufferCreator" where
  "createConverter F142Info =
     F142Creator \<lparr>err_timestamp_not_available = 0, err_not_implemented_yet = 0\<rparr>"
| "createConverter TdcInfo = TdcCreator"

text \<open>\<open>SchemaRegistry::registerSchema\<close>: a later registration replaces an earlier one.\<close>

definition registerSchema ::
  "string \<Rightarrow> SchemaInfo \<Rightarrow> (string \<rightharpoonup> SchemaInfo) \<Rightarrow> (string \<rightharpoonup> SchemaInfo)" where
  "registerSchema FlatbufferID SchemaInfoPtr SchemaMap = SchemaMap(FlatbufferID \<mapsto> SchemaInfoPtr)"

definition registerSchemas :: "(string \<rightharpoonup> SchemaInfo) \<Rightarrow> (string \<rightharpoonup> SchemaInfo)" where
  "registerSchemas SchemaMap =
     registerSchema ''TdcTime'' TdcInfo (registerSchema ''f142'' F142Info SchemaMap)"

section \<open>Converters\<close>

record Converter =
  schema :: string
  conv :: FlatBufferCreator

text \<open>
  \<open>Converter::create\<close>: null for an unknown schema. \<open>config\<close> of both plugins does nothing with
  the global converter settings.
\<close>

definition Converter_create :: "(string \<rightharpoonup> SchemaInfo) \<Rightarrow> string \<Rightarrow> Converter option" where
  "Converter_create items sch = (case items sch of
     None \<Rightarrow> None
   | Some info \<Rightarrow> Some \<lparr>schema = sch, conv = createConverter info\<rparr>)"

text \<open>Parameters of the conversion: the schema compiler's enumerations and the EPICS type tests.\<close>

record ConverterEnv =
  isNTEnum :: "pvfield \<Rightarrow> bool"
  isNTScalarArray :: "pvfield \<Rightarrow> bool"
  Alarms :: AlarmSchema
  Severities :: SeveritySchema

record ConverterGlobals =
  GlobalSeverityMap :: "int \<rightharpoonup> nat"
  SequenceNumber :: u64

datatype fb_table = F142Table LogData | TdcTable timestamp_table

definition wrap_message :: "('t \<Rightarrow> fb_table) \<Rightarrow> 't FlatbufferMessage \<Rightarrow> fb_table FlatbufferMessage" where
  "wrap_message f m = \<lparr>table = f (table m), Key = Key m\<rparr>"

text \<open>\<open>conv->create(up)\<close>, by the dynamic type of the creator.\<close>

fun creator_create :: "ConverterEnv \<Rightarrow> EpicsPVUpdate \<Rightarrow>
  (FlatBufferCreator \<times> ConverterGlobals, fb_table FlatbufferMessage option) prog" where
  "creator_create E up (F142Creator st, g) =
     (case f142_create (isNTEnum E) (Alarms E) (Severities E) up
             \<lparr>ConvStats = st, SeverityMap = GlobalSeverityMap g\<rparr> of
        (r, s) \<Rightarrow> (bind_res r (\<lambda>m. Inr (Some (wrap_message F142Table m))),
                   (F142Creator (ConvStats s), g\<lparr>GlobalSeverityMap := SeverityMap s\<rparr>)))"
| "creator_create E up (TdcCreator, g) =
     (case tdc_create (isNTScalarArray E) up (SequenceNumber g) of
        (r, n) \<Rightarrow> (bind_res r (\<lambda>m. Inr (map_option (wrap_message TdcTable) m)),
                   (TdcCreator, g\<lparr>SequenceNumber := n\<rparr>)))"

definition Converter_convert ::
  "ConverterEnv \<Rightarrow> EpicsPVUpdate \<Rightarrow> (Converter \<times> ConverterGlobals, fb_table FlatbufferMessage option) prog" where
  "Converter_convert E up = (\<lambda>(c, g). case creator_create E up (conv c, g) of
     (r, (cr, g')) \<Rightarrow> (r, (c\<lparr>conv := cr\<rparr>, g')))"

text \<open>
  \<open>Converter::stats\<close>, by the dynamic type of the creator. The set of ranges whose size the f142 plugin
  reports is never written to.
\<close>

fun creator_getStats :: "FlatBufferCreator \<Rightarrow> (string \<times> u64) list" where
  "creator_getStats (F142Creator st) = [(''ranges_n'', 0)]"
| "creator_getStats TdcCreator = []"

definition Converter_stats :: "Converter \<Rightarrow> (string \<times> u64) list" where
  "Converter_stats c = creator_getStats (conv c)"

section \<open>Conversion paths\<close>

record ConversionPath =
  path_converter :: nat
  kafka_output :: ProducerTopic

text \<open>The objects a conversion works on.\<close>

record 'k conv_store =
  Paths :: "nat \<rightharpoonup> ConversionPath"
  Converters :: "nat \<rightharpoonup> Converter"
  Globals :: ConverterGlobals
  KafkaSet :: "'k InstanceSet"

definition on_converter ::
  "nat \<Rightarrow> (Converter \<times> ConverterGlobals, 'a) prog \<Rightarrow> (('k, 'z) conv_store_scheme, 'a) prog" where
  "on_converter i m s = (case Converters s i of
     None \<Rightarrow> (Inl Crash, s)
   | Some c \<Rightarrow> (case m (c, Globals s) of
       (r, (c', g)) \<Rightarrow> (r, s\<lparr>Converters := (Converters s)(i \<mapsto> c'), Globals := g\<rparr>)))"

definition on_kafka_set ::
  "('k InstanceSet, 'a) prog \<Rightarrow> (('k, 'z) conv_store_scheme, 'a) prog" where
  "on_kafka_set m s = (case m (KafkaSet s) of (r, k) \<Rightarrow> (r, s\<lparr>KafkaSet := k\<rparr>))"

definition path_emit ::
  "'k rdkafka \<Rightarrow> ConverterEnv \<Rightarrow> (fb_table \<Rightarrow> u8 list) \<Rightarrow> nat \<Rightarrow> EpicsPVUpdate \<Rightarrow>
   (('k, 'z) conv_store_scheme, int) prog" where
  "path_emit K E serialize path up =
     bnd (get_st (\<lambda>s. Paths s path)) (\<lambda>p.
     bnd (of_res (deref p)) (\<lambda>P.
     bnd (on_converter (path_converter P) (Converter_convert E up)) (\<lambda>fb.
     case fb of
       None \<Rightarrow> ret 1
     | Some m \<Rightarrow>
         thn (on_kafka_set (KafkaOutput_emit K serialize (kafka_output P) (Some m))) (ret 0))))"

definition getKafkaTopicName :: "('k, 'z) conv_store_scheme \<Rightarrow> nat \<Rightarrow> string res" where
  "getKafkaTopicName s path = bind_res (deref (Paths s path)) (\<lambda>P. Inr (Name (kafka_output P)))"

definition getSchemaName :: "('k, 'z) conv_store_scheme \<Rightarrow> nat \<Rightarrow> string res" where
  "getSchemaName s path = bind_res (deref (Paths s path)) (\<lambda>P.
     bind_res (deref (Converters s (path_converter P))) (\<lambda>c. Inr (schema c)))"

definition path_status_json :: "('k, 'z) conv_store_scheme \<Rightarrow> nat \<Rightarrow> json res" where
  "path_status_json s path =
     bind_res (getSchemaName s path) (\<lambda>sch.
     bind_res (deref (Paths s path)) (\<lambda>P.
     bind_res (brokerAddress (KafkaSet s) (kafka_output P)) (\<lambda>b.
     Inr (JObject [(''broker'', JString b), (''schema'', JString sch),
                   (''topic'', JString (Name (kafka_output P)))]))))"

text \<open>
  \<open>Stream::addConverter\<close> on the vector \<open>ConversionPaths\<close>: a path whose topic and schema are those
  of a path the stream has is not added.
\<close>

definition same_output :: "('k, 'z) conv_store_scheme \<Rightarrow> nat \<Rightarrow> nat \<Rightarrow> bool res" where
  "same_output s Path TestPath =
     bind_res (getKafkaTopicName s Path) (\<lambda>t1. bind_res (getKafkaTopicName s TestPath) (\<lambda>t2.
     if t1 \<noteq> t2 then Inr False
     else bind_res (getSchemaName s Path) (\<lambda>n1. bind_res (getSchemaName s TestPath) (\<lambda>n2.
          Inr (n1 = n2)))))"

fun find_output :: "('k, 'z) conv_store_scheme \<Rightarrow> nat \<Rightarrow> nat list \<Rightarrow> bool res" where
  "find_output s Path [] = Inr False"
| "find_output s Path (TestPath # ps) =
     bind_res (same_output s Path TestPath) (\<lambda>b. if b then Inr True else find_output s Path ps)"

definition addConverter ::
  "('k, 'z) conv_store_scheme \<Rightarrow> nat \<Rightarrow> nat list \<Rightarrow> (int \<times> nat list) res" where
  "addConverter s Path ConversionPaths =
     bind_res (find_output s Path ConversionPaths) (\<lambda>FoundPath.
     Inr (if FoundPath then (1, ConversionPaths) else (0, ConversionPaths @ [Path])))"

section \<open>The contract of a creator\<close>

text \<open>
  What the pipeline relies on: on an update with the structure its schema expects, a creator
  returns (with a message or with none), and its state stays usable.
\<close>

locale flatbuffer_creator =
  fixes create :: "EpicsPVUpdate \<Rightarrow> ('s, 't option) prog"
    and usable :: "'s \<Rightarrow> bool"
    and accepts :: "EpicsPVUpdate \<Rightarrow> bool"
  assumes create_returns: "accepts u \<Longrightarrow> usable s \<Longrightarrow>
      \<exists>m s'. create u s = (Inr m, s') \<and> usable s'"
begin

lemma create_all_return:
  "\<forall>u \<in> set us. accepts u \<Longrightarrow> usable s \<Longrightarrow>
   \<exists>ms s'. map_prog create us s = (Inr ms, s') \<and> usable s' \<and> length ms = length us"
proof (induction us arbitrary: s)
  case Nil
  then show ?case by (simp add: prog_defs)
next
  case (Cons u us)
  then obtain m s1 where m: "create u s = (Inr m, s1)" "usable s1"
    using create_returns [of u s] by auto
  with Cons.IH [OF _ m(2)] Cons.prems(1) show ?case by (auto simp: prog_defs)
qed

end

text \<open>The updates the two plugins accept.\<close>

definition f142_accepts :: "ConverterEnv \<Rightarrow> EpicsPVUpdate \<Rightarrow> bool" where
  "f142_accepts E u \<longleftrightarrow> (case epics_pvstr u of
     None \<Rightarrow> False
   | Some pv \<Rightarrow> enum_ok (isNTEnum E) pv \<and> timestamp_ok pv \<and> (AlarmStatusChanged u \<longrightarrow> alarm_ok pv))"

fun creator_accepts :: "ConverterEnv \<Rightarrow> FlatBufferCreator \<Rightarrow> EpicsPVUpdate \<Rightarrow> bool" where
  "creator_accepts E (F142Creator st) u = f142_accepts E u"
| "creator_accepts E TdcCreator u = tdc_update_ok (isNTScalarArray E) u"

definition globals_ok :: "ConverterEnv \<Rightarrow> ConverterGlobals \<Rightarrow> bool" where
  "globals_ok E g \<longleftrightarrow> severity_map_ok (Severities E) (GlobalSeverityMap g)"

text \<open>The f142 creator and the TdcTime creator each provide the contract.\<close>

interpretation f142_creator: flatbuffer_creator
  "creator_create E" "\<lambda>s. (\<exists>st. fst s = F142Creator st) \<and> globals_ok E (snd s)" "f142_accepts E"
proof
  fix u :: EpicsPVUpdate and s :: "FlatBufferCreator \<times> ConverterGlobals"
  assume acc: "f142_accepts E u" and "(\<exists>st. fst s = F142Creator st) \<and> globals_ok E (snd s)"
  then obtain st g where s: "s = (F142Creator st, g)" and g: "globals_ok E g"
    by (cases s) auto
  from acc obtain pv where pv: "epics_pvstr u = Some pv" "enum_ok (isNTEnum E) pv" "timestamp_ok pv"
      "AlarmStatusChanged u \<longrightarrow> alarm_ok pv"
    by (auto simp: f142_accepts_def split: option.splits)
  from g f142_create_returns [OF pv, of "Severities E" "\<lparr>ConvStats = st, SeverityMap = GlobalSeverityMap g\<rparr>" "Alarms E"]
  show "\<exists>m s'. creator_create E u s = (Inr m, s') \<and> (\<exists>st. fst s' = F142Creator st) \<and> globals_ok E (snd s')"
    by (auto simp: s globals_ok_def)
qed

interpretation tdc_creator: flatbuffer_creator
  "creator_create E" "\<lambda>s. fst s = TdcCreator \<and> globals_ok E (snd s)" "tdc_update_ok (isNTScalarArray E)"
proof
  fix u :: EpicsPVUpdate and s :: "FlatBufferCreator \<times> ConverterGlobals"
  assume "tdc_update_ok (isNTScalarArray E) u" "fst s = TdcCreator \<and> globals_ok E (snd s)"
  then show "\<exists>m s'. creator_create E u s = (Inr m, s') \<and> fst s' = TdcCreator \<and> globals_ok E (snd s')"
    by (cases s) (auto simp: tdc_create_run globals_ok_def split: option.split)
qed


lemma creator_returns:
  assumes "creator_accepts E cr u" "globals_ok E g"
  shows "\<exists>m cr' g'. creator_create E u (cr, g) = (Inr m, (cr', g')) \<and> globals_ok E g'
     \<and> (case cr of F142Creator _ \<Rightarrow> m \<noteq> None | TdcCreator \<Rightarrow> (m \<noteq> None) = (tdc_payload u \<noteq> None))"
proof (cases cr)
  case (F142Creator st)
  with assms f142_creator.create_returns [of E u "(cr, g)"] show ?thesis
    by (auto simp: bind_res_Inr_iff split: prod.splits sum.splits)
next
  case TdcCreator
  with assms show ?thesis
    by (auto simp: tdc_create_run globals_ok_def split: option.split)
qed

lemma path_emit_returns:
  assumes "rd_client K pending" "instances_ok pending (KafkaSet s)" "globals_ok E (Globals s)"
    and "Paths s path = Some P" "Producers (KafkaSet s) (KafkaProducer (kafka_output P)) \<noteq> None"
    and "Converters s (path_converter P) = Some c" "creator_accepts E (conv c) up"
  shows "\<exists>x s'. path_emit K E serialize path up s = (Inr x, s') \<and> (x = 0 \<or> x = 1)
     \<and> instances_ok pending (KafkaSet s') \<and> globals_ok E (Globals s')
     \<and> (x = 1 \<longrightarrow> KafkaSet s' = KafkaSet s \<and> conv c = TdcCreator \<and> tdc_payload up = None)
     \<and> (x = 0 \<longrightarrow> (\<exists>msg code. KafkaOutput_emit K serialize (kafka_output P) (Some msg) (KafkaSet s)
                      = (Inr code, KafkaSet s')))"
proof -
  obtain m cr' g' where m: "creator_create E up (conv c, Globals s) = (Inr m, (cr', g'))" "globals_ok E g'"
      "case conv c of F142Creator _ \<Rightarrow> m \<noteq> None | TdcCreator \<Rightarrow> (m \<noteq> None) = (tdc_payload up \<noteq> None)"
    using creator_returns [OF assms(7,3)] by blast
  let ?s = "s\<lparr>Converters := (Converters s)(path_converter P \<mapsto> c\<lparr>conv := cr'\<rparr>), Globals := g'\<rparr>"
  have conv: "on_converter (path_converter P) (Converter_convert E up) s = (Inr m, ?s)"
    by (simp add: on_converter_def Converter_convert_def assms(6) m(1))
  show ?thesis
  proof (cases m)
    case None
    have "conv c = TdcCreator" "tdc_payload up = None"
      using m(3) None by (cases "conv c"; simp)+
    with None conv assms m(2) show ?thesis by (simp add: path_emit_def prog_defs)
  next
    case (Some msg)
    obtain x ks' where "KafkaOutput_emit K serialize (kafka_output P) (Some msg) (KafkaSet s) = (Inr x, ks')"
        "instances_ok pending ks'"
      using rd_client.KafkaOutput_emit_ok [OF assms(1,2,5), of serialize msg] by blast
    with Some conv assms m(2) show ?thesis
      by (auto simp: path_emit_def on_kafka_set_def prog_defs)
  qed
qed


section \<open>Properties\<close>

text \<open>C21: A conversion path sends at most one message per update: on an update its converter
  accepts, \<open>ConversionPath::emit\<close> returns 0 after one call of \<open>KafkaOutput::emit\<close> with a message
  (whatever that call returns), or 1 without touching Kafka when the converter produced none, which the f142 converter never does. The
  converters and producers stay usable.\<close>

theorem path_emit_result:
  assumes "rd_client K pending" "instances_ok pending (KafkaSet s)" "globals_ok E (Globals s)"
    and "Paths s path = Some P" "Producers (KafkaSet s) (KafkaProducer (kafka_output P)) \<noteq> None"
    and "Converters s (path_converter P) = Some c" "creator_accepts E (conv c) up"
  shows "\<exists>x s'. path_emit K E serialize path up s = (Inr x, s') \<and> (x = 0 \<or> x = 1)
     \<and> instances_ok pending (KafkaSet s') \<and> globals_ok E (Globals s')
     \<and> (x = 1 \<longrightarrow> KafkaSet s' = KafkaSet s \<and> conv c = TdcCreator \<and> tdc_payload up = None)
     \<and> (x = 0 \<longrightarrow> (\<exists>msg code. KafkaOutput_emit K serialize (kafka_output P) (Some msg) (KafkaSet s)
                      = (Inr code, KafkaSet s')))"
  using path_emit_returns [OF assms] .

definition empty_update :: EpicsPVUpdate where
  "empty_update = \<lparr>epics_pvstr = Some (PVStructure [] []), channel = ''pv'', AlarmStatusChanged = False\<rparr>"

definition plain_env :: ConverterEnv where
  "plain_env = \<lparr>isNTEnum = (\<lambda>_. False), isNTScalarArray = (\<lambda>_. True),
     Alarms = \<lparr>StatusNames = [''NO_ALARM''], Status_NO_ALARM = 0, Status_UDF = 1\<rparr>,
     Severities = \<lparr>Sev_MINOR = 1, Sev_MAJOR = 2, Sev_NO_ALARM = 0, Sev_INVALID = 3\<rparr>\<rparr>"

definition one_path :: "nat list conv_store" where
  "one_path = \<lparr>Paths = [0 \<mapsto> \<lparr>path_converter = 0, kafka_output = \<lparr>KafkaProducer = 0, Name = ''t''\<rparr>\<rparr>],
     Converters = [0 \<mapsto> \<lparr>schema = ''f142'', conv = createConverter F142Info\<rparr>],
     Globals = \<lparr>GlobalSeverityMap = EpicsSeverityToFlatbufferSeverity (Severities plain_env),
                SequenceNumber = 0\<rparr>,
     KafkaSet = one_producer\<rparr>"

lemma path_emit_result_witness:
  "\<exists>x s'. path_emit (list_client 3) plain_env (\<lambda>_. [1]) 0 empty_update one_path = (Inr x, s')
     \<and> instances_ok mset (KafkaSet s')"
proof -
  let ?P = "\<lparr>path_converter = 0, kafka_output = \<lparr>KafkaProducer = 0, Name = ''t''\<rparr>\<rparr>"
  let ?c = "\<lparr>schema = ''f142'', conv = createConverter F142Info\<rparr>"
  have "instances_ok mset (KafkaSet one_path)" by (simp add: one_path_def one_producer_ok)
  moreover have "globals_ok plain_env (Globals one_path)"
    by (simp add: globals_ok_def one_path_def severity_map_ok_init)
  moreover have "Paths one_path 0 = Some ?P" "Converters one_path (path_converter ?P) = Some ?c"
      "Producers (KafkaSet one_path) (KafkaProducer (kafka_output ?P)) \<noteq> None"
    by (simp_all add: one_path_def one_producer_def)
  moreover have "creator_accepts plain_env (conv ?c) empty_update"
    by (simp add: f142_accepts_def empty_update_def plain_env_def enum_ok_def timestamp_ok_def)
  ultimately show ?thesis
    using path_emit_result [OF lc.rd_client_axioms, of one_path plain_env 0 ?P ?c empty_update 3 "\<lambda>_. [1]"]
    by blast
qed

end
