(* ===== verification/Conversion_Worker.thy ===== *)
theory Conversion_Worker
  imports Stream_Queue Worker_Protocol Converter
begin

text \<open>
  \<open>ConversionWorker.cpp\<close>: the scheduler that hands the updates of the streams to the workers in turn,
  and the workers, which convert and send them. The state is what these share: the streams (an
  identifier, which also names the stream's queue, and its conversion paths), the queues, the packets,
  the packet each worker is working on, and the objects the conversion uses. A conversion path exists
  as long as \<open>Paths\<close> has it.
\<close>

record StreamEntry =
  st_id :: nat
  st_paths :: "nat list"

record ('q, 'w, 'k) pipeline =
  StreamPointers :: "StreamEntry list"
  Rings :: "nat \<Rightarrow> 'q"
  WorkQueues :: "nat \<Rightarrow> 'w"
  Held :: "nat \<Rightarrow> nat option"
  PacketStore :: "nat \<rightharpoonup> ConversionWorkPacket"
  NextPacketRef :: nat
  PathTransit :: "nat \<Rightarrow> u32"
  UpdateStore :: "nat \<rightharpoonup> EpicsPVUpdate"
  Store :: "'k conv_store"
  sid :: nat

text \<open>The part of the state that a call with stream \<open>s\<close> and worker \<open>w\<close> works on.\<close>

definition fill_view :: "nat \<Rightarrow> nat \<Rightarrow> ('q, 'w, 'k) pipeline \<Rightarrow> ('q, 'w) fill_env" where
  "fill_view i w pl = \<lparr>OutputQueue = Rings pl i, WorkQueue = WorkQueues pl w,
     Packets = PacketStore pl, NextPacket = NextPacketRef pl, transit = PathTransit pl\<rparr>"

definition put_view ::
  "nat \<Rightarrow> nat \<Rightarrow> ('q, 'w) fill_env \<Rightarrow> ('q, 'w, 'k) pipeline \<Rightarrow> ('q, 'w, 'k) pipeline" where
  "put_view i w e pl = pl\<lparr>Rings := (Rings pl)(i := OutputQueue e),
     WorkQueues := (WorkQueues pl)(w := WorkQueue e), PacketStore := Packets e,
     NextPacketRef := NextPacket e, PathTransit := transit e\<rparr>"

definition on_fill :: "nat \<Rightarrow> nat \<Rightarrow> (('q, 'w) fill_env, 'a) prog \<Rightarrow> (('q, 'w, 'k) pipeline, 'a) prog" where
  "on_fill i w m pl = (case m (fill_view i w pl) of (r, e) \<Rightarrow> (r, put_view i w e pl))"

section \<open>The scheduler\<close>

text \<open>
  The loop of \<open>ConversionScheduler::fill\<close>; \<open>main->streams[sid]\<close> is \<open>StreamPointers.at(sid)\<close>. \<open>rounds\<close>
  bounds the rounds of the loop, \<open>rds\<close> those of the loop inside \<open>fillConversionQueue\<close>.
\<close>

fun scheduler_loop ::
  "('q, nat option) queue_ops \<Rightarrow> ('w, nat) queue_ops \<Rightarrow> nat \<Rightarrow> nat \<Rightarrow> u32 \<Rightarrow> nat \<Rightarrow> nat \<Rightarrow> u32 \<Rightarrow>
   (('q, 'w, 'k) pipeline, u32) prog" where
  "scheduler_loop Q W rds w nfm sid0 0 nfc = (if nfc < nfm then fail Running else ret nfc)"
| "scheduler_loop Q W rds w nfm sid0 (Suc rounds) nfc =
     (if nfc < nfm
      then bnd (get_st (\<lambda>pl. (sid pl, StreamPointers pl))) (\<lambda>(i, ss).
           if i \<ge> length ss then raise OutOfRange
           else
             bnd (on_fill (st_id (ss ! i)) w
                   (fillConversionQueue Q W rds (st_id (ss ! i)) (st_paths (ss ! i)) (nfm - nfc))) (\<lambda>n1.
             thn (upd_st (\<lambda>pl. pl\<lparr>sid := sid pl + 1\<rparr>))
             (thn (upd_st (\<lambda>pl. if sid pl \<ge> length (StreamPointers pl) then pl\<lparr>sid := 0\<rparr> else pl))
             (bnd (get_st sid) (\<lambda>i'.
              if i' = sid0 then ret (nfc + n1)
              else scheduler_loop Q W rds w nfm sid0 rounds (nfc + n1))))))
      else ret nfc)"

definition scheduler_fill ::
  "('q, nat option) queue_ops \<Rightarrow> ('w, nat) queue_ops \<Rightarrow> nat \<Rightarrow> nat \<Rightarrow> u32 \<Rightarrow>
   (('q, 'w, 'k) pipeline, u32) prog" where
  "scheduler_fill Q W rds w nfm =
     bnd (get_st StreamPointers) (\<lambda>ss.
     if length ss = 0 then ret 0
     else
       thn (upd_st (\<lambda>pl. if sid pl \<ge> length (StreamPointers pl) then pl\<lparr>sid := 0\<rparr> else pl))
       (bnd (get_st sid) (\<lambda>sid0. scheduler_loop Q W rds w nfm sid0 (length ss) 0)))"

section \<open>The workers\<close>

text \<open>\<open>queue.try_dequeue(Packet)\<close>.\<close>

definition take_packet :: "('w, nat) queue_ops \<Rightarrow> nat \<Rightarrow> (('q, 'w, 'k) pipeline, bool) prog" where
  "take_packet W w =
     bnd (get_st (\<lambda>pl. try_dequeue W (WorkQueues pl w))) (\<lambda>r. case r of
       None \<Rightarrow> ret False
     | Some (k, q) \<Rightarrow>
         thn (upd_st (\<lambda>pl. pl\<lparr>WorkQueues := (WorkQueues pl)(w := q), Held := (Held pl)(w := Some k)\<rparr>))
         (ret True))"

definition on_store :: "('k conv_store, 'a) prog \<Rightarrow> (('q, 'w, 'k) pipeline, 'a) prog" where
  "on_store m pl = (case m (Store pl) of (r, s) \<Rightarrow> (r, pl\<lparr>Store := s\<rparr>))"

text \<open>
  \<open>Packet->Path->emit(std::move(Packet->Update))\<close>, and the end of the scope of \<open>Packet\<close>.
\<close>

definition emit_held ::
  "'k rdkafka \<Rightarrow> ConverterEnv \<Rightarrow> (fb_table \<Rightarrow> u8 list) \<Rightarrow> nat \<Rightarrow> (('q, 'w, 'k) pipeline, unit) prog" where
  "emit_held K E serialize w =
     bnd (get_st (\<lambda>pl. Option.bind (Held pl w) (PacketStore pl))) (\<lambda>pk.
     bnd (of_res (deref pk)) (\<lambda>Packet.
     bnd (get_st (\<lambda>pl. UpdateStore pl (pk_Update Packet))) (\<lambda>u.
     bnd (of_res (deref u)) (\<lambda>up.
     thn (on_store (path_emit K E serialize (pk_Path Packet) up)) (ret ())))))"

definition release_held :: "nat \<Rightarrow> (('q, 'w, 'k) pipeline, unit) prog" where
  "release_held w =
     bnd (get_st (\<lambda>pl. Held pl w)) (\<lambda>h.
     bnd (of_res (deref h)) (\<lambda>k.
     thn (on_fill 0 w (delete_packet k))
     (upd_st (\<lambda>pl. pl\<lparr>Held := (Held pl)(w := None)\<rparr>))))"

text \<open>The inner loop of \<open>ConversionWorker::run\<close>, and one round of the outer loop.\<close>

fun drain_worker ::
  "('w, nat) queue_ops \<Rightarrow> 'k rdkafka \<Rightarrow> ConverterEnv \<Rightarrow> (fb_table \<Rightarrow> u8 list) \<Rightarrow> nat \<Rightarrow> nat \<Rightarrow>
   (('q, 'w, 'k) pipeline, unit) prog" where
  "drain_worker W K E serialize w 0 = fail Running"
| "drain_worker W K E serialize w (Suc rounds) =
     bnd (take_packet W w) (\<lambda>found.
     if \<not> found then ret ()
     else thn (emit_held K E serialize w)
          (thn (release_held w) (drain_worker W K E serialize w rounds)))"

definition worker_round ::
  "('q, nat option) queue_ops \<Rightarrow> ('w, nat) queue_ops \<Rightarrow> 'k rdkafka \<Rightarrow> ConverterEnv \<Rightarrow>
   (fb_table \<Rightarrow> u8 list) \<Rightarrow> nat \<Rightarrow> nat \<Rightarrow> u32 \<Rightarrow> nat \<Rightarrow> (('q, 'w, 'k) pipeline, unit) prog" where
  "worker_round Q W K E serialize rds rounds MAX_SUBQUEUE_SIZE w =
     bnd (get_st (\<lambda>pl. size_approx W (WorkQueues pl w))) (\<lambda>qs.
     thn (if qs = 0 then thn (scheduler_fill Q W rds w MAX_SUBQUEUE_SIZE) (ret ()) else ret ())
     (drain_worker W K E serialize w rounds))"

section \<open>Streams and paths that come and go\<close>

text \<open>A stream leaves the list (\<open>stopChannel\<close>, \<open>clearStreams\<close>, \<open>checkStreamStatus\<close>).\<close>

definition remove_streams :: "(StreamEntry \<Rightarrow> bool) \<Rightarrow> ('q, 'w, 'k) pipeline \<Rightarrow> ('q, 'w, 'k) pipeline" where
  "remove_streams P pl = pl\<lparr>StreamPointers := filter (\<lambda>s. \<not> P s) (StreamPointers pl)\<rparr>"

definition add_stream :: "nat \<Rightarrow> ('q, 'w, 'k) pipeline \<Rightarrow> ('q, 'w, 'k) pipeline" where
  "add_stream i pl = pl\<lparr>StreamPointers := StreamPointers pl @ [\<lparr>st_id = i, st_paths = []\<rparr>]\<rparr>"

text \<open>
  \<open>std::make_unique<ConversionPath>\<close> at the address \<open>p\<close>; \<open>transit\<close> starts at 0. Then
  \<open>Stream->addConverter\<close> on the stream at position \<open>j\<close>: it owns the path or leaves it to be
  destroyed.
\<close>

definition create_path :: "nat \<Rightarrow> ConversionPath \<Rightarrow> ('q, 'w, 'k) pipeline \<Rightarrow> ('q, 'w, 'k) pipeline" where
  "create_path p P pl = pl\<lparr>Store := (Store pl)\<lparr>Paths := (Paths (Store pl))(p \<mapsto> P)\<rparr>,
     PathTransit := (PathTransit pl)(p := 0)\<rparr>"

definition stream_addConverter :: "nat \<Rightarrow> nat \<Rightarrow> ('q, 'w, 'k) pipeline \<Rightarrow> ('q, 'w, 'k) pipeline res" where
  "stream_addConverter j p pl =
     (let st = StreamPointers pl ! j in
      bind_res (addConverter (Store pl) p (st_paths st)) (\<lambda>(r, ps).
      Inr (pl\<lparr>StreamPointers := (StreamPointers pl)[j := st\<lparr>st_paths := ps\<rparr>]\<rparr>)))"

text \<open>
  \<open>ConversionPath::~ConversionPath\<close>, when its loop has seen \<open>transit == 0\<close>; before that the destructor
  waits and the object exists. It runs when no stream in the list has the path any more.
\<close>

definition path_unused :: "('q, 'w, 'k) pipeline \<Rightarrow> nat \<Rightarrow> bool" where
  "path_unused pl p \<longleftrightarrow> (\<forall>s \<in> set (StreamPointers pl). p \<notin> set (st_paths s))"

definition delete_path :: "nat \<Rightarrow> ('q, 'w, 'k) pipeline \<Rightarrow> ('q, 'w, 'k) pipeline res" where
  "delete_path p pl =
     (if PathTransit pl p = 0 then Inr (pl\<lparr>Store := (Store pl)\<lparr>Paths := (Paths (Store pl))(p := None)\<rparr>\<rparr>)
      else Inl Running)"

end
