(* ===== verification/Simulation.thy ===== *)
theory Simulation
  imports Fwd_Prelude
begin

text \<open>
  Refinement: a step relation simulates a specification when every step from a related state is matched
  by steps of the specification to a related state. Runs are sequences of steps, with the list of their
  labels where the steps have labels.
\<close>

section \<open>Runs\<close>

primrec run :: "('l \<Rightarrow> 's \<Rightarrow> 's \<Rightarrow> bool) \<Rightarrow> 'l list \<Rightarrow> 's \<Rightarrow> 's \<Rightarrow> bool" where
  "run step [] s s' \<longleftrightarrow> s' = s"
| "run step (l # ls) s s' \<longleftrightarrow> (\<exists>t. step l s t \<and> run step ls t s')"

lemma run_append: "run step (ks @ ls) s s' \<longleftrightarrow> (\<exists>t. run step ks s t \<and> run step ls t s')"
  by (induction ks arbitrary: s) auto

lemma run_invariant:
  "run step ls s s' \<Longrightarrow> I s \<Longrightarrow> (\<And>l s t. step l s t \<Longrightarrow> I s \<Longrightarrow> I t) \<Longrightarrow> I s'"
  by (induction ls arbitrary: s) auto

text \<open>A loop over a list is the run of its body.\<close>

lemma for_each_run:
  "for_each f ls s = (Inr (), s') \<longleftrightarrow> run (\<lambda>l s t. f l s = (Inr (), t)) ls s s'"
proof (induction ls arbitrary: s)
  case (Cons l ls)
  obtain r t where rt: "f l s = (r, t)" by fastforce
  then show ?case using Cons.IH [of t] by (cases r) (auto simp: prog_defs)
qed (auto simp: prog_defs)

section \<open>Simulations\<close>

locale simulation =
  fixes step :: "'s \<Rightarrow> 's \<Rightarrow> bool"
    and spec :: "'a \<Rightarrow> 'a \<Rightarrow> bool"
    and R :: "'s \<Rightarrow> 'a \<Rightarrow> bool"
  assumes simulates_step: "R s a \<Longrightarrow> step s s' \<Longrightarrow> \<exists>a'. spec\<^sup>*\<^sup>* a a' \<and> R s' a'"
begin

lemma simulates_reachable:
  assumes "step\<^sup>*\<^sup>* s s'" "R s a" shows "\<exists>a'. spec\<^sup>*\<^sup>* a a' \<and> R s' a'"
  using assms(1)
proof (induction rule: rtranclp_induct)
  case base
  with assms(2) show ?case by blast
next
  case (step t u)
  then obtain b where "spec\<^sup>*\<^sup>* a b" "R t b" by blast
  with simulates_step [OF \<open>R t b\<close> step(2)] show ?case by (meson rtranclp_trans)
qed

text \<open>What holds in every state the specification reaches holds of the related states.\<close>

lemma invariant_transfer:
  assumes "step\<^sup>*\<^sup>* s s'" "R s a" "\<And>b. spec\<^sup>*\<^sup>* a b \<Longrightarrow> I b"
  shows "\<exists>b. R s' b \<and> I b"
  using simulates_reachable [OF assms(1,2)] assms(3) by blast

end

locale labelled_simulation =
  fixes lstep :: "'l \<Rightarrow> 's \<Rightarrow> 's \<Rightarrow> bool"
    and lspec :: "'m \<Rightarrow> 'a \<Rightarrow> 'a \<Rightarrow> bool"
    and label :: "'l \<Rightarrow> 'm"
    and R :: "'s \<Rightarrow> 'a \<Rightarrow> bool"
  assumes simulates_label: "R s a \<Longrightarrow> lstep l s s' \<Longrightarrow> \<exists>a'. lspec (label l) a a' \<and> R s' a'"
begin

lemma simulates_run: "run lstep ls s s' \<Longrightarrow> R s a \<Longrightarrow> \<exists>a'. run lspec (map label ls) a a' \<and> R s' a'"
proof (induction ls arbitrary: s a)
  case (Cons l ls)
  then obtain t where t: "lstep l s t" "run lstep ls t s'" by auto
  obtain b where b: "lspec (label l) a b" "R t b" using simulates_label [OF Cons.prems(2) t(1)] by blast
  from Cons.IH [OF t(2) b(2)] b(1) show ?case by auto
qed simp

end

sublocale labelled_simulation \<subseteq> unlabelled: simulation "\<lambda>s s'. \<exists>l. lstep l s s'" "\<lambda>a a'. \<exists>m. lspec m a a'" R
proof
  fix s a s' assume "R s a" "\<exists>l. lstep l s s'"
  then obtain l a' where "lspec (label l) a a'" "R s' a'" using simulates_label by blast
  then show "\<exists>a'. (\<lambda>a a'. \<exists>m. lspec m a a')\<^sup>*\<^sup>* a a' \<and> R s' a'" by blast
qed

end
