(* ===== verification/Worker_Safety.thy ===== *)
theory Worker_Safety
  imports Conversion_Worker Simulation
begin

text \<open>
  The conversion pipeline follows the abstract protocol of \<open>Worker_Protocol\<close>: a simulation relation
  between the states, one lemma per operation of the workers and of the scheduler, and the property
  that a packet never points to a conversion path that has been destroyed.
\<close>

section \<open>The simulation relation\<close>

text \<open>The packets of a worker: the one it holds, then its queue.\<close>

definition worker_refs :: "('w \<Rightarrow> nat list) \<Rightarrow> ('q, 'w, 'k) pipeline \<Rightarrow> nat \<Rightarrow> nat list" where
  "worker_refs wc pl w = (case Held pl w of None \<Rightarrow> [] | Some k \<Rightarrow> [k]) @ wc (WorkQueues pl w)"

definition packet_entry :: "ConversionWorkPacket \<Rightarrow> nat \<times> bool" where
  "packet_entry pk = (pk_Path pk, pk_stream pk \<noteq> None)"

definition entry :: "('q, 'w, 'k) pipeline \<Rightarrow> nat \<Rightarrow> nat \<times> bool" where
  "entry pl k = (case PacketStore pl k of
     None \<Rightarrow> (0, False) | Some pk \<Rightarrow> packet_entry pk)"

text \<open>Every reference of a worker is to a packet that exists, and no two are the same.\<close>

definition refs_ok :: "nat \<Rightarrow> ('w \<Rightarrow> nat list) \<Rightarrow> ('q, 'w, 'k) pipeline \<Rightarrow> bool" where
  "refs_ok N wc pl \<longleftrightarrow>
     (\<forall>k \<ge> NextPacketRef pl. PacketStore pl k = None)
     \<and> (\<forall>w < N. distinct (worker_refs wc pl w) \<and> (\<forall>k \<in> set (worker_refs wc pl w). PacketStore pl k \<noteq> None))
     \<and> (\<forall>v < N. \<forall>w < N. v \<noteq> w \<longrightarrow> set (worker_refs wc pl v) \<inter> set (worker_refs wc pl w) = {})"

definition simulates :: "nat \<Rightarrow> ('w \<Rightarrow> nat list) \<Rightarrow> ('q, 'w, 'k) pipeline \<Rightarrow> proto \<Rightarrow> bool" where
  "simulates N wc pl s \<longleftrightarrow>
     refs_ok N wc pl \<and> proto_inv N s
     \<and> (\<forall>w < N. Work s w = map (entry pl) (worker_refs wc pl w))
     \<and> (\<forall>p. PathTransit pl p = of_nat (Transits s p))
     \<and> Owned s = map st_paths (StreamPointers pl) \<and> Live s = dom (Paths (Store pl))"

lemma entry_cong: "PacketStore pl' k = PacketStore pl k \<Longrightarrow> entry pl' k = entry pl k"
  by (simp add: entry_def)

section \<open>Filling from one stream\<close>

text \<open>The new packets, as the protocol sees them.\<close>

lemma entries_filled:
  "map packet_entry (filled_packets this ps vs) = block ps (length vs)"
proof -
  have plain: "map packet_entry (plain_packets u ps) = map (\<lambda>p. (p, False)) ps" for u
    by (simp add: plain_packets_def packet_entry_def)
  have "map packet_entry (concat (map (\<lambda>u. plain_packets u ps) us)) =
      concat (replicate (length us) (map (\<lambda>p. (p, False)) ps))" for us
    by (induction us) (simp_all add: plain)
  then show ?thesis
    by (simp add: filled_packets_def block_def tracked_packets_def packet_entry_def)
qed

lemma map_entry_new:
  assumes "map (PacketStore pl) ks = map Some pks"
  shows "map (entry pl) ks = map packet_entry pks"
proof -
  have "entry pl k = packet_entry pk" if "PacketStore pl k = Some pk" for k pk
    using that by (simp add: entry_def)
  then show ?thesis using assms by (auto simp: list_eq_iff_nth_eq)
qed

lemma refs_below:
  "refs_ok N wc pl \<Longrightarrow> w < N \<Longrightarrow> k \<in> set (worker_refs wc pl w) \<Longrightarrow> k < NextPacketRef pl"
  by (metis leI refs_ok_def)

lemma fill_refs:
  assumes "refs_ok N wc pl" "w < N" "Held pl w = None"
    and "adds_packets wc (fill_view i w pl) pks e"
  shows "refs_ok N wc (put_view i w e pl)"
    and "v < N \<Longrightarrow> map (entry (put_view i w e pl)) (worker_refs wc (put_view i w e pl) v) =
       map (entry pl) (worker_refs wc pl v)
       @ (if v = w then map packet_entry pks else [])"
proof -
  let ?pl = "put_view i w e pl" and ?n = "NextPacketRef pl"
  let ?new = "[?n..<?n + length pks]"
  have refs: "worker_refs wc ?pl v = worker_refs wc pl v @ (if v = w then ?new else [])" for v
    using assms(3,4) by (auto simp: worker_refs_def put_view_def fill_view_def adds_packets_def)
  have old: "\<And>k. k < ?n \<Longrightarrow> PacketStore ?pl k = PacketStore pl k"
    using assms(4) by (simp add: put_view_def fill_view_def adds_packets_def)
  have new: "map (PacketStore ?pl) ?new = map Some pks"
    using assms(4) by (simp add: put_view_def fill_view_def adds_packets_def)
  have alive: "PacketStore ?pl k \<noteq> None" if "k \<in> set ?new" for k
    using adds_packets_alive [OF assms(4), of k] assms(4) that
    by (simp add: put_view_def fill_view_def adds_packets_def)
  have below: "\<And>v k. v < N \<Longrightarrow> k \<in> set (worker_refs wc pl v) \<Longrightarrow> k < ?n"
    using refs_below [OF assms(1)] by blast
  show "refs_ok N wc ?pl"
    unfolding refs_ok_def
  proof (intro conjI allI impI ballI)
    fix k assume "NextPacketRef ?pl \<le> k"
    then show "PacketStore ?pl k = None"
      using assms(4) by (simp add: put_view_def adds_packets_def packets_fresh_def)
  next
    fix v assume v: "v < N"
    have "distinct (worker_refs wc pl v)" using assms(1) v by (simp add: refs_ok_def)
    then show "distinct (worker_refs wc ?pl v)" using below [OF v] by (fastforce simp: refs)
    fix k assume "k \<in> set (worker_refs wc ?pl v)"
    then show "PacketStore ?pl k \<noteq> None"
      using alive below [OF v] old assms(1) v by (auto simp: refs refs_ok_def split: if_splits)
  next
    fix v u assume vu: "v < N" "u < N" "v \<noteq> u"
    then have "set (worker_refs wc pl v) \<inter> set (worker_refs wc pl u) = {}"
      using assms(1) by (simp add: refs_ok_def)
    then show "set (worker_refs wc ?pl v) \<inter> set (worker_refs wc ?pl u) = {}"
      using below [OF vu(1)] below [OF vu(2)] vu(3) by (fastforce simp: refs)
  qed
  assume v: "v < N"
  have "map (entry ?pl) (worker_refs wc pl v) = map (entry pl) (worker_refs wc pl v)"
    using below [OF v] old by (auto intro: entry_cong)
  then show "map (entry ?pl) (worker_refs wc ?pl v) = map (entry pl) (worker_refs wc pl v)
       @ (if v = w then map packet_entry pks else [])"
    using map_entry_new [OF new] by (simp add: refs)
qed

lemma stream_fill_simulates:
  assumes "ready_queue W wc" "sized_queue Q oc" "simulates N wc pl s" "w < N" "Held pl w = None"
    and "length (oc (Rings pl (st_id se))) < rds" "rds \<le> 2 ^ 32"
    and "se \<in> set (StreamPointers pl)" "\<forall>p \<in> set (st_paths se). p \<notin> fst ` set (Work s w)"
  shows "\<exists>n pl' s'. on_fill (st_id se) w (fillConversionQueue Q W rds this (st_paths se) mx) pl = (Inr n, pl')
     \<and> (proto_step N)\<^sup>*\<^sup>* s s' \<and> simulates N wc pl' s' \<and> unat n \<le> unat mx
     \<and> fst ` set (Work s' w) \<subseteq> fst ` set (Work s w) \<union> set (st_paths se)
     \<and> StreamPointers pl' = StreamPointers pl \<and> sid pl' = sid pl \<and> Held pl' = Held pl
     \<and> (\<forall>i. length (oc (Rings pl' i)) \<le> length (oc (Rings pl i)))"
proof -
  let ?e = "fill_view (st_id se) w pl" and ?ps = "st_paths se"
  have fifo: "fifo_queue Q oc" using assms(2) by (simp add: sized_queue_def)
  have size: "size_approx Q (OutputQueue ?e) = length (oc (Rings pl (st_id se)))"
    using sized_queue.size_exact [OF assms(2)] by (simp add: fill_view_def)
  have "packets_fresh ?e"
    using assms(3) by (simp add: simulates_def refs_ok_def packets_fresh_def fill_view_def)
  moreover have "size_approx Q (OutputQueue ?e) < 2 ^ 32" "size_approx Q (OutputQueue ?e) < rds"
    using assms(6,7) size by simp_all
  ultimately obtain us e where run: "fillConversionQueue Q W rds this ?ps mx ?e =
        (Inr (of_nat (length ?ps * length (updates us))), e)"
     and bound: "length ?ps * length (updates us) \<le> unat mx"
     and out: "oc (OutputQueue ?e) = us @ oc (OutputQueue e)"
     and adds: "adds_packets wc ?e (filled_packets this ?ps (updates us)) e"
     and trans: "\<forall>p. transit e p = transit ?e p + (if updates us = [] then 0 else of_nat (count_list ?ps p))"
    using fillConversionQueue_run [OF assms(1) fifo, of ?e rds this ?ps mx] by blast
  let ?pl = "put_view (st_id se) w e pl" and ?m = "length (updates us)"
  have ok: "refs_ok N wc pl" using assms(3) by (simp add: simulates_def)
  have ents: "map (entry ?pl) (worker_refs wc ?pl v) = Work s v @ (if v = w then block ?ps ?m else [])"
    if "v < N" for v
    using fill_refs(2) [OF ok assms(4,5) adds that] assms(3) that
    by (simp add: simulates_def entries_filled cong: if_cong)
  have pl: "StreamPointers ?pl = StreamPointers pl" "Store ?pl = Store pl" "sid ?pl = sid pl" "Held ?pl = Held pl"
      "PathTransit ?pl = transit e"
    by (simp_all add: put_view_def)
  have n: "unat (of_nat (length ?ps * ?m) :: u32) \<le> unat mx"
    using bound by (metis le_trans of_nat_unat unat_of_nat_small unsigned_less order.strict_trans1 le_refl)
  have rings: "\<forall>i. length (oc (Rings ?pl i)) \<le> length (oc (Rings pl i))"
    using out by (auto simp: put_view_def fill_view_def)
  have ran: "on_fill (st_id se) w (fillConversionQueue Q W rds this ?ps mx) pl =
      (Inr (of_nat (length ?ps * ?m)), ?pl)"
    by (simp add: on_fill_def run)
  define s' where "s' = (if ?m = 0 then s else s\<lparr>Work := (Work s)(w := Work s w @ block ?ps ?m),
                     Transits := (\<lambda>p. Transits s p + count_list ?ps p)\<rparr>)"
  have owned: "?ps \<in> set (Owned s)" using assms(3,8) by (auto simp: simulates_def)
  have step: "(proto_step N)\<^sup>*\<^sup>* s s'"
    using proto_step.fill [OF assms(4) owned assms(9), of ?m] by (auto simp: s'_def)
  have inv: "proto_inv N s'"
    using fill_inv [OF _ assms(4) owned assms(9), of ?m] assms(3) by (auto simp: s'_def simulates_def)
  have "simulates N wc ?pl s'"
    unfolding simulates_def
  proof (intro conjI allI impI)
    show "refs_ok N wc ?pl" by (rule fill_refs(1) [OF ok assms(4,5) adds])
    show "proto_inv N s'" by (rule inv)
    fix v assume "v < N"
    then show "Work s' v = map (entry ?pl) (worker_refs wc ?pl v)"
      using ents [of v] by (auto simp: s'_def block_def)
  next
    fix p
    show "PathTransit ?pl p = of_nat (Transits s' p)"
      using trans assms(3) by (auto simp: pl(5) s'_def simulates_def fill_view_def)
  next
    show "Owned s' = map st_paths (StreamPointers ?pl)" "Live s' = dom (Paths (Store ?pl))"
      using assms(3) by (simp_all add: pl s'_def simulates_def)
  qed
  moreover have "fst ` set (Work s' w) \<subseteq> fst ` set (Work s w) \<union> set ?ps"
    using set_block [of ?ps ?m] by (simp add: s'_def image_Un) blast
  ultimately show ?thesis using ran step n rings pl by blast
qed


section \<open>The scheduler\<close>

lemma concat_nth_disjoint:
  "distinct (concat xss) \<Longrightarrow> i < length xss \<Longrightarrow> j < length xss \<Longrightarrow> i \<noteq> j \<Longrightarrow>
   set (xss ! i) \<inter> set (xss ! j) = {}"
proof (induction xss arbitrary: i j)
  case (Cons xs xss)
  have "set xs \<inter> set (xss ! k) = {}" if "k < length xss" for k
    using Cons.prems(1) nth_mem [OF that] by auto
  with Cons show ?case by (cases i; cases j) auto
qed simp

lemma round_robin_distinct: "i < j \<Longrightarrow> j < n \<Longrightarrow> s < n \<Longrightarrow> (s + i) mod n \<noteq> (s + j) mod (n::nat)"
  by (auto simp: mod_if split: if_splits)

lemma round_robin_back: "Suc j \<le> n \<Longrightarrow> s < n \<Longrightarrow> (s + Suc j) mod n = s \<longleftrightarrow> Suc j = (n::nat)"
  by (auto simp: mod_if split: if_splits)

lemma unat_add_exact:
  fixes a b m :: u32
  assumes "unat a \<le> unat m" "unat b \<le> unat (m - a)"
  shows "unat (a + b) = unat a + unat b" "unat a + unat b \<le> unat m"
proof -
  have "unat (m - a) = unat m - unat a"
    using unat_minus_of_nat [OF assms(1)] by simp
  then show le: "unat a + unat b \<le> unat m" using assms by simp
  then show "unat (a + b) = unat a + unat b"
    using unat_add_lem [of a b] unsigned_less [of m, where ?'a = nat] by simp
qed

lemma unat_add_within:
  fixes a b m :: u32
  assumes "unat a \<le> unat m" "unat b \<le> unat (m - a)"
  shows "unat (a + b) \<le> unat m"
  using unat_add_exact [OF assms] by simp

lemma scheduler_loop_simulates:
  assumes "ready_queue W wc" "sized_queue Q oc" "rds \<le> 2 ^ 32" "w < N"
    and "StreamPointers pl = ss" "sid0 < length ss" "j < length ss" "rounds = length ss - j"
    and "sid pl = (sid0 + j) mod length ss" "simulates N wc pl s" "Held pl w = None"
    and "\<forall>i. length (oc (Rings pl i)) < rds" "unat nfc \<le> unat nfm"
    and "fst ` set (Work s w) \<subseteq> (\<Union>i<j. set (st_paths (ss ! ((sid0 + i) mod length ss))))"
  shows "\<exists>n pl' s'. scheduler_loop Q W rds w nfm sid0 rounds nfc pl = (Inr n, pl')
     \<and> (proto_step N)\<^sup>*\<^sup>* s s' \<and> simulates N wc pl' s' \<and> unat n \<le> unat nfm"
  using assms(5-)
proof (induction rounds arbitrary: j pl s nfc)
  case 0
  then show ?case by simp
next
  case (Suc rounds)
  let ?len = "length ss" and ?se = "ss ! sid pl"
  have "0 < ?len" using Suc.prems(2) by linarith
  then have idx: "sid pl < ?len" using Suc.prems(5) by simp
  show ?case
  proof (cases "nfc < nfm")
    case False
    with Suc.prems(6,9) show ?thesis
      by (intro exI [of _ nfc] exI [of _ pl] exI [of _ s]) (simp add: prog_defs)
  next
    case True
    have mem: "?se \<in> set (StreamPointers pl)" using idx Suc.prems(1) by simp
    have "Owned s = map st_paths ss" "distinct (concat (Owned s))"
      using Suc.prems(1,6) unfolding simulates_def proto_inv_def by blast+
    then have own: "distinct (concat (map st_paths ss))" by metis
    have disj: "\<forall>p \<in> set (st_paths ?se). p \<notin> fst ` set (Work s w)"
    proof
      fix p assume p: "p \<in> set (st_paths ?se)"
      have "p \<notin> set (st_paths (ss ! ((sid0 + i) mod ?len)))" if "i < j" for i
      proof -
        have "(sid0 + i) mod ?len < ?len" using \<open>0 < ?len\<close> by simp
        moreover have "(sid0 + i) mod ?len \<noteq> sid pl"
          using round_robin_distinct [OF that Suc.prems(3,2)] Suc.prems(5) by simp
        ultimately show ?thesis
          using concat_nth_disjoint [OF own, of "(sid0 + i) mod ?len" "sid pl"] idx p by auto
      qed
      then show "p \<notin> fst ` set (Work s w)" using Suc.prems(10) by blast
    qed
    obtain n pl1 s1 where f: "on_fill (st_id ?se) w
          (fillConversionQueue Q W rds (st_id ?se) (st_paths ?se) (nfm - nfc)) pl = (Inr n, pl1)"
        "(proto_step N)\<^sup>*\<^sup>* s s1" "simulates N wc pl1 s1" "unat n \<le> unat (nfm - nfc)"
        "fst ` set (Work s1 w) \<subseteq> fst ` set (Work s w) \<union> set (st_paths ?se)"
        "StreamPointers pl1 = ss" "sid pl1 = sid pl" "Held pl1 = Held pl"
        "\<forall>i. length (oc (Rings pl1 i)) \<le> length (oc (Rings pl i))"
      using stream_fill_simulates [OF assms(1,2) Suc.prems(6) assms(4) Suc.prems(7) _ assms(3) mem disj,
          of "st_id ?se" "nfm - nfc"] Suc.prems(1,8) by blast
    define i' where "i' = (sid0 + Suc j) mod ?len"
    define pl2 where "pl2 = pl1\<lparr>sid := i'\<rparr>"
    have i': "i' = (if sid pl + 1 \<ge> ?len then 0 else sid pl + 1)"
      using Suc.prems(2,5) idx by (auto simp: i'_def mod_Suc)
    have run: "scheduler_loop Q W rds w nfm sid0 (Suc rounds) nfc pl =
        (if i' = sid0 then (Inr (nfc + n), pl2)
         else scheduler_loop Q W rds w nfm sid0 rounds (nfc + n) pl2)"
      using True f(1,6,7) idx Suc.prems(1) by (simp add: prog_defs pl2_def i')
    have sim: "simulates N wc pl2 s1"
      using f(3) by (simp add: pl2_def simulates_def refs_ok_def worker_refs_def entry_def)
    have bnd: "unat (nfc + n) \<le> unat nfm" by (rule unat_add_within [OF Suc.prems(9) f(4)])
    show ?thesis
    proof (cases "i' = sid0")
      case True
      with run sim f(2) bnd show ?thesis by auto
    next
      case False
      then have j: "Suc j < ?len"
        using round_robin_back [of j ?len sid0] Suc.prems(2,3) by (auto simp: i'_def)
      have rings: "\<forall>i. length (oc (Rings pl2 i)) < rds"
        using f(9) Suc.prems(8) by (auto simp: pl2_def intro: le_less_trans)
      have seen: "fst ` set (Work s1 w) \<subseteq> (\<Union>i<Suc j. set (st_paths (ss ! ((sid0 + i) mod ?len))))"
        using f(5) Suc.prems(5,10) by (auto simp: lessThan_Suc)
      have pl2: "StreamPointers pl2 = ss" "rounds = ?len - Suc j" "sid pl2 = (sid0 + Suc j) mod ?len"
          "Held pl2 w = None"
        using f(6,8) Suc.prems(4,7) by (simp_all add: pl2_def i'_def)
      obtain m pl' s' where "scheduler_loop Q W rds w nfm sid0 rounds (nfc + n) pl2 = (Inr m, pl')"
          "(proto_step N)\<^sup>*\<^sup>* s1 s'" "simulates N wc pl' s'" "unat m \<le> unat nfm"
        using Suc.IH [OF pl2(1) Suc.prems(2) j pl2(2,3) sim pl2(4) rings bnd seen] by blast
      with run False f(2) show ?thesis by (auto intro: rtranclp_trans)
    qed
  qed
qed

lemma scheduler_fill_simulates:
  assumes "ready_queue W wc" "sized_queue Q oc" "rds \<le> 2 ^ 32" "w < N"
    and "simulates N wc pl s" "Held pl w = None" "wc (WorkQueues pl w) = []"
    and "\<forall>i. length (oc (Rings pl i)) < rds"
  shows "\<exists>n pl' s'. scheduler_fill Q W rds w nfm pl = (Inr n, pl')
     \<and> (proto_step N)\<^sup>*\<^sup>* s s' \<and> simulates N wc pl' s' \<and> unat n \<le> unat nfm"
proof (cases "StreamPointers pl = []")
  case True
  with assms show ?thesis by (intro exI [of _ 0] exI [of _ pl] exI [of _ s]) (simp add: scheduler_fill_def prog_defs)
next
  case False
  let ?ss = "StreamPointers pl"
  define pl1 where "pl1 = (if sid pl \<ge> length ?ss then pl\<lparr>sid := 0\<rparr> else pl)"
  have sim: "simulates N wc pl1 s"
    using assms(5) by (simp add: pl1_def simulates_def refs_ok_def worker_refs_def entry_def)
  have same: "StreamPointers pl1 = ?ss" "Rings pl1 = Rings pl" "Held pl1 = Held pl" "sid pl1 < length ?ss"
      "WorkQueues pl1 = WorkQueues pl"
    using False by (auto simp: pl1_def)
  have "Work s w = []"
    using sim assms(4,6,7) by (simp add: simulates_def worker_refs_def same)
  then obtain n pl' s' where "scheduler_loop Q W rds w nfm (sid pl1) (length ?ss) 0 pl1 = (Inr n, pl')"
      "(proto_step N)\<^sup>*\<^sup>* s s'" "simulates N wc pl' s'" "unat n \<le> unat nfm"
    using scheduler_loop_simulates [OF assms(1-4) same(1,4), of 0 "length ?ss" s 0 nfm] sim same assms(6,8) False
    by auto
  moreover have "scheduler_fill Q W rds w nfm pl =
      scheduler_loop Q W rds w nfm (sid pl1) (length ?ss) 0 pl1"
    using False by (simp add: scheduler_fill_def prog_defs pl1_def)
  ultimately show ?thesis by auto
qed


section \<open>The workers\<close>

lemma simulates_cong:
  assumes "simulates N wc pl s"
    and "PacketStore pl' = PacketStore pl" "NextPacketRef pl' = NextPacketRef pl"
    and "PathTransit pl' = PathTransit pl" "StreamPointers pl' = StreamPointers pl"
    and "dom (Paths (Store pl')) = dom (Paths (Store pl))"
    and "\<And>w. w < N \<Longrightarrow> worker_refs wc pl' w = worker_refs wc pl w"
  shows "simulates N wc pl' s"
  using assms by (simp add: simulates_def refs_ok_def entry_def)

lemma refs_ok_mono:
  assumes "refs_ok N wc pl"
    and "\<And>v. set (worker_refs wc pl' v) \<subseteq> set (worker_refs wc pl v)"
    and "\<And>v. distinct (worker_refs wc pl v) \<Longrightarrow> distinct (worker_refs wc pl' v)"
    and "\<And>v i. v < N \<Longrightarrow> i \<in> set (worker_refs wc pl' v) \<Longrightarrow> PacketStore pl' i = PacketStore pl i"
    and "\<And>i. PacketStore pl i = None \<Longrightarrow> PacketStore pl' i = None" "NextPacketRef pl' = NextPacketRef pl"
  shows "refs_ok N wc pl'"
  unfolding refs_ok_def
proof (intro conjI allI impI ballI)
  fix k assume "NextPacketRef pl' \<le> k"
  then show "PacketStore pl' k = None" using assms(1,5,6) by (simp add: refs_ok_def)
next
  fix v assume v: "v < N"
  then show "distinct (worker_refs wc pl' v)" using assms(1,3) by (simp add: refs_ok_def)
  fix k assume k: "k \<in> set (worker_refs wc pl' v)"
  then have "k \<in> set (worker_refs wc pl v)" using assms(2) by blast
  then have "PacketStore pl k \<noteq> None" using assms(1) v unfolding refs_ok_def by blast
  then show "PacketStore pl' k \<noteq> None" using assms(4) [OF v k] by simp
next
  fix v u assume "v < N" "u < N" "v \<noteq> u"
  then have "set (worker_refs wc pl v) \<inter> set (worker_refs wc pl u) = {}"
    using assms(1) unfolding refs_ok_def by blast
  then show "set (worker_refs wc pl' v) \<inter> set (worker_refs wc pl' u) = {}" using assms(2) by blast
qed

lemma take_packet_simulates:
  assumes "fifo_queue W wc" "simulates N wc pl s" "Held pl w = None"
  shows "\<exists>b pl'. take_packet W w pl = (Inr b, pl') \<and> simulates N wc pl' s"
proof (cases "try_dequeue W (WorkQueues pl w)")
  case None
  with assms(2) show ?thesis
    by (intro exI [of _ False] exI [of _ pl]) (simp add: take_packet_def prog_defs)
next
  case (Some kq)
  obtain k q where kq: "kq = (k, q)" by fastforce
  have "wc (WorkQueues pl w) = k # wc q"
    using fifo_queue.dequeue_Some [OF assms(1)] Some kq by simp
  then have "simulates N wc (pl\<lparr>WorkQueues := (WorkQueues pl)(w := q), Held := (Held pl)(w := Some k)\<rparr>) s"
    by (intro simulates_cong [OF assms(2)]) (auto simp: worker_refs_def assms(3))
  with Some kq show ?thesis
    by (intro exI [of _ True] exI) (auto simp: take_packet_def prog_defs)
qed

lemma path_emit_paths: "Paths (snd (path_emit K E serialize path up s)) = Paths s"
proof -
  have "keeps_inv (\<lambda>t. Paths t = Paths s) (path_emit K E serialize path up)"
    unfolding path_emit_def
    by (intro keeps)
       (auto simp: keeps_inv_def on_converter_def on_kafka_set_def split: option.splits prod.splits)
  from keeps_invD [OF this, of s] show ?thesis by simp
qed

definition same_refs :: "('q, 'w, 'k) pipeline \<Rightarrow> ('q, 'w, 'k) pipeline \<Rightarrow> bool" where
  "same_refs pl pl' \<longleftrightarrow> PacketStore pl' = PacketStore pl \<and> NextPacketRef pl' = NextPacketRef pl
    \<and> PathTransit pl' = PathTransit pl \<and> StreamPointers pl' = StreamPointers pl
    \<and> Paths (Store pl') = Paths (Store pl) \<and> Held pl' = Held pl \<and> WorkQueues pl' = WorkQueues pl
    \<and> Rings pl' = Rings pl"

lemma emit_held_same: "same_refs pl (snd (emit_held K E serialize w pl))"
proof -
  have "keeps_inv (same_refs pl) (on_store (path_emit K E serialize path up))" for path up
  proof (rule keeps_invI)
    fix t assume "same_refs pl t"
    then show "same_refs pl (snd (on_store (path_emit K E serialize path up) t))"
      using path_emit_paths [of K E serialize path up "Store t"]
      by (auto simp: same_refs_def on_store_def split: prod.splits)
  qed
  then have "keeps_inv (same_refs pl) (emit_held K E serialize w)"
    unfolding emit_held_def by (intro keeps)
  from keeps_invD [OF this, of pl] show ?thesis by (simp add: same_refs_def)
qed

lemma emit_held_simulates:
  assumes "simulates N wc pl s" shows "simulates N wc (snd (emit_held K E serialize w pl)) s"
  using emit_held_same [of pl K E serialize w]
  by (intro simulates_cong [OF assms]) (auto simp: same_refs_def worker_refs_def)

lemma release_held_simulates:
  assumes "simulates N wc pl s" "w < N" "Held pl w = Some k"
  shows "\<exists>pl' s'. release_held w pl = (Inr (), pl') \<and> proto_step N s s' \<and> simulates N wc pl' s'"
proof -
  have refs: "worker_refs wc pl w = k # wc (WorkQueues pl w)"
    by (simp add: worker_refs_def assms(3))
  then have "k \<in> set (worker_refs wc pl w)" by simp
  then have "PacketStore pl k \<noteq> None"
    using assms(1,2) unfolding simulates_def refs_ok_def by blast
  then obtain pk where pk: "PacketStore pl k = Some pk" by blast
  define T where "T = (if pk_stream pk \<noteq> None
    then (PathTransit pl)(pk_Path pk := PathTransit pl (pk_Path pk) - 1) else PathTransit pl)"
  define pl' where
    "pl' = pl\<lparr>PacketStore := (PacketStore pl)(k := None), PathTransit := T, Held := (Held pl)(w := None)\<rparr>"
  have run: "release_held w pl = (Inr (), pl')"
    using pk by (simp add: release_held_def on_fill_def delete_packet_def fill_view_def put_view_def
        assms(3) prog_defs pl'_def T_def)
  define s' where "s' = s\<lparr>Work := (Work s)(w := map (entry pl) (wc (WorkQueues pl w))),
      Transits := (if pk_stream pk \<noteq> None then (Transits s)(pk_Path pk := Transits s (pk_Path pk) - 1)
                   else Transits s)\<rparr>"
  have sim: "refs_ok N wc pl" "proto_inv N s" "\<forall>w < N. Work s w = map (entry pl) (worker_refs wc pl w)"
      "\<forall>p. PathTransit pl p = of_nat (Transits s p)" "Owned s = map st_paths (StreamPointers pl)"
      "Live s = dom (Paths (Store pl))"
    using assms(1) unfolding simulates_def by blast+
  have work: "Work s w = (pk_Path pk, pk_stream pk \<noteq> None) # map (entry pl) (wc (WorkQueues pl w))"
    using sim(3) assms(2) pk refs by (simp add: entry_def packet_entry_def)
  have step: "proto_step N s s'" unfolding s'_def by (rule proto_step.finish [OF assms(2) work])
  have refs': "worker_refs wc pl' v = (if v = w then wc (WorkQueues pl w) else worker_refs wc pl v)" for v
    by (simp add: worker_refs_def pl'_def)
  have other: "k \<notin> set (worker_refs wc pl' v)" if "v < N" for v
  proof (cases "v = w")
    case True
    have "distinct (worker_refs wc pl w)" using sim(1) assms(2) unfolding refs_ok_def by blast
    with True show ?thesis by (simp add: refs refs')
  next
    case False
    then have "set (worker_refs wc pl v) \<inter> set (worker_refs wc pl w) = {}"
      using sim(1) assms(2) that unfolding refs_ok_def by blast
    with False show ?thesis by (simp add: refs refs')
  qed
  have "refs_ok N wc pl'"
  proof (rule refs_ok_mono [OF sim(1)])
    show "set (worker_refs wc pl' v) \<subseteq> set (worker_refs wc pl v)" for v by (auto simp: refs refs')
    show "distinct (worker_refs wc pl v) \<Longrightarrow> distinct (worker_refs wc pl' v)" for v
      by (auto simp: refs refs' split: if_splits)
    show "v < N \<Longrightarrow> i \<in> set (worker_refs wc pl' v) \<Longrightarrow> PacketStore pl' i = PacketStore pl i" for v i
      using other [of v] by (auto simp: pl'_def)
  qed (simp_all add: pl'_def)
  moreover have "Work s' v = map (entry pl') (worker_refs wc pl' v)" if "v < N" for v
  proof -
    have "map (entry pl') (worker_refs wc pl' v) = map (entry pl) (worker_refs wc pl' v)"
      using other [OF that] by (auto intro!: entry_cong simp: pl'_def)
    then show ?thesis using sim(3) that by (simp add: refs' s'_def)
  qed
  moreover have "PathTransit pl' p = of_nat (Transits s' p)" for p
  proof (cases "pk_stream pk \<noteq> None \<and> p = pk_Path pk")
    case True
    then have "0 < Transits s p"
      using proto_safe [OF sim(2) assms(2), of p True] work by auto
    then show ?thesis using True sim(4) by (simp add: pl'_def T_def s'_def of_nat_diff)
  next
    case False
    then show ?thesis using sim(4) by (auto simp: pl'_def T_def s'_def)
  qed
  moreover have "proto_inv N s'" by (rule proto_step_inv [OF step sim(2)])
  moreover have "Owned s' = map st_paths (StreamPointers pl')" "Live s' = dom (Paths (Store pl'))"
    using sim(5,6) by (simp_all add: pl'_def s'_def)
  ultimately have "simulates N wc pl' s'" unfolding simulates_def by blast
  with run step show ?thesis by blast
qed

section \<open>Streams and paths\<close>

lemma map_st_paths_update:
  "j < length ss \<Longrightarrow> map st_paths (ss[j := st\<lparr>st_paths := ps\<rparr>]) =
   map st_paths (take j ss) @ ps # map st_paths (drop (Suc j) ss)"
  by (simp add: upd_conv_take_nth_drop)

lemma remove_streams_simulates:
  assumes "simulates N wc pl s"
  shows "\<exists>s'. proto_step N s s' \<and> simulates N wc (remove_streams P pl) s'"
proof -
  let ?s = "s\<lparr>Owned := map st_paths (filter (\<lambda>x. \<not> P x) (StreamPointers pl))\<rparr>"
  have "subseq (map st_paths (filter (\<lambda>x. \<not> P x) (StreamPointers pl))) (Owned s)"
    using assms by (simp add: simulates_def subseq_map)
  then have step: "proto_step N s ?s" by (rule proto_step.remove)
  moreover have "simulates N wc (remove_streams P pl) ?s"
    using assms proto_step_inv [OF step]
    by (simp add: simulates_def remove_streams_def refs_ok_def worker_refs_def entry_def)
  ultimately show ?thesis by blast
qed

lemma add_stream_simulates:
  assumes "simulates N wc pl s"
  shows "\<exists>s'. proto_step N s s' \<and> simulates N wc (add_stream i pl) s'"
proof -
  have step: "proto_step N s (s\<lparr>Owned := Owned s @ [[]]\<rparr>)" by (rule proto_step.add)
  moreover have "simulates N wc (add_stream i pl) (s\<lparr>Owned := Owned s @ [[]]\<rparr>)"
    using assms proto_step_inv [OF step]
    by (simp add: simulates_def add_stream_def refs_ok_def worker_refs_def entry_def)
  ultimately show ?thesis by blast
qed

lemma create_path_simulates:
  assumes "simulates N wc pl s" "p \<notin> dom (Paths (Store pl))"
  shows "\<exists>s'. proto_step N s s' \<and> simulates N wc (create_path p P pl) s'"
proof -
  have sim: "proto_inv N s" "Live s = dom (Paths (Store pl))" using assms(1) unfolding simulates_def by blast+
  then have p: "p \<notin> Live s" using assms(2) by simp
  have step: "proto_step N s (s\<lparr>Live := insert p (Live s)\<rparr>)" by (rule proto_step.create [OF p])
  moreover have "simulates N wc (create_path p P pl) (s\<lparr>Live := insert p (Live s)\<rparr>)"
    using assms(1) proto_step_inv [OF step sim(1)] dead_untracked [OF sim(1) p]
    by (auto simp: simulates_def create_path_def refs_ok_def worker_refs_def entry_def)
  ultimately show ?thesis by blast
qed

lemma addConverter_result:
  "addConverter st p ps = Inr (r, qs) \<Longrightarrow> r = 1 \<and> qs = ps \<or> r = 0 \<and> qs = ps @ [p]"
  by (auto simp: addConverter_def bind_res_Inr_iff split: if_splits)

lemma stream_addConverter_simulates:
  assumes "simulates N wc pl s" "j < length (StreamPointers pl)" "path_unused pl p"
    and "p \<in> dom (Paths (Store pl))" "stream_addConverter j p pl = Inr pl'"
  shows "\<exists>s'. (proto_step N)\<^sup>*\<^sup>* s s' \<and> simulates N wc pl' s'"
proof -
  let ?ss = "StreamPointers pl" and ?st = "StreamPointers pl ! j"
  have sim: "proto_inv N s" "Owned s = map st_paths ?ss" "Live s = dom (Paths (Store pl))"
    using assms(1) unfolding simulates_def by blast+
  obtain r ps where a: "addConverter (Store pl) p (st_paths ?st) = Inr (r, ps)"
      and pl': "pl' = pl\<lparr>StreamPointers := ?ss[j := ?st\<lparr>st_paths := ps\<rparr>]\<rparr>"
    using assms(5) by (auto simp: stream_addConverter_def Let_def bind_res_Inr_iff)
  show ?thesis
  proof (cases "ps = st_paths ?st")
    case True
    then have "pl' = pl" by (simp add: pl' list_update_id)
    with assms(1) show ?thesis by blast
  next
    case False
    with addConverter_result [OF a] have ps: "ps = st_paths ?st @ [p]" by simp
    let ?xs = "map st_paths (take j ?ss)" and ?ys = "map st_paths (drop (Suc j) ?ss)"
    let ?s = "s\<lparr>Owned := ?xs @ (st_paths ?st @ [p]) # ?ys\<rparr>"
    have own: "Owned s = ?xs @ st_paths ?st # ?ys"
      using sim(2) map_st_paths_update [OF assms(2), where st = ?st and ps = "st_paths ?st"] by (simp add: list_update_id)
    have "p \<in> Live s" "p \<notin> set (concat (Owned s))"
      using assms(3,4) sim(2,3) by (auto simp: path_unused_def)
    then have step: "proto_step N s ?s" using own by (rule proto_step.grow)
    moreover have "simulates N wc pl' ?s"
      using assms(1) proto_step_inv [OF step sim(1)] map_st_paths_update [OF assms(2), where st = ?st and ps = ps]
      by (simp add: simulates_def pl' ps refs_ok_def worker_refs_def entry_def)
    ultimately show ?thesis by blast
  qed
qed

lemma delete_path_simulates:
  assumes "simulates N wc pl s" "N < 2 ^ 32" "path_unused pl p" "delete_path p pl = Inr pl'"
  shows "\<exists>s'. proto_step N s s' \<and> simulates N wc pl' s'"
proof -
  have sim: "proto_inv N s" "Owned s = map st_paths (StreamPointers pl)"
      "\<forall>p. PathTransit pl p = of_nat (Transits s p)" "Live s = dom (Paths (Store pl))"
    using assms(1) unfolding simulates_def by blast+
  have z: "PathTransit pl p = 0" and pl': "pl' = pl\<lparr>Store := (Store pl)\<lparr>Paths := (Paths (Store pl))(p := None)\<rparr>\<rparr>"
    using assms(4) by (auto simp: delete_path_def split: if_splits)
  have "Transits s p < 2 ^ 32" using transits_bound [OF sim(1), of p] assms(2) by simp
  then have "unat (of_nat (Transits s p) :: u32) = Transits s p" by (simp add: unat_of_nat_small)
  moreover have "(of_nat (Transits s p) :: u32) = 0" using sim(3) z by metis
  ultimately have "Transits s p = 0" by simp
  moreover have "p \<notin> set (concat (Owned s))" using assms(3) sim(2) by (auto simp: path_unused_def)
  ultimately have step: "proto_step N s (s\<lparr>Live := Live s - {p}\<rparr>)" by (intro proto_step.free)
  moreover have "simulates N wc pl' (s\<lparr>Live := Live s - {p}\<rparr>)"
    using assms(1) proto_step_inv [OF step sim(1)]
    by (auto simp: simulates_def pl' refs_ok_def worker_refs_def entry_def)
  ultimately show ?thesis by blast
qed

section \<open>Every interleaving\<close>

text \<open>
  The steps of the workers (each under the locks the code takes), of the EPICS threads that put
  updates on the queues of the streams, and of the threads that add and remove streams and paths.
\<close>

inductive pl_step ::
  "('q, nat option) queue_ops \<Rightarrow> ('q \<Rightarrow> nat option list) \<Rightarrow> ('w, nat) queue_ops \<Rightarrow> 'k rdkafka \<Rightarrow>
   ConverterEnv \<Rightarrow> (fb_table \<Rightarrow> u8 list) \<Rightarrow> nat \<Rightarrow> ('q, 'w, 'k) pipeline \<Rightarrow> ('q, 'w, 'k) pipeline \<Rightarrow> bool"
  for Q oc W K E serialize N where
  schedule: "w < N \<Longrightarrow> Held pl w = None \<Longrightarrow> size_approx W (WorkQueues pl w) = 0 \<Longrightarrow>
    \<forall>i. length (oc (Rings pl i)) < rds \<Longrightarrow> rds \<le> 2 ^ 32 \<Longrightarrow>
    pl_step Q oc W K E serialize N pl (snd (scheduler_fill Q W rds w nfm pl))"
| take_one: "w < N \<Longrightarrow> Held pl w = None \<Longrightarrow>
    pl_step Q oc W K E serialize N pl (snd (take_packet W w pl))"
| emit: "w < N \<Longrightarrow> Held pl w = Some k \<Longrightarrow>
    pl_step Q oc W K E serialize N pl (snd (emit_held K E serialize w pl))"
| release: "w < N \<Longrightarrow> Held pl w = Some k \<Longrightarrow>
    pl_step Q oc W K E serialize N pl (snd (release_held w pl))"
| update: "pl_step Q oc W K E serialize N pl (pl\<lparr>Rings := r, UpdateStore := u\<rparr>)"
| remove: "pl_step Q oc W K E serialize N pl (remove_streams P pl)"
| add: "pl_step Q oc W K E serialize N pl (add_stream i pl)"
| create: "p \<notin> dom (Paths (Store pl)) \<Longrightarrow> pl_step Q oc W K E serialize N pl (create_path p P pl)"
| connect: "j < length (StreamPointers pl) \<Longrightarrow> path_unused pl p \<Longrightarrow> p \<in> dom (Paths (Store pl)) \<Longrightarrow>
    stream_addConverter j p pl = Inr pl' \<Longrightarrow> pl_step Q oc W K E serialize N pl pl'"
| destroy: "path_unused pl p \<Longrightarrow> delete_path p pl = Inr pl' \<Longrightarrow> pl_step Q oc W K E serialize N pl pl'"

text \<open>Nothing has been added yet.\<close>

definition pl_start :: "('w \<Rightarrow> nat list) \<Rightarrow> ('q, 'w, 'k) pipeline \<Rightarrow> bool" where
  "pl_start wc pl \<longleftrightarrow> StreamPointers pl = [] \<and> Held pl = (\<lambda>w. None) \<and> (\<forall>w. wc (WorkQueues pl w) = [])
     \<and> PacketStore pl = Map.empty \<and> PathTransit pl = (\<lambda>p. 0) \<and> Paths (Store pl) = Map.empty"

lemma pl_start_simulates:
  "pl_start wc pl \<Longrightarrow>
   simulates N wc pl \<lparr>Work = (\<lambda>w. []), Transits = (\<lambda>p. 0), Owned = [], Live = {}\<rparr>"
  by (simp add: pl_start_def simulates_def refs_ok_def worker_refs_def proto_inv_def)

lemma pl_step_simulates:
  assumes "ready_queue W wc" "sized_queue W wc" "sized_queue Q oc" "N < 2 ^ 32"
    and "pl_step Q oc W K E serialize N pl pl'" "simulates N wc pl s"
  shows "\<exists>s'. (proto_step N)\<^sup>*\<^sup>* s s' \<and> simulates N wc pl' s'"
  using assms(5,6)
proof (induction rule: pl_step.induct)
  case (schedule w pl rds nfm)
  have "wc (WorkQueues pl w) = []"
    using sized_queue.size_exact [OF assms(2)] schedule(3) by simp
  then obtain n pl1 s1 where "scheduler_fill Q W rds w nfm pl = (Inr n, pl1)"
      "(proto_step N)\<^sup>*\<^sup>* s s1" "simulates N wc pl1 s1"
    using scheduler_fill_simulates [OF assms(1,3) schedule(5,1,6,2) _ schedule(4)] by blast
  then show ?case by auto
next
  case (take_one w pl)
  have "fifo_queue W wc" using assms(1) by (simp add: ready_queue_def)
  then obtain b pl1 where "take_packet W w pl = (Inr b, pl1)" "simulates N wc pl1 s"
    using take_packet_simulates take_one by blast
  then show ?case by auto
next
  case (emit w pl k)
  then show ?case using emit_held_simulates by blast
next
  case (release w pl k)
  from release_held_simulates [OF release(3,1,2)] show ?case by auto
next
  case (update pl u r)
  then have "simulates N wc (pl\<lparr>Rings := r, UpdateStore := u\<rparr>) s"
    by (intro simulates_cong [OF update]) (simp_all add: worker_refs_def)
  then show ?case by blast
next
  case (remove pl P)
  from remove_streams_simulates [OF remove, of P] show ?case by blast
next
  case (add pl i)
  from add_stream_simulates [OF add, of i] show ?case by blast
next
  case (create p pl P)
  from create_path_simulates [OF create(2,1), of P] show ?case by blast
next
  case (connect j pl p pl')
  then show ?case by (intro stream_addConverter_simulates)
next
  case (destroy pl p pl')
  from delete_path_simulates [OF destroy(3) assms(4) destroy(1,2)] show ?case by blast
qed

interpretation pipeline: simulation "pl_step Q oc W K E serialize N" "proto_step N"
  "\<lambda>pl s. ready_queue W wc \<and> sized_queue W wc \<and> sized_queue Q oc \<and> N < 2 ^ 32 \<and> simulates N wc pl s"
  for Q oc W wc K E serialize N
  by unfold_locales (use pl_step_simulates in blast)

definition proto_start :: proto where
  "proto_start = \<lparr>Work = (\<lambda>w. []), Transits = (\<lambda>p. 0), Owned = [], Live = {}\<rparr>"

lemma reachable_refines:
  assumes "ready_queue W wc" "sized_queue W wc" "sized_queue Q oc" "N < 2 ^ 32"
    and "pl_start wc pl0" "(pl_step Q oc W K E serialize N)\<^sup>*\<^sup>* pl0 pl"
  shows "\<exists>s. (proto_step N)\<^sup>*\<^sup>* proto_start s \<and> simulates N wc pl s"
  using pipeline.simulates_reachable [OF assms(6), where wc = wc and a = proto_start] assms(1-4)
    pl_start_simulates [OF assms(5), of N] unfolding proto_start_def by blast

lemma reachable_simulates:
  assumes "ready_queue W wc" "sized_queue W wc" "sized_queue Q oc" "N < 2 ^ 32"
    and "pl_start wc pl0" "(pl_step Q oc W K E serialize N)\<^sup>*\<^sup>* pl0 pl"
  shows "\<exists>s. simulates N wc pl s"
  using reachable_refines [OF assms] by blast

text \<open>When no worker has a packet any more, no path is in transit.\<close>

lemma drained_no_transit:
  assumes "simulates N wc pl s" "\<forall>w < N. worker_refs wc pl w = []"
  shows "PathTransit pl = (\<lambda>p. 0)"
proof
  fix p
  have "Transits s p = (\<Sum>w < N. tracked p (Work s w))" using assms(1) by (simp add: simulates_def proto_inv_def)
  also have "\<dots> = 0" using assms by (simp add: simulates_def tracked_def)
  finally show "PathTransit pl p = 0" using assms(1) by (simp add: simulates_def)
qed

lemma simulates_live:
  assumes "simulates N wc pl s" "N < 2 ^ 32" "w < N" "k \<in> set (worker_refs wc pl w)"
  shows "\<exists>pk. PacketStore pl k = Some pk \<and> pk_Path pk \<in> dom (Paths (Store pl))
     \<and> PathTransit pl (pk_Path pk) \<noteq> 0"
proof -
  have sim: "refs_ok N wc pl" "proto_inv N s" "Work s w = map (entry pl) (worker_refs wc pl w)"
      "\<forall>p. PathTransit pl p = of_nat (Transits s p)" "Live s = dom (Paths (Store pl))"
    using assms(1,3) unfolding simulates_def by blast+
  obtain pk where pk: "PacketStore pl k = Some pk"
    using sim(1) assms(3,4) unfolding refs_ok_def by blast
  have "entry pl k \<in> set (Work s w)" using sim(3) assms(4) by simp
  then have "(pk_Path pk, pk_stream pk \<noteq> None) \<in> set (Work s w)"
    using pk by (simp add: entry_def packet_entry_def)
  from proto_safe [OF sim(2) assms(3) this]
  have safe: "pk_Path pk \<in> Live s" "0 < Transits s (pk_Path pk)" "Transits s (pk_Path pk) \<le> N" by auto
  then have "unat (of_nat (Transits s (pk_Path pk)) :: u32) = Transits s (pk_Path pk)"
    using assms(2) by (simp add: unat_of_nat_small)
  then have "(of_nat (Transits s (pk_Path pk)) :: u32) \<noteq> 0" using safe(2) by (metis unat_0 less_irrefl)
  then show ?thesis using pk sim(4,5) safe(1) by auto
qed




section \<open>Examples\<close>

definition example_start :: "(nat option list, nat list, nat list) pipeline" where
  "example_start = \<lparr>StreamPointers = [], Rings = (\<lambda>i. []), WorkQueues = (\<lambda>w. []), Held = (\<lambda>w. None),
     PacketStore = Map.empty, NextPacketRef = 0, PathTransit = (\<lambda>p. 0), UpdateStore = Map.empty,
     Store = one_path\<lparr>Paths := Map.empty\<rparr>, sid = 0\<rparr>"

definition example_path :: ConversionPath where
  "example_path = \<lparr>path_converter = 0, kafka_output = \<lparr>KafkaProducer = 0, Name = ''t''\<rparr>\<rparr>"

text \<open>A stream with one path and one update.\<close>

definition example_loaded :: "(nat option list, nat list, nat list) pipeline" where
  "example_loaded = example_start\<lparr>StreamPointers := [\<lparr>st_id = 0, st_paths = [0]\<rparr>],
     Store := one_path\<lparr>Paths := [0 \<mapsto> example_path]\<rparr>, PathTransit := (\<lambda>p. 0)(0 := 0),
     Rings := (\<lambda>i. [Some 0]), UpdateStore := [0 \<mapsto> empty_update]\<rparr>"

abbreviation example_step ::
  "(nat option list, nat list, nat list) pipeline \<Rightarrow> (nat option list, nat list, nat list) pipeline \<Rightarrow> bool" where
  "example_step \<equiv> pl_step growing_queue (\<lambda>q. q) growing_queue (list_client 3) plain_env (\<lambda>_. [1]) 1"

lemma example_reached: "example_step\<^sup>*\<^sup>* example_start example_loaded"
proof -
  let ?a = "add_stream 0 example_start" and ?c = "create_path 0 example_path (add_stream 0 example_start)"
  let ?d = "?c\<lparr>StreamPointers := [\<lparr>st_id = 0, st_paths = [0]\<rparr>]\<rparr>"
  let ?e = "?d\<lparr>Rings := (\<lambda>i. [Some 0]), UpdateStore := [0 \<mapsto> empty_update]\<rparr>"
  have 1: "example_step example_start ?a" by (rule pl_step.add)
  have 2: "example_step ?a ?c"
    by (rule pl_step.create) (simp add: add_stream_def example_start_def)
  have 3: "example_step ?c ?d"
    by (rule pl_step.connect [of 0 _ 0])
       (simp_all add: add_stream_def create_path_def example_start_def path_unused_def
         stream_addConverter_def addConverter_def)
  have 4: "example_step ?d ?e" by (rule pl_step.update)
  have "example_step\<^sup>*\<^sup>* example_start ?e"
    by (rule converse_rtranclp_into_rtranclp [where r = example_step, OF 1
        converse_rtranclp_into_rtranclp [where r = example_step, OF 2
        converse_rtranclp_into_rtranclp [where r = example_step, OF 3 r_into_rtranclp [where r = example_step, OF 4]]]])
  moreover have "?e = example_loaded"
    by (simp add: example_loaded_def add_stream_def create_path_def example_start_def)
  ultimately show ?thesis by simp
qed

lemma example_start_ok: "pl_start (\<lambda>q. q) example_start"
  by (simp add: pl_start_def example_start_def)


lemma example_filled:
  "WorkQueues (snd (scheduler_fill growing_queue growing_queue (Suc (Suc 0)) 0 5 example_loaded)) 0 = [0]"
  by (simp add: scheduler_fill_def example_loaded_def example_start_def on_fill_def fillConversionQueue_def
      fill_view_def put_view_def mark_last_def prog_defs cong: if_cong)



end
