(* ===== verification/Worker_Progress.thy ===== *)
theory Worker_Progress
  imports Worker_Safety
begin

text \<open>
  The inner loop of \<open>ConversionWorker::run\<close> ends: with converters and producers that exist and updates
  that the converters accept, a worker emits and destroys every packet of its queue. The fuel of the
  loop is enough as soon as it exceeds the length of the queue.
\<close>

section \<open>What emitting keeps\<close>

text \<open>The same paths, producers for the same numbers, converters of the same kind for the same numbers.\<close>

definition same_kind :: "ConverterEnv \<Rightarrow> Converter \<Rightarrow> Converter \<Rightarrow> bool" where
  "same_kind E c c' \<longleftrightarrow> creator_accepts E (conv c') = creator_accepts E (conv c)"

definition same_objects :: "ConverterEnv \<Rightarrow> 'k conv_store \<Rightarrow> 'k conv_store \<Rightarrow> bool" where
  "same_objects E s s' \<longleftrightarrow> Paths s' = Paths s \<and> dom (Producers (KafkaSet s')) = dom (Producers (KafkaSet s))
     \<and> (\<forall>i. rel_option (same_kind E) (Converters s i) (Converters s' i))"

lemma creator_kind:
  assumes "creator_create E up (cr, g) = (r, (cr', g'))"
  shows "creator_accepts E' cr' = creator_accepts E' cr"
  using assms by (cases cr) (auto simp: fun_eq_iff split: prod.splits)

lemma on_producer_dom: "dom (Producers (snd (on_producer i m ks))) = dom (Producers ks)"
  by (auto simp: on_producer_def split: option.splits prod.splits)

lemma KafkaOutput_emit_dom: "dom (Producers (snd (KafkaOutput_emit K serialize out fb ks))) = dom (Producers ks)"
proof -
  have "keeps_inv (\<lambda>t. dom (Producers t) = dom (Producers ks)) (KafkaOutput_emit K serialize out fb)"
    unfolding KafkaOutput_emit_def Let_def
    by (intro keeps keeps_upd keeps_invI) (simp_all add: on_producer_dom)
  from keeps_invD [OF this, of ks] show ?thesis by simp
qed

lemma same_kind_refl [simp]: "rel_option (same_kind E) v v"
  by (cases v) (simp_all add: same_kind_def)

lemma snd_on_kafka_set: "snd (on_kafka_set m s) = s\<lparr>KafkaSet := snd (m (KafkaSet s))\<rparr>"
  by (simp add: on_kafka_set_def split_def)

lemma same_objects_refl: "same_objects E s s"
  by (simp add: same_objects_def)

lemma same_kind_trans: "same_kind E a b \<Longrightarrow> same_kind E b c \<Longrightarrow> same_kind E a c"
  by (simp add: same_kind_def)

lemma same_objects_trans: "same_objects E a b \<Longrightarrow> same_objects E b c \<Longrightarrow> same_objects E a c"
  unfolding same_objects_def
  by (metis (no_types, lifting) same_kind_trans option.rel_transp transpD transpI)

lemma on_converter_same:
  assumes "same_objects E s t"
  shows "same_objects E s (snd (on_converter i (Converter_convert E' up) t))"
proof (cases "Converters t i")
  case None
  with assms show ?thesis by (simp add: on_converter_def)
next
  case (Some c)
  obtain r cr g where r: "creator_create E' up (conv c, Globals t) = (r, (cr, g))" by (metis prod.exhaust)
  have t: "snd (on_converter i (Converter_convert E' up) t)
      = t\<lparr>Converters := (Converters t)(i \<mapsto> c\<lparr>conv := cr\<rparr>), Globals := g\<rparr>"
    by (simp add: on_converter_def Converter_convert_def Some r)
  have s: "Paths t = Paths s" "dom (Producers (KafkaSet t)) = dom (Producers (KafkaSet s))"
      "rel_option (same_kind E) (Converters s j) (Converters t j)" for j
    using assms by (simp_all add: same_objects_def)
  have "creator_accepts E cr = creator_accepts E (conv c)" by (rule creator_kind [OF r])
  then have "rel_option (same_kind E) (Converters s i) (Some (c\<lparr>conv := cr\<rparr>))"
    using s(3) [of i] Some by (cases "Converters s i") (simp_all add: same_kind_def)
  then show ?thesis unfolding t same_objects_def using s by simp
qed

lemma path_emit_same: "same_objects E s (snd (path_emit K E serialize path up s))"
proof -
  have "keeps_inv (same_objects E s) (path_emit K E serialize path up)"
    unfolding path_emit_def
  proof (intro keeps)
    show "keeps_inv (same_objects E s) (on_converter i (Converter_convert E up))" for i
      by (rule keeps_invI) (rule on_converter_same)
    show "keeps_inv (same_objects E s) (on_kafka_set (KafkaOutput_emit K serialize out fb))" for out fb
      by (rule keeps_invI) (simp add: snd_on_kafka_set same_objects_def KafkaOutput_emit_dom)
  qed
  from keeps_invD [OF this same_objects_refl] show ?thesis .
qed

section \<open>One packet\<close>

text \<open>Every path has its producer and its converter.\<close>

definition usable :: "('k \<Rightarrow> nat multiset) \<Rightarrow> ConverterEnv \<Rightarrow> 'k conv_store \<Rightarrow> bool" where
  "usable pending E s \<longleftrightarrow> instances_ok pending (KafkaSet s) \<and> globals_ok E (Globals s)
     \<and> (\<forall>P \<in> ran (Paths s). Producers (KafkaSet s) (KafkaProducer (kafka_output P)) \<noteq> None
          \<and> Converters s (path_converter P) \<noteq> None)"

text \<open>The update of a packet is one its converter accepts.\<close>

definition convertible :: "ConverterEnv \<Rightarrow> ('q, 'w, 'k) pipeline \<Rightarrow> nat \<Rightarrow> bool" where
  "convertible E pl k \<longleftrightarrow> (\<forall>pk P c. PacketStore pl k = Some pk \<longrightarrow> Paths (Store pl) (pk_Path pk) = Some P \<longrightarrow>
     Converters (Store pl) (path_converter P) = Some c \<longrightarrow>
     (\<exists>u. UpdateStore pl (pk_Update pk) = Some u \<and> creator_accepts E (conv c) u))"

lemma same_objectsD:
  assumes "same_objects E s s'"
  shows "Paths s' = Paths s" "dom (Producers (KafkaSet s')) = dom (Producers (KafkaSet s))"
    "Converters s' i = Some c' \<Longrightarrow> \<exists>c. Converters s i = Some c \<and> creator_accepts E (conv c') = creator_accepts E (conv c)"
    "Converters s' i = None \<longleftrightarrow> Converters s i = None"
proof -
  have rel: "rel_option (same_kind E) (Converters s i) (Converters s' i)" using assms by (simp add: same_objects_def)
  then show "Converters s' i = Some c' \<Longrightarrow> \<exists>c. Converters s i = Some c \<and> creator_accepts E (conv c') = creator_accepts E (conv c)"
    by (cases "Converters s i") (auto simp: same_kind_def)
  show "Converters s' i = None \<longleftrightarrow> Converters s i = None"
    using rel by (cases "Converters s i"; cases "Converters s' i") auto
qed (use assms in \<open>simp_all add: same_objects_def\<close>)

lemma usable_same:
  assumes "usable pending E s" "same_objects E s s'" "instances_ok pending (KafkaSet s')" "globals_ok E (Globals s')"
  shows "usable pending E s'"
proof -
  have "Producers (KafkaSet s') i \<noteq> None \<longleftrightarrow> Producers (KafkaSet s) i \<noteq> None" for i
    using same_objectsD(2) [OF assms(2)] by (metis domIff)
  then show ?thesis
    using assms(1,3,4) same_objectsD(1,4) [OF assms(2)] by (simp add: usable_def)
qed

lemma convertible_same:
  assumes "convertible E pl k" "same_objects E (Store pl) (Store pl')"
    and "PacketStore pl' k = PacketStore pl k" "UpdateStore pl' = UpdateStore pl"
  shows "convertible E pl' k"
  unfolding convertible_def
proof (intro allI impI)
  fix pk P c' assume pk: "PacketStore pl' k = Some pk" "Paths (Store pl') (pk_Path pk) = Some P"
    "Converters (Store pl') (path_converter P) = Some c'"
  obtain c where "Converters (Store pl) (path_converter P) = Some c"
      "creator_accepts E (conv c') = creator_accepts E (conv c)"
    using same_objectsD(3) [OF assms(2) pk(3)] by blast
  moreover have "PacketStore pl k = Some pk" "Paths (Store pl) (pk_Path pk) = Some P"
    using pk assms(3) same_objectsD(1) [OF assms(2)] by simp_all
  ultimately show "\<exists>u. UpdateStore pl' (pk_Update pk) = Some u \<and> creator_accepts E (conv c') u"
    using assms(1,4) unfolding convertible_def by auto
qed

text \<open>
  What a packet asks for, its update and its path, and the reference for what becomes of it: the update is
  converted and sent at once, with no queue in between.
\<close>

definition job_of :: "ConversionWorkPacket \<Rightarrow> nat \<times> nat" where
  "job_of pk = (pk_Update pk, pk_Path pk)"

definition forward ::
  "'k rdkafka \<Rightarrow> ConverterEnv \<Rightarrow> (fb_table \<Rightarrow> u8 list) \<Rightarrow> (nat \<rightharpoonup> EpicsPVUpdate) \<Rightarrow> nat \<times> nat \<Rightarrow> ('k conv_store, unit) prog" where
  "forward K E serialize U job =
     bnd (of_res (deref (U (fst job)))) (\<lambda>up. thn (path_emit K E serialize (snd job) up) (ret ()))"

definition queue_jobs :: "('w \<Rightarrow> nat list) \<Rightarrow> ('q, 'w, 'k) pipeline \<Rightarrow> nat \<Rightarrow> (nat \<times> nat) list" where
  "queue_jobs wc pl w = map (\<lambda>k. job_of (the (PacketStore pl k))) (wc (WorkQueues pl w))"

lemma emit_held_returns:
  assumes "rd_client K pending" "simulates N wc pl s" "N < 2 ^ 32" "w < N" "Held pl w = Some k"
    and "usable pending E (Store pl)" "convertible E pl k"
  shows "\<exists>st. emit_held K E serialize w pl = (Inr (), pl\<lparr>Store := st\<rparr>) \<and> usable pending E st
    \<and> same_objects E (Store pl) st
    \<and> forward K E serialize (UpdateStore pl) (job_of (the (PacketStore pl k))) (Store pl) = (Inr (), st)"
proof -
  have "k \<in> set (worker_refs wc pl w)" by (simp add: worker_refs_def assms(5))
  from simulates_live [OF assms(2-4) this] obtain pk P where pk: "PacketStore pl k = Some pk"
      "Paths (Store pl) (pk_Path pk) = Some P" by blast
  have use: "instances_ok pending (KafkaSet (Store pl))" "globals_ok E (Globals (Store pl))"
      "Producers (KafkaSet (Store pl)) (KafkaProducer (kafka_output P)) \<noteq> None" "Converters (Store pl) (path_converter P) \<noteq> None"
    using assms(6) pk(2) by (auto simp: usable_def ran_def)
  then obtain c where c: "Converters (Store pl) (path_converter P) = Some c" by blast
  then obtain u where u: "UpdateStore pl (pk_Update pk) = Some u" "creator_accepts E (conv c) u"
    using assms(7) pk unfolding convertible_def by blast
  obtain x st where st: "path_emit K E serialize (pk_Path pk) u (Store pl) = (Inr x, st)"
      "instances_ok pending (KafkaSet st)" "globals_ok E (Globals st)"
    using path_emit_returns [OF assms(1) use(1,2) pk(2) use(3) c u(2)] by blast
  have same: "same_objects E (Store pl) st"
    using path_emit_same [of E "Store pl" K serialize "pk_Path pk" u] st(1) by simp
  have "emit_held K E serialize w pl = (Inr (), pl\<lparr>Store := st\<rparr>)"
    using pk(1) u(1) st(1) by (simp add: emit_held_def on_store_def prog_defs assms(5))
  moreover have "forward K E serialize (UpdateStore pl) (job_of (the (PacketStore pl k))) (Store pl) = (Inr (), st)"
    using pk(1) u(1) st(1) by (simp add: forward_def job_of_def prog_defs)
  ultimately show ?thesis using usable_same [OF assms(6) same st(2,3)] same by blast
qed

lemma release_held_fields:
  assumes "Held pl w = Some k" "PacketStore pl k = Some pk" "release_held w pl = (Inr (), pl')"
  shows "PacketStore pl' = (PacketStore pl)(k := None)" "Store pl' = Store pl" "UpdateStore pl' = UpdateStore pl"
    "WorkQueues pl' = WorkQueues pl" "Held pl' = (Held pl)(w := None)" "Rings pl' = Rings pl" "StreamPointers pl' = StreamPointers pl"
  using assms by (auto simp: release_held_def on_fill_def delete_packet_def fill_view_def put_view_def prog_defs
      split: if_splits)

section \<open>The loop\<close>

lemma restrict_map_step: "(m(k := None)) |` (- A) = m |` (- insert k A)"
  by (auto simp: restrict_map_def fun_eq_iff)

lemma drain_worker_run:
  assumes K: "rd_client K pending" and W: "fifo_queue W wc" and N: "N < 2 ^ 32" "w < N"
  shows "simulates N wc pl s \<Longrightarrow> Held pl w = None \<Longrightarrow> usable pending E (Store pl) \<Longrightarrow>
    \<forall>k \<in> set (wc (WorkQueues pl w)). convertible E pl k \<Longrightarrow> length (wc (WorkQueues pl w)) < rounds \<Longrightarrow>
    \<exists>pl'. drain_worker W K E serialize w rounds pl = (Inr (), pl') \<and> wc (WorkQueues pl' w) = [] \<and> Held pl' w = None
      \<and> PacketStore pl' = PacketStore pl |` (- set (wc (WorkQueues pl w))) \<and> usable pending E (Store pl')
      \<and> Rings pl' = Rings pl \<and> StreamPointers pl' = StreamPointers pl \<and> UpdateStore pl' = UpdateStore pl
      \<and> same_objects E (Store pl) (Store pl') \<and> (\<exists>s'. simulates N wc pl' s')
      \<and> (\<forall>v. v \<noteq> w \<longrightarrow> WorkQueues pl' v = WorkQueues pl v \<and> Held pl' v = Held pl v)
      \<and> for_each (forward K E serialize (UpdateStore pl)) (queue_jobs wc pl w) (Store pl) = (Inr (), Store pl')"
proof (induction rounds arbitrary: pl s)
  case (Suc rounds)
  show ?case
  proof (cases "wc (WorkQueues pl w)")
    case Nil
    then have "try_dequeue W (WorkQueues pl w) = None" using fifo_queue.dequeue_None [OF W] by blast
    then have "drain_worker W K E serialize w (Suc rounds) pl = (Inr (), pl)" by (simp add: take_packet_def prog_defs)
    with Suc.prems Nil show ?thesis by (auto simp: queue_jobs_def run_prog same_objects_refl)
  next
    case (Cons k ks)
    obtain q where q: "try_dequeue W (WorkQueues pl w) = Some (k, q)" "wc q = ks"
      using fifo_queue.dequeue_Cons [OF W Cons] by blast
    define pl1 where "pl1 = pl\<lparr>WorkQueues := (WorkQueues pl)(w := q), Held := (Held pl)(w := Some k)\<rparr>"
    have take: "take_packet W w pl = (Inr True, pl1)" by (simp add: take_packet_def prog_defs q(1) pl1_def)
    obtain s1 where s1: "simulates N wc pl1 s1"
      using take_packet_simulates [OF W Suc.prems(1,2)] take by auto
    have held: "Held pl1 w = Some k" "usable pending E (Store pl1)" using Suc.prems(3) by (simp_all add: pl1_def)
    have conv: "convertible E pl1 i" if "i \<in> set (k # ks)" for i
      using that Suc.prems(4) Cons by (auto simp: pl1_def convertible_def)
    obtain st where st: "emit_held K E serialize w pl1 = (Inr (), pl1\<lparr>Store := st\<rparr>)" "usable pending E st"
        "same_objects E (Store pl1) st"
        "forward K E serialize (UpdateStore pl1) (job_of (the (PacketStore pl1 k))) (Store pl1) = (Inr (), st)"
      using emit_held_returns [OF K s1 N held conv] by auto
    define pl2 where "pl2 = pl1\<lparr>Store := st\<rparr>"
    have s2: "simulates N wc pl2 s1" using emit_held_simulates [OF s1, of K E serialize w] st(1) by (simp add: pl2_def)
    have held2: "Held pl2 w = Some k" using held(1) by (simp add: pl2_def)
    obtain pl3 s3 where r: "release_held w pl2 = (Inr (), pl3)" "simulates N wc pl3 s3"
      using release_held_simulates [OF s2 N(2) held2] by blast
    have in_refs: "distinct (k # ks)" "PacketStore pl2 k \<noteq> None"
      using s2 N(2) held2 q(2) unfolding simulates_def refs_ok_def worker_refs_def by (auto simp: pl2_def pl1_def)
    then obtain pk where pk: "PacketStore pl2 k = Some pk" by blast
    note f = release_held_fields [OF held2 pk r(1)]
    have q3: "wc (WorkQueues pl3 w) = ks" by (simp add: f(4) pl2_def pl1_def q(2))
    have "convertible E pl3 i" if "i \<in> set ks" for i
    proof (rule convertible_same [of E pl1])
      show "convertible E pl1 i" using conv that by simp
      show "PacketStore pl3 i = PacketStore pl1 i" using that in_refs(1) by (auto simp: f(1) pl2_def)
    qed (simp_all add: f pl2_def st(3))
    then obtain pl' where pl': "drain_worker W K E serialize w rounds pl3 = (Inr (), pl')" "wc (WorkQueues pl' w) = []"
        "Held pl' w = None" "PacketStore pl' = PacketStore pl3 |` (- set ks)" "usable pending E (Store pl')" "Rings pl' = Rings pl3"
        "StreamPointers pl' = StreamPointers pl3" "UpdateStore pl' = UpdateStore pl3"
        "same_objects E (Store pl3) (Store pl')" "\<exists>s'. simulates N wc pl' s'"
        "\<forall>v. v \<noteq> w \<longrightarrow> WorkQueues pl' v = WorkQueues pl3 v \<and> Held pl' v = Held pl3 v"
        "for_each (forward K E serialize (UpdateStore pl3)) (queue_jobs wc pl3 w) (Store pl3) = (Inr (), Store pl')"
      using Suc.IH [OF r(2)] f(5) Suc.prems(5) Cons st(2) by (auto simp: q3 f(2) pl2_def)
    have "drain_worker W K E serialize w (Suc rounds) pl = (Inr (), pl')"
      using take st(1) r(1) pl'(1) by (simp add: run_thn run_bnd pl2_def)
    moreover have "PacketStore pl' = PacketStore pl |` (- set (wc (WorkQueues pl w)))"
      unfolding pl'(4) f(1) restrict_map_step by (simp add: Cons pl2_def pl1_def)
    moreover have "queue_jobs wc pl w = job_of (the (PacketStore pl1 k)) # queue_jobs wc pl3 w"
      using in_refs(1) by (auto simp: queue_jobs_def Cons q3 f(1) pl2_def pl1_def)
    then have "for_each (forward K E serialize (UpdateStore pl)) (queue_jobs wc pl w) (Store pl) = (Inr (), Store pl')"
      using st(4) pl'(12) by (simp add: run_thn f(2,3) pl2_def pl1_def)
    moreover have "Rings pl' = Rings pl" "StreamPointers pl' = StreamPointers pl" "UpdateStore pl' = UpdateStore pl"
      using pl'(6-8) by (simp_all add: f pl2_def pl1_def)
    moreover have "\<forall>v. v \<noteq> w \<longrightarrow> WorkQueues pl' v = WorkQueues pl v \<and> Held pl' v = Held pl v"
      using pl'(11) by (simp add: f(4,5) pl2_def pl1_def)
    moreover have "same_objects E (Store pl) (Store pl')"
      using same_objects_trans [OF st(3), of "Store pl'"] pl'(9) by (simp add: f(2) pl2_def pl1_def)
    ultimately show ?thesis using pl' by blast
  qed
qed simp

lemma example_usable: "usable mset plain_env (one_path\<lparr>Paths := [0 \<mapsto> example_path]\<rparr>)"
proof -
  have "Producers one_producer 0 \<noteq> None" by (simp add: one_producer_def)
  then show ?thesis
    by (auto simp: usable_def one_path_def one_producer_ok globals_ok_def severity_map_ok_init example_path_def)
qed

end
