(* ===== verification/Worker_Delivery.thy ===== *)
theory Worker_Delivery
  imports Worker_Progress
begin

text \<open>
  From the queues of the streams to the producers: a round of \<open>ConversionWorker::run\<close> against a reference that
  has no queues of packets and no workers, in which every update is converted and sent for every path of its
  stream at once, the streams in the order of the scheduler. The hand-over by packets loses, doubles and
  reorders nothing.
\<close>

section \<open>The reference\<close>

text \<open>The updates \<open>us\<close> of a stream with the paths \<open>ps\<close>, in the order they are to be sent.\<close>

definition stream_jobs :: "nat list \<Rightarrow> nat list \<Rightarrow> (nat \<times> nat) list" where
  "stream_jobs ps us = concat (map (\<lambda>u. map (\<lambda>p. (u, p)) ps) us)"

text \<open>The streams in the order in which the scheduler visits them.\<close>

definition visit_order :: "('q, 'w, 'k) pipeline \<Rightarrow> StreamEntry list" where
  "visit_order pl = rotate (if sid pl < length (StreamPointers pl) then sid pl else 0) (StreamPointers pl)"

text \<open>What is to be sent when \<open>taken i\<close> is taken from the queue of stream \<open>i\<close>.\<close>

definition jobs :: "(nat \<Rightarrow> nat option list) \<Rightarrow> StreamEntry list \<Rightarrow> (nat \<times> nat) list" where
  "jobs taken ses = concat (map (\<lambda>se. stream_jobs (st_paths se) (updates (taken (st_id se)))) ses)"

text \<open>The number of packets that all updates of the streams take.\<close>

definition cost :: "(nat \<Rightarrow> nat option list) \<Rightarrow> StreamEntry list \<Rightarrow> nat" where
  "cost waiting ses = (\<Sum>se \<leftarrow> ses. length (st_paths se) * length (updates (waiting (st_id se))))"

lemma length_stream_jobs [simp]: "length (stream_jobs ps us) = length ps * length us"
  by (induction us) (simp_all add: stream_jobs_def)

lemma jobs_simps [simp]:
  "jobs taken [] = []"
  "jobs taken (se # ses) = stream_jobs (st_paths se) (updates (taken (st_id se))) @ jobs taken ses"
  "jobs (\<lambda>i. []) ses = []"
  by (simp_all add: jobs_def stream_jobs_def)

lemma cost_simps [simp]:
  "cost waiting [] = 0"
  "cost waiting (se # ses) = length (st_paths se) * length (updates (waiting (st_id se))) + cost waiting ses"
  by (simp_all add: cost_def)

lemma jobs_cong: "(\<And>se. se \<in> set ses \<Longrightarrow> f (st_id se) = g (st_id se)) \<Longrightarrow> jobs f ses = jobs g ses"
  by (induction ses) simp_all

lemma cost_cong: "(\<And>se. se \<in> set ses \<Longrightarrow> f (st_id se) = g (st_id se)) \<Longrightarrow> cost f ses = cost g ses"
  by (induction ses) simp_all

lemma updates_append [simp]: "updates (xs @ ys) = updates xs @ updates ys"
  by (simp add: updates_def)

lemma set_jobs:
  assumes "(u, p) \<in> set (jobs taken ses)"
  shows "\<exists>se \<in> set ses. u \<in> set (updates (taken (st_id se))) \<and> p \<in> set (st_paths se)"
  using assms by (auto simp: jobs_def stream_jobs_def)

section \<open>Filling\<close>

lemma filled_jobs: "map job_of (filled_packets this ps us) = stream_jobs ps us"
proof (cases "us = []")
  case False
  then have us: "us = butlast us @ [last us]" by simp
  have "map job_of (concat (map (\<lambda>u. plain_packets u ps) vs)) = stream_jobs ps vs" for vs
    by (induction vs) (simp_all add: stream_jobs_def plain_packets_def job_of_def)
  moreover have "stream_jobs ps us = stream_jobs ps (butlast us) @ map (Pair (last us)) ps"
    by (subst us) (simp add: stream_jobs_def del: append_butlast_last_id)
  ultimately show ?thesis using False by (simp add: filled_packets_def tracked_packets_def job_of_def)
qed (simp add: filled_packets_def stream_jobs_def)

text \<open>Worker \<open>w\<close> has the packets \<open>pks\<close> in its queue, and the numbers of new packets are not in use.\<close>

definition carries :: "('w \<Rightarrow> nat list) \<Rightarrow> nat \<Rightarrow> ('q, 'w, 'k) pipeline \<Rightarrow> ConversionWorkPacket list \<Rightarrow> bool" where
  "carries wc w pl pks \<longleftrightarrow> (\<forall>k \<ge> NextPacketRef pl. PacketStore pl k = None)
     \<and> map (PacketStore pl) (wc (WorkQueues pl w)) = map Some pks"

lemma carries_sid [simp]: "carries wc w (pl\<lparr>sid := i\<rparr>) pks = carries wc w pl pks"
  by (simp add: carries_def)

lemma carries_fill:
  assumes "carries wc w pl pks" "adds_packets wc (fill_view i w pl) new e"
  shows "carries wc w (put_view i w e pl) (pks @ new)"
proof -
  let ?n = "NextPacketRef pl"
  have "k < ?n" if k: "k \<in> set (wc (WorkQueues pl w))" for k
  proof (rule ccontr)
    assume "\<not> k < ?n"
    then have "PacketStore pl k = None" using assms(1) by (simp add: carries_def)
    moreover have "PacketStore pl k \<in> set (map Some pks)"
      using assms(1) k unfolding carries_def by (metis image_eqI list.set_map)
    ultimately show False by auto
  qed
  then have "map (Packets e) (wc (WorkQueues pl w)) = map (PacketStore pl) (wc (WorkQueues pl w))"
    using assms(2) by (simp add: adds_packets_def fill_view_def)
  also have "\<dots> = map Some pks" using assms(1) by (simp add: carries_def)
  finally show ?thesis
    using assms(2) by (simp add: carries_def adds_packets_def packets_fresh_def fill_view_def put_view_def)
qed

text \<open>What neither the scheduler nor the queues change.\<close>

definition aside :: "('q, 'w, 'k) pipeline \<Rightarrow> StreamEntry list \<times> (nat \<rightharpoonup> EpicsPVUpdate) \<times> 'k conv_store \<times> (nat \<Rightarrow> nat option)" where
  "aside pl = (StreamPointers pl, UpdateStore pl, Store pl, Held pl)"

lemma stream_fill_delivers:
  assumes "ready_queue W wc" "sized_queue Q oc" "carries wc w pl pks"
    and "length (oc (Rings pl i)) < rds" "rds \<le> 2 ^ 32"
  shows "\<exists>us n pl' new. on_fill i w (fillConversionQueue Q W rds this ps mx) pl = (Inr n, pl')
     \<and> oc (Rings pl i) = us @ oc (Rings pl' i) \<and> (\<forall>j. j \<noteq> i \<longrightarrow> Rings pl' j = Rings pl j)
     \<and> carries wc w pl' (pks @ new) \<and> map job_of new = stream_jobs ps (updates us)
     \<and> unat n = length new \<and> unat n \<le> unat mx
     \<and> (length ps * length (updates (oc (Rings pl i))) \<le> unat mx \<longrightarrow> updates (oc (Rings pl' i)) = [])
     \<and> aside pl' = aside pl \<and> sid pl' = sid pl
     \<and> (us = [] \<longrightarrow> oc (Rings pl i) = [] \<or> unat mx < length ps)"
proof -
  let ?e = "fill_view i w pl"
  have fifo: "fifo_queue Q oc" using assms(2) by (simp add: sized_queue_def)
  have size: "size_approx Q (OutputQueue ?e) = length (oc (Rings pl i))"
    using sized_queue.size_exact [OF assms(2)] by (simp add: fill_view_def)
  have "packets_fresh ?e" using assms(3) by (simp add: carries_def packets_fresh_def fill_view_def)
  moreover have "size_approx Q (OutputQueue ?e) < 2 ^ 32" "size_approx Q (OutputQueue ?e) < rds"
    using assms(4,5) size by simp_all
  ultimately obtain us e where run: "fillConversionQueue Q W rds this ps mx ?e =
        (Inr (of_nat (length ps * length (updates us))), e)"
     and bound: "length ps * length (updates us) \<le> unat mx"
     and out: "oc (OutputQueue ?e) = us @ oc (OutputQueue e)"
     and stop: "oc (OutputQueue e) = [] \<or> length us = size_approx Q (OutputQueue ?e)
        \<or> unat mx < length ps * length (updates us) + length ps"
     and adds: "adds_packets wc ?e (filled_packets this ps (updates us)) e"
    using fillConversionQueue_run [OF assms(1) fifo, of ?e rds this ps mx] by blast
  let ?pl = "put_view i w e pl" and ?new = "filled_packets this ps (updates us)"
  have ring: "oc (Rings pl i) = us @ oc (Rings ?pl i)" using out by (simp add: put_view_def fill_view_def)
  have job: "map job_of ?new = stream_jobs ps (updates us)" by (rule filled_jobs)
  have len: "length ?new = length ps * length (updates us)" using arg_cong [OF job, of length] by simp
  have "length ps * length (updates us) < 2 ^ 32"
    using bound unsigned_less [of mx, where ?'a = nat] by simp
  then have n: "unat (of_nat (length ps * length (updates us)) :: u32) = length ?new"
    unfolding len by (intro unat_of_nat_small) simp
  have all: "updates (oc (Rings ?pl i)) = []" if "length ps * length (updates (oc (Rings pl i))) \<le> unat mx"
  proof (rule ccontr)
    assume more: "updates (oc (Rings ?pl i)) \<noteq> []"
    then have "oc (Rings ?pl i) \<noteq> []" by auto
    then have "unat mx < length ps * length (updates us) + length ps"
      using stop ring by (auto simp: size put_view_def)
    moreover have "1 \<le> length (updates (oc (Rings ?pl i)))" using more by (simp add: Suc_le_eq)
    then have "length ps * length (updates us) + length ps \<le> length ps * length (updates (oc (Rings pl i)))"
      unfolding ring by (simp add: add_mult_distrib2)
    ultimately show False using that by linarith
  qed
  have none: "us = [] \<longrightarrow> oc (Rings pl i) = [] \<or> unat mx < length ps"
    using stop ring by (auto simp: size put_view_def)
  have "on_fill i w (fillConversionQueue Q W rds this ps mx) pl = (Inr (of_nat (length ps * length (updates us))), ?pl)"
    by (simp add: on_fill_def run)
  moreover have "\<forall>j. j \<noteq> i \<longrightarrow> Rings ?pl j = Rings pl j" "aside ?pl = aside pl" "sid ?pl = sid pl"
    by (simp_all add: put_view_def aside_def)
  ultimately show ?thesis
    using ring carries_fill [OF assms(3) adds] job n bound len all none by metis
qed

section \<open>The scheduler\<close>

text \<open>
  \<open>pl'\<close> is reached from \<open>pl\<close> by handing updates of the streams \<open>ses\<close> to worker \<open>w\<close>, who has the packets \<open>pks\<close>:
  at most \<open>room\<close> packets in all, everything that waits when there is room for it, and something when there is room
  for one update of any stream.
\<close>

definition handed_over ::
  "('q \<Rightarrow> nat option list) \<Rightarrow> ('w \<Rightarrow> nat list) \<Rightarrow> nat \<Rightarrow> StreamEntry list \<Rightarrow> nat \<Rightarrow> ('q, 'w, 'k) pipeline \<Rightarrow>
   ConversionWorkPacket list \<Rightarrow> ('q, 'w, 'k) pipeline \<Rightarrow> (nat \<Rightarrow> nat option list) \<Rightarrow> ConversionWorkPacket list \<Rightarrow> bool" where
  "handed_over oc wc w ses room pl pks pl' taken new \<longleftrightarrow>
     (\<forall>i. oc (Rings pl i) = taken i @ oc (Rings pl' i)) \<and> (\<forall>i. i \<notin> st_id ` set ses \<longrightarrow> taken i = [])
     \<and> carries wc w pl' (pks @ new) \<and> map job_of new = jobs taken ses \<and> aside pl' = aside pl
     \<and> length new \<le> room
     \<and> (cost (\<lambda>i. oc (Rings pl i)) ses < room \<longrightarrow> (\<forall>se \<in> set ses. updates (oc (Rings pl' (st_id se))) = []))
     \<and> (0 < room \<longrightarrow> (\<forall>se \<in> set ses. length (st_paths se) \<le> room) \<longrightarrow> (\<exists>se \<in> set ses. oc (Rings pl (st_id se)) \<noteq> []) \<longrightarrow>
          (\<exists>i. taken i \<noteq> []))"

lemma handed_over_none:
  "carries wc w pl pks \<Longrightarrow> ses = [] \<or> room = 0 \<Longrightarrow> handed_over oc wc w ses room pl pks pl (\<lambda>i. []) []"
  by (auto simp: handed_over_def)

lemma handed_over_Cons:
  assumes "oc (Rings pl (st_id se)) = us @ oc (Rings pl1 (st_id se))" "\<forall>j. j \<noteq> st_id se \<longrightarrow> Rings pl1 j = Rings pl j"
    and "map job_of new1 = stream_jobs (st_paths se) (updates us)" "length new1 \<le> room" "aside pl1 = aside pl"
    and "length (st_paths se) * length (updates (oc (Rings pl (st_id se)))) \<le> room \<longrightarrow> updates (oc (Rings pl1 (st_id se))) = []"
    and "handed_over oc wc w ses (room - length new1) pl1 (pks @ new1) pl' taken new" "st_id se \<notin> st_id ` set ses"
    and "us = [] \<longrightarrow> oc (Rings pl (st_id se)) = [] \<or> room < length (st_paths se)"
  shows "handed_over oc wc w (se # ses) room pl pks pl' (taken(st_id se := us)) (new1 @ new)"
proof -
  let ?i = "st_id se"
  note over = assms(7) [unfolded handed_over_def]
  have same: "taken (st_id x) = (taken(?i := us)) (st_id x)" if "x \<in> set ses" for x
    using that assms(8) by (metis fun_upd_other image_eqI)
  have "taken ?i = []" using over assms(8) by blast
  then have i: "oc (Rings pl1 ?i) = oc (Rings pl' ?i)" using over by (metis append_Nil)
  have "oc (Rings pl1 j) = taken j @ oc (Rings pl' j)" for j using over by blast
  then have rings: "oc (Rings pl j) = (taken(?i := us)) j @ oc (Rings pl' j)" for j
    using assms(1,2) i by (metis fun_upd_apply)
  have job: "map job_of (new1 @ new) = jobs (taken(?i := us)) (se # ses)"
    using over assms(3) jobs_cong [of ses taken "taken(?i := us)"] same by simp
  have len: "length new1 = length (st_paths se) * length (updates us)"
    using arg_cong [OF assms(3), of length] by simp
  have cost: "cost (\<lambda>j. oc (Rings pl1 j)) ses = cost (\<lambda>j. oc (Rings pl j)) ses"
    by (rule cost_cong) (metis assms(2,8) image_eqI)
  have all: "\<forall>x \<in> set (se # ses). updates (oc (Rings pl' (st_id x))) = []"
    if c: "cost (\<lambda>j. oc (Rings pl j)) (se # ses) < room"
  proof -
    have "length new1 \<le> length (st_paths se) * length (updates (oc (Rings pl ?i)))"
      unfolding len assms(1) by simp
    then have "cost (\<lambda>j. oc (Rings pl1 j)) ses < room - length new1" unfolding cost using c by simp
    then have "\<forall>x \<in> set ses. updates (oc (Rings pl' (st_id x))) = []" using over by blast
    moreover have "updates (oc (Rings pl' ?i)) = []" using assms(6) c i by simp
    ultimately show ?thesis by simp
  qed
  have some: "\<exists>j. (taken(?i := us)) j \<noteq> []"
    if r: "0 < room" "\<forall>x \<in> set (se # ses). length (st_paths x) \<le> room"
      "\<exists>x \<in> set (se # ses). oc (Rings pl (st_id x)) \<noteq> []"
  proof (cases "us = []")
    case True
    then have "oc (Rings pl ?i) = []" "new1 = []" using assms(9) r(2) len by auto
    then have x: "\<exists>x \<in> set ses. oc (Rings pl1 (st_id x)) \<noteq> []" "0 < room - length new1"
        "\<forall>x \<in> set ses. length (st_paths x) \<le> room - length new1"
      using r assms(2,8) by (auto, metis image_eqI)
    have "\<exists>j. taken j \<noteq> []" using over x by blast
    then show ?thesis using \<open>taken ?i = []\<close> by (metis fun_upd_other)
  qed (metis fun_upd_same)
  show ?thesis unfolding handed_over_def
  proof (intro conjI allI impI)
    show "oc (Rings pl j) = (taken(?i := us)) j @ oc (Rings pl' j)" for j by (rule rings)
    show "(taken(?i := us)) j = []" if "j \<notin> st_id ` set (se # ses)" for j using over that by simp
    show "carries wc w pl' (pks @ new1 @ new)" using over by simp
    have "length new \<le> room - length new1" using over by blast
    then show "length (new1 @ new) \<le> room" using assms(4) by simp
    show "aside pl' = aside pl" using over assms(5) by simp
  qed (use job all some in blast)+
qed

lemma handed_over_sid [simp]:
  "handed_over oc wc w ses room (pl\<lparr>sid := i\<rparr>) pks pl' taken new = handed_over oc wc w ses room pl pks pl' taken new"
  by (simp add: handed_over_def aside_def)

lemma scheduler_loop_delivers:
  assumes "ready_queue W wc" "sized_queue Q oc" "rds \<le> 2 ^ 32"
    and "StreamPointers pl = ss" "sid0 < length ss" "j < length ss" "rounds = length ss - j"
    and "sid pl = (sid0 + j) mod length ss" "carries wc w pl pks" "distinct (map st_id ss)"
    and "\<forall>i. length (oc (Rings pl i)) < rds" "unat nfc \<le> unat nfm"
  shows "\<exists>n pl' taken new. scheduler_loop Q W rds w nfm sid0 rounds nfc pl = (Inr n, pl')
     \<and> handed_over oc wc w (drop j (rotate sid0 ss)) (unat nfm - unat nfc) pl pks pl' taken new"
  using assms(4-)
proof (induction rounds arbitrary: j pl nfc pks)
  case 0
  then show ?case by simp
next
  case (Suc rounds)
  let ?len = "length ss" and ?se = "ss ! sid pl"
  have "0 < ?len" using Suc.prems(2) by linarith
  then have idx: "sid pl < ?len" using Suc.prems(5) by simp
  have todo: "drop j (rotate sid0 ss) = ?se # drop (Suc j) (rotate sid0 ss)"
    using Suc.prems(3,5) by (simp add: Cons_nth_drop_Suc [symmetric] nth_rotate)
  show ?case
  proof (cases "nfc < nfm")
    case False
    then have "unat nfm - unat nfc = 0" by (simp add: word_less_nat_alt)
    with handed_over_none [OF Suc.prems(6), of "drop j (rotate sid0 ss)" 0 oc]
    have "handed_over oc wc w (drop j (rotate sid0 ss)) (unat nfm - unat nfc) pl pks pl (\<lambda>i. []) []" by simp
    moreover have "scheduler_loop Q W rds w nfm sid0 (Suc rounds) nfc pl = (Inr nfc, pl)"
      using False by (simp add: prog_defs)
    ultimately show ?thesis by blast
  next
    case True
    have room: "unat (nfm - nfc) = unat nfm - unat nfc" using unat_minus_of_nat [OF Suc.prems(9)] by simp
    obtain us n pl1 new1 where f: "on_fill (st_id ?se) w
          (fillConversionQueue Q W rds (st_id ?se) (st_paths ?se) (nfm - nfc)) pl = (Inr n, pl1)"
        "oc (Rings pl (st_id ?se)) = us @ oc (Rings pl1 (st_id ?se))" "\<forall>j. j \<noteq> st_id ?se \<longrightarrow> Rings pl1 j = Rings pl j"
        "carries wc w pl1 (pks @ new1)" "map job_of new1 = stream_jobs (st_paths ?se) (updates us)"
        "unat n = length new1" "unat n \<le> unat (nfm - nfc)"
        "length (st_paths ?se) * length (updates (oc (Rings pl (st_id ?se)))) \<le> unat (nfm - nfc) \<longrightarrow>
           updates (oc (Rings pl1 (st_id ?se))) = []"
        "aside pl1 = aside pl" "sid pl1 = sid pl"
        "us = [] \<longrightarrow> oc (Rings pl (st_id ?se)) = [] \<or> unat (nfm - nfc) < length (st_paths ?se)"
      using stream_fill_delivers [OF assms(1,2) Suc.prems(6) _ assms(3), of "st_id ?se" "st_id ?se" "st_paths ?se" "nfm - nfc"]
        Suc.prems(8) by metis
    define i' where "i' = (sid0 + Suc j) mod ?len"
    define pl2 where "pl2 = pl1\<lparr>sid := i'\<rparr>"
    have i': "i' = (if sid pl + 1 \<ge> ?len then 0 else sid pl + 1)"
      using Suc.prems(2,5) idx by (auto simp: i'_def mod_Suc)
    have ss1: "StreamPointers pl1 = ss" using f(9) Suc.prems(1) by (simp add: aside_def)
    have run: "scheduler_loop Q W rds w nfm sid0 (Suc rounds) nfc pl =
        (if i' = sid0 then (Inr (nfc + n), pl2)
         else scheduler_loop Q W rds w nfm sid0 rounds (nfc + n) pl2)"
      using True f(1,10) ss1 idx Suc.prems(1) by (simp add: prog_defs pl2_def i')
    note sum = unat_add_exact [OF Suc.prems(9) f(7)]
    have left: "unat nfm - unat (nfc + n) = unat nfm - unat nfc - length new1" by (simp add: sum(1) f(6))
    have "distinct (map st_id (rotate sid0 ss))" using Suc.prems(7) by (simp add: rotate_map [symmetric])
    then have "distinct (map st_id (drop j (rotate sid0 ss)))" by (simp add: drop_map [symmetric])
    then have fresh: "st_id ?se \<notin> st_id ` set (drop (Suc j) (rotate sid0 ss))" unfolding todo by simp
    note step = handed_over_Cons [OF f(2,3,5) _ f(9) f(8) [unfolded room] _ fresh f(11) [unfolded room], where pks = pks and wc = wc and w = w]
    have rings: "length (oc (Rings pl2 i)) < rds" for i
      using f(2,3) Suc.prems(8) [rule_format, of i] by (cases "i = st_id ?se") (auto simp: pl2_def)
    show ?thesis
    proof (cases "i' = sid0")
      case True
      then have "Suc j = ?len" using round_robin_back [of j ?len sid0] Suc.prems(2,3) by (auto simp: i'_def)
      then have "drop (Suc j) (rotate sid0 ss) = []" by simp
      then have "handed_over oc wc w (drop (Suc j) (rotate sid0 ss)) (unat nfm - unat nfc - length new1) pl1
          (pks @ new1) pl2 (\<lambda>i. []) []"
        using f(4) by (auto simp: handed_over_def pl2_def aside_def)
      from step [OF _ this] f(6,7) room run True show ?thesis unfolding todo by auto
    next
      case False
      then have j: "Suc j < ?len"
        using round_robin_back [of j ?len sid0] Suc.prems(2,3) by (auto simp: i'_def)
      have pl2: "StreamPointers pl2 = ss" "rounds = ?len - Suc j" "sid pl2 = (sid0 + Suc j) mod ?len"
          "carries wc w pl2 (pks @ new1)"
        using ss1 Suc.prems(4) f(4) by (simp_all add: pl2_def i'_def)
      obtain m pl' taken new where "scheduler_loop Q W rds w nfm sid0 rounds (nfc + n) pl2 = (Inr m, pl')"
          "handed_over oc wc w (drop (Suc j) (rotate sid0 ss)) (unat nfm - unat nfc - length new1) pl1 (pks @ new1) pl' taken new"
        using Suc.IH [OF pl2(1) Suc.prems(2) j pl2(2-4) Suc.prems(7), of "nfc + n"] rings sum left
        by (auto simp: pl2_def)
      with step [OF _ this(2)] f(6,7) room run False show ?thesis unfolding todo by auto
    qed
  qed
qed

lemma scheduler_fill_delivers:
  assumes "ready_queue W wc" "sized_queue Q oc" "rds \<le> 2 ^ 32" "carries wc w pl []"
    and "distinct (map st_id (StreamPointers pl))" "\<forall>i. length (oc (Rings pl i)) < rds"
  shows "\<exists>n pl' taken new. scheduler_fill Q W rds w nfm pl = (Inr n, pl')
     \<and> handed_over oc wc w (visit_order pl) (unat nfm) pl [] pl' taken new"
proof (cases "StreamPointers pl = []")
  case True
  then have "scheduler_fill Q W rds w nfm pl = (Inr 0, pl)" "visit_order pl = []"
    by (simp_all add: scheduler_fill_def prog_defs visit_order_def)
  with handed_over_none [OF assms(4), of "[]" "unat nfm" oc] show ?thesis by auto
next
  case False
  let ?ss = "StreamPointers pl"
  define sid0 where "sid0 = (if sid pl < length ?ss then sid pl else 0)"
  define pl1 where "pl1 = pl\<lparr>sid := sid0\<rparr>"
  have same: "StreamPointers pl1 = ?ss" "sid0 < length ?ss" "0 < length ?ss" "length ?ss = length ?ss - 0"
      "sid pl1 = (sid0 + 0) mod length ?ss" "carries wc w pl1 []" "\<forall>i. length (oc (Rings pl1 i)) < rds"
    using False assms(4,6) by (simp_all add: pl1_def sid0_def)
  have "scheduler_fill Q W rds w nfm pl = scheduler_loop Q W rds w nfm sid0 (length ?ss) 0 pl1"
    using False by (cases pl) (simp add: scheduler_fill_def prog_defs pl1_def sid0_def)
  moreover have "visit_order pl = drop 0 (rotate sid0 ?ss)" by (simp add: visit_order_def sid0_def)
  ultimately show ?thesis
    using scheduler_loop_delivers [OF assms(1-3) same(1-6) assms(5) same(7), of 0 nfm] by (simp add: pl1_def)
qed

section \<open>A round of a worker\<close>

text \<open>The update of a job exists and is one that the converter of its path accepts.\<close>

definition job_ok :: "ConverterEnv \<Rightarrow> ('q, 'w, 'k) pipeline \<Rightarrow> nat \<times> nat \<Rightarrow> bool" where
  "job_ok E pl job \<longleftrightarrow> (\<forall>P c. Paths (Store pl) (snd job) = Some P \<longrightarrow> Converters (Store pl) (path_converter P) = Some c \<longrightarrow>
     (\<exists>u. UpdateStore pl (fst job) = Some u \<and> creator_accepts E (conv c) u))"

lemma carried_jobs:
  assumes "carries wc w pl pks"
  shows "queue_jobs wc pl w = map job_of pks" "length (wc (WorkQueues pl w)) = length pks"
proof -
  have eq: "map (PacketStore pl) (wc (WorkQueues pl w)) = map Some pks" using assms by (simp add: carries_def)
  from arg_cong [OF eq, of length] show "length (wc (WorkQueues pl w)) = length pks" by simp
  have "queue_jobs wc pl w = map (job_of \<circ> the) (map (PacketStore pl) (wc (WorkQueues pl w)))"
    by (simp add: queue_jobs_def)
  also have "\<dots> = map job_of pks" unfolding eq by simp
  finally show "queue_jobs wc pl w = map job_of pks" .
qed

lemma carried_convertible:
  assumes "carries wc w pl pks" "\<forall>job \<in> set (map job_of pks). job_ok E pl job" "k \<in> set (wc (WorkQueues pl w))"
  shows "convertible E pl k"
proof -
  have "PacketStore pl k \<in> set (map Some pks)"
    using assms(1,3) unfolding carries_def by (metis image_eqI list.set_map)
  then obtain pk where pk: "PacketStore pl k = Some pk" "pk \<in> set pks" by auto
  then have "job_ok E pl (job_of pk)" using assms(2) by simp
  then show ?thesis using pk(1) by (simp add: convertible_def job_ok_def job_of_def)
qed

lemma set_visit_order [simp]: "set (visit_order pl) = set (StreamPointers pl)"
  by (simp add: visit_order_def)

lemma mset_rotate: "mset (rotate n xs) = mset xs"
proof -
  let ?k = "n mod length xs"
  have "mset (rotate n xs) = mset (take ?k xs @ drop ?k xs)" by (simp only: rotate_drop_take mset_append add.commute)
  then show ?thesis by simp
qed

lemma cost_visit_order: "cost f (visit_order pl) = cost f (StreamPointers pl)"
  by (simp only: cost_def sum_mset_sum_list [symmetric] mset_map visit_order_def mset_rotate)

lemma handed_over_ok:
  assumes "handed_over oc wc w (visit_order pl) room pl [] pl' taken new"
    and "\<forall>job \<in> set (jobs (\<lambda>i. oc (Rings pl i)) (StreamPointers pl)). job_ok E pl job"
  shows "\<forall>job \<in> set (map job_of new). job_ok E pl' job"
proof
  note over = assms(1) [unfolded handed_over_def]
  fix job assume "job \<in> set (map job_of new)"
  then have "job \<in> set (jobs taken (visit_order pl))" using over by metis
  then obtain u p where job: "job = (u, p)" "(u, p) \<in> set (jobs taken (visit_order pl))"
    by (metis prod.exhaust)
  then obtain se where se: "se \<in> set (StreamPointers pl)" "u \<in> set (updates (taken (st_id se)))" "p \<in> set (st_paths se)"
    using set_jobs by fastforce
  have "oc (Rings pl (st_id se)) = taken (st_id se) @ oc (Rings pl' (st_id se))" using over by blast
  then have "u \<in> set (updates (oc (Rings pl (st_id se))))" using se(2) by simp
  then have "job \<in> set (jobs (\<lambda>i. oc (Rings pl i)) (StreamPointers pl))"
    using se(1,3) by (auto simp: job(1) jobs_def stream_jobs_def)
  then have "job_ok E pl job" using assms(2) by blast
  moreover have "aside pl' = aside pl" using over by blast
  ultimately show "job_ok E pl' job" by (simp add: job_ok_def aside_def)
qed

text \<open>
  Worker \<open>w\<close> is between two rounds, every queue of a stream is shorter than the bound of the filling loop, and
  whatever waits can be converted and sent.
\<close>

definition worker_ready ::
  "nat \<Rightarrow> ('w \<Rightarrow> nat list) \<Rightarrow> ('q \<Rightarrow> nat option list) \<Rightarrow> nat \<Rightarrow> ('k \<Rightarrow> nat multiset) \<Rightarrow> ConverterEnv \<Rightarrow> nat \<Rightarrow>
   ('q, 'w, 'k) pipeline \<Rightarrow> bool" where
  "worker_ready N wc oc rds pending E w pl \<longleftrightarrow> (\<exists>s. simulates N wc pl s)
     \<and> Held pl w = None \<and> wc (WorkQueues pl w) = [] \<and> usable pending E (Store pl)
     \<and> distinct (map st_id (StreamPointers pl)) \<and> (\<forall>i. length (oc (Rings pl i)) < rds)
     \<and> (\<forall>job \<in> set (jobs (\<lambda>i. oc (Rings pl i)) (StreamPointers pl)). job_ok E pl job)"

lemma job_ok_same:
  assumes "job_ok E pl job" "same_objects E (Store pl) (Store pl')" "UpdateStore pl' = UpdateStore pl"
  shows "job_ok E pl' job"
  unfolding job_ok_def
proof (intro allI impI)
  fix P c' assume P: "Paths (Store pl') (snd job) = Some P" "Converters (Store pl') (path_converter P) = Some c'"
  obtain c where "Converters (Store pl) (path_converter P) = Some c"
      "creator_accepts E (conv c') = creator_accepts E (conv c)"
    using same_objectsD(3) [OF assms(2) P(2)] by blast
  moreover have "Paths (Store pl) (snd job) = Some P" using P(1) same_objectsD(1) [OF assms(2)] by simp
  ultimately show "\<exists>u. UpdateStore pl' (fst job) = Some u \<and> creator_accepts E (conv c') u"
    using assms(1,3) unfolding job_ok_def by auto
qed

lemma jobs_suffix:
  assumes "\<And>i. f i = taken i @ g i" shows "set (jobs g ses) \<subseteq> set (jobs f ses)"
  using assms by (auto simp: jobs_def stream_jobs_def)

lemma worker_round_run:
  assumes "ready_queue W wc" "sized_queue W wc" "sized_queue Q oc" "N < 2 ^ 32" "rd_client K pending" "w < N"
    and ready: "worker_ready N wc oc rds pending E w pl" and "rds \<le> 2 ^ 32" "unat MAX_SUBQUEUE_SIZE < rounds"
  shows "\<exists>pl' pl1 taken new. worker_round Q W K E serialize rds rounds MAX_SUBQUEUE_SIZE w pl = (Inr (), pl')
     \<and> worker_ready N wc oc rds pending E w pl' \<and> StreamPointers pl' = StreamPointers pl \<and> UpdateStore pl' = UpdateStore pl
     \<and> handed_over oc wc w (visit_order pl) (unat MAX_SUBQUEUE_SIZE) pl [] pl1 taken new \<and> Rings pl' = Rings pl1
     \<and> for_each (forward K E serialize (UpdateStore pl)) (jobs taken (visit_order pl)) (Store pl) = (Inr (), Store pl')"
proof -
  obtain s where s: "simulates N wc pl s" using ready by (auto simp: worker_ready_def)
  have pl: "Held pl w = None" "wc (WorkQueues pl w) = []" "usable pending E (Store pl)"
      "distinct (map st_id (StreamPointers pl))" "\<forall>i. length (oc (Rings pl i)) < rds"
      "\<forall>job \<in> set (jobs (\<lambda>i. oc (Rings pl i)) (StreamPointers pl)). job_ok E pl job"
    using ready by (simp_all add: worker_ready_def)
  have fifo: "fifo_queue W wc" using assms(1) by (simp add: ready_queue_def)
  have "carries wc w pl []" using s pl(2) by (simp add: simulates_def refs_ok_def carries_def)
  then obtain n pl1 taken new where f: "scheduler_fill Q W rds w MAX_SUBQUEUE_SIZE pl = (Inr n, pl1)"
      "handed_over oc wc w (visit_order pl) (unat MAX_SUBQUEUE_SIZE) pl [] pl1 taken new"
    using scheduler_fill_delivers [OF assms(1,3,8) _ pl(4,5)] by blast
  obtain s1 where s1: "simulates N wc pl1 s1"
    using scheduler_fill_simulates [OF assms(1,3,8,6) s pl(1,2,5), of MAX_SUBQUEUE_SIZE] f(1) by auto
  have c: "carries wc w pl1 new" "map job_of new = jobs taken (visit_order pl)" "aside pl1 = aside pl"
      "length new \<le> unat MAX_SUBQUEUE_SIZE" "\<And>i. oc (Rings pl i) = taken i @ oc (Rings pl1 i)"
    using f(2) by (simp_all add: handed_over_def)
  then have same: "UpdateStore pl1 = UpdateStore pl" "Store pl1 = Store pl" "Held pl1 = Held pl"
      "StreamPointers pl1 = StreamPointers pl"
    by (simp_all add: aside_def)
  have "\<forall>k \<in> set (wc (WorkQueues pl1 w)). convertible E pl1 k"
    using carried_convertible [OF c(1) handed_over_ok [OF f(2) pl(6)]] by blast
  then obtain pl' where pl': "drain_worker W K E serialize w rounds pl1 = (Inr (), pl')" "wc (WorkQueues pl' w) = []"
      "Held pl' w = None" "usable pending E (Store pl')" "Rings pl' = Rings pl1" "StreamPointers pl' = StreamPointers pl"
      "UpdateStore pl' = UpdateStore pl" "same_objects E (Store pl) (Store pl')" "\<exists>s'. simulates N wc pl' s'"
      "for_each (forward K E serialize (UpdateStore pl)) (jobs taken (visit_order pl)) (Store pl) = (Inr (), Store pl')"
    using drain_worker_run [OF assms(5) fifo assms(4,6) s1, of E rounds serialize] pl(1,3) assms(9)
      carried_jobs [OF c(1)] c(2,4) same by auto
  have "size_approx W (WorkQueues pl w) = 0" using sized_queue.size_exact [OF assms(2)] pl(2) by simp
  then have run: "worker_round Q W K E serialize rds rounds MAX_SUBQUEUE_SIZE w pl = (Inr (), pl')"
    using f(1) pl'(1) by (simp add: worker_round_def prog_defs)
  have "length (oc (Rings pl' i)) < rds" for i using pl(5) [rule_format, of i] c(5) [of i] by (simp add: pl'(5))
  moreover have "job_ok E pl' job" if "job \<in> set (jobs (\<lambda>i. oc (Rings pl' i)) (StreamPointers pl'))" for job
  proof -
    have "job \<in> set (jobs (\<lambda>i. oc (Rings pl i)) (StreamPointers pl))"
      using that jobs_suffix [of "\<lambda>i. oc (Rings pl i)" taken "\<lambda>i. oc (Rings pl1 i)" "StreamPointers pl"] c(5)
      by (auto simp: pl'(5,6))
    then show ?thesis using pl(6) job_ok_same [OF _ pl'(8,7)] by blast
  qed
  ultimately have "worker_ready N wc oc rds pending E w pl'" using pl' pl(4) by (simp add: worker_ready_def)
  then show ?thesis using run pl' f(2) by blast
qed

section \<open>Properties\<close>

text \<open>
  C3: In every state that is reached, a round of a conversion worker that has nothing to do delivers updates end to
  end: the worker asks the scheduler, takes updates from the front of the queues of the streams and comes to the
  end of its own queue, and what the converters and producers have then is exactly what the reference gives, which
  converts and sends each of these updates for each path of its stream, the streams in the order from \<open>sid\<close>,
  with no packets and no worker's queue. At most \<open>MAX_SUBQUEUE_SIZE\<close> messages are made; when all that
  waits takes fewer, nothing is left behind.
\<close>

theorem worker_round_delivers:
  assumes "ready_queue W wc" "sized_queue W wc" "sized_queue Q oc" "N < 2 ^ 32" "rd_client K pending"
    and "pl_start wc pl0" "(pl_step Q oc W K E serialize N)\<^sup>*\<^sup>* pl0 pl"
    and "w < N" "Held pl w = None" "wc (WorkQueues pl w) = []" "usable pending E (Store pl)"
    and "distinct (map st_id (StreamPointers pl))" "\<forall>i. length (oc (Rings pl i)) < rds" "rds \<le> 2 ^ 32"
    and "\<forall>job \<in> set (jobs (\<lambda>i. oc (Rings pl i)) (StreamPointers pl)). job_ok E pl job"
    and "unat MAX_SUBQUEUE_SIZE < rounds"
  shows "\<exists>pl' taken. worker_round Q W K E serialize rds rounds MAX_SUBQUEUE_SIZE w pl = (Inr (), pl')
     \<and> wc (WorkQueues pl' w) = [] \<and> Held pl' w = None \<and> usable pending E (Store pl')
     \<and> (\<forall>i. oc (Rings pl i) = taken i @ oc (Rings pl' i))
     \<and> for_each (forward K E serialize (UpdateStore pl)) (jobs taken (visit_order pl)) (Store pl) = (Inr (), Store pl')
     \<and> length (jobs taken (visit_order pl)) \<le> unat MAX_SUBQUEUE_SIZE
     \<and> (cost (\<lambda>i. oc (Rings pl i)) (StreamPointers pl) < unat MAX_SUBQUEUE_SIZE \<longrightarrow>
          (\<forall>se \<in> set (StreamPointers pl). updates (oc (Rings pl' (st_id se))) = []))"
proof -
  have "worker_ready N wc oc rds pending E w pl"
    using reachable_simulates [OF assms(1-4,6,7)] assms(9-13,15) by (simp add: worker_ready_def)
  from worker_round_run [OF assms(1-5,8) this assms(14,16), of serialize] obtain pl' pl1 taken new where
      r: "worker_round Q W K E serialize rds rounds MAX_SUBQUEUE_SIZE w pl = (Inr (), pl')"
      "worker_ready N wc oc rds pending E w pl'"
      "handed_over oc wc w (visit_order pl) (unat MAX_SUBQUEUE_SIZE) pl [] pl1 taken new" "Rings pl' = Rings pl1"
      "for_each (forward K E serialize (UpdateStore pl)) (jobs taken (visit_order pl)) (Store pl) = (Inr (), Store pl')"
    by blast
  have "map job_of new = jobs taken (visit_order pl)" "length new \<le> unat MAX_SUBQUEUE_SIZE"
    using r(3) by (simp_all add: handed_over_def)
  then have "length (jobs taken (visit_order pl)) \<le> unat MAX_SUBQUEUE_SIZE" by (metis length_map)
  then show ?thesis
    using r unfolding worker_ready_def handed_over_def cost_visit_order set_visit_order by auto
qed

lemma example_jobs_ok:
  "\<forall>job \<in> set (jobs (\<lambda>i. Rings example_loaded i) (StreamPointers example_loaded)). job_ok plain_env example_loaded job"
  by (simp add: job_ok_def stream_jobs_def example_loaded_def one_path_def example_path_def f142_accepts_def empty_update_def
      plain_env_def enum_ok_def timestamp_ok_def)

lemma worker_round_delivers_witness:
  "\<exists>pl'. worker_round growing_queue growing_queue (list_client 3) plain_env (\<lambda>_. [1]) 9 9 5 0 example_loaded = (Inr (), pl')
     \<and> Rings pl' 0 = [] \<and> forward (list_client 3) plain_env (\<lambda>_. [1]) [0 \<mapsto> empty_update] (0, 0) (Store example_loaded)
          = (Inr (), Store pl')"
proof -
  have "usable mset plain_env (Store example_loaded)" using example_usable by (simp add: example_loaded_def)
  then obtain pl' taken where pl': "worker_round growing_queue growing_queue (list_client 3) plain_env (\<lambda>_. [1]) 9 9 5 0
        example_loaded = (Inr (), pl')" "\<forall>i. Rings example_loaded i = taken i @ Rings pl' i"
      "for_each (forward (list_client 3) plain_env (\<lambda>_. [1]) (UpdateStore example_loaded))
         (jobs taken (visit_order example_loaded)) (Store example_loaded) = (Inr (), Store pl')"
      "cost (\<lambda>i. Rings example_loaded i) (StreamPointers example_loaded) < unat (5 :: u32) \<longrightarrow>
         (\<forall>se \<in> set (StreamPointers example_loaded). updates (Rings pl' (st_id se)) = [])"
    using worker_round_delivers [OF gq.ready_queue_axioms gs.sized_queue_axioms gs.sized_queue_axioms _ lc.rd_client_axioms
        example_start_ok example_reached, of 0 9 5 9] example_jobs_ok by (auto simp: example_loaded_def example_start_def)
  have "taken 0 @ Rings pl' 0 = [Some 0]" using pl'(2) by (simp add: example_loaded_def)
  moreover have "updates (Rings pl' 0) = []" using pl'(4) by (simp add: example_loaded_def)
  ultimately have t: "taken 0 = [Some 0]" "Rings pl' 0 = []" by (auto simp: append_eq_Cons_conv)
  have "jobs taken (visit_order example_loaded) = [(0, 0)]" "UpdateStore example_loaded = [0 \<mapsto> empty_update]"
    by (simp_all add: visit_order_def example_loaded_def example_start_def stream_jobs_def t)
  with pl'(1,3) t(2) show ?thesis
    by (cases "forward (list_client 3) plain_env (\<lambda>_. [1]) [0 \<mapsto> empty_update] (0, 0) (Store example_loaded)")
       (auto simp: prog_defs split: sum.splits)
qed

end
