(* ===== verification/Worker_Run.thy ===== *)
theory Worker_Run
  imports Conversion_Worker
begin

text \<open>
  The thread of a conversion worker: \<open>ConversionWorker::start\<close>, \<open>stop\<close> and the outer loop of \<open>run\<close> with
  its clock. Times are nanoseconds of \<open>steady_clock\<close>; what the flag \<open>do_run\<close> is when a round begins, how
  long the work of a round takes and by how much a sleep is longer than asked for are given by the
  environment.
\<close>

section \<open>Start and stop\<close>

record worker_thread =
  do_run :: u32
  joinable :: bool

definition new_worker_thread :: worker_thread where
  "new_worker_thread = \<lparr>do_run = 0, joinable = False\<rparr>"

text \<open>
  Assigning to a \<open>std::thread\<close> that can be joined terminates the program. \<open>join\<close> returns when \<open>run\<close>
  has returned, which \<open>run_loop_run\<close> shows for a loop that finds the flag cleared.
\<close>

definition worker_start :: "(worker_thread, int) prog" where
  "worker_start =
     thn (upd_st (\<lambda>t. t\<lparr>do_run := 1\<rparr>))
     (bnd (get_st joinable) (\<lambda>j.
      if j then fail Crash else thn (upd_st (\<lambda>t. t\<lparr>joinable := True\<rparr>)) (ret 0)))"

definition worker_stop :: "(worker_thread, int) prog" where
  "worker_stop =
     thn (upd_st (\<lambda>t. t\<lparr>do_run := 0\<rparr>))
     (bnd (get_st joinable) (\<lambda>j.
      thn (if j then upd_st (\<lambda>t. t\<lparr>joinable := False\<rparr>) else ret ()) (ret 0)))"

section \<open>The loop\<close>

record work_round =
  KeepGoing :: bool
  WorkTime :: nat
  Oversleep :: nat

text \<open>The clock, the rest of the program, and the values \<open>TimeEnd\<close> has had.\<close>

record 's timed =
  Rest :: 's
  Clock :: nat
  TimeEnds :: "nat list"

definition on_data :: "('s, 'a) prog \<Rightarrow> ('s timed, 'a) prog" where
  "on_data m t = (case m (Rest t) of (r, s) \<Rightarrow> (r, t\<lparr>Rest := s\<rparr>))"

text \<open>\<open>MinTimeDifference\<close> in milliseconds, and how long a round sleeps.\<close>

definition MinTimeDifference :: nat where
  "MinTimeDifference = 100"

definition sleep_time :: "nat \<Rightarrow> nat \<Rightarrow> nat" where
  "sleep_time TimeBegin TimeEnd =
     (let TimeDifference = (TimeEnd - TimeBegin) div 1000000 in
      if TimeDifference < MinTimeDifference then (MinTimeDifference - TimeDifference) * 1000000 else 0)"

text \<open>A sleep of no length is not made.\<close>

definition sleep_for :: "nat \<Rightarrow> nat \<Rightarrow> ('s timed, unit) prog" where
  "sleep_for ns extra = (if ns = 0 then ret () else upd_st (\<lambda>t. t\<lparr>Clock := Clock t + ns + extra\<rparr>))"

fun run_loop :: "('s, unit) prog \<Rightarrow> work_round list \<Rightarrow> nat \<Rightarrow> ('s timed, int) prog" where
  "run_loop round [] TimeBegin = fail Running"
| "run_loop round (x # xs) TimeBegin =
     (if \<not> KeepGoing x then ret 0
      else thn (on_data round)
           (thn (upd_st (\<lambda>t. t\<lparr>Clock := Clock t + WorkTime x\<rparr>))
           (bnd (get_st Clock) (\<lambda>TimeEnd.
            thn (upd_st (\<lambda>t. t\<lparr>TimeEnds := TimeEnds t @ [TimeEnd]\<rparr>))
            (thn (sleep_for (sleep_time TimeBegin TimeEnd) (Oversleep x))
            (run_loop round xs TimeEnd))))))"

definition worker_run :: "('s, unit) prog \<Rightarrow> work_round list \<Rightarrow> ('s timed, int) prog" where
  "worker_run round xs = bnd (get_st Clock) (run_loop round xs)"

text \<open>The thread of worker \<open>w\<close>; the bounds are those of \<open>worker_round\<close>.\<close>

definition ConversionWorker_run ::
  "('q, nat option) queue_ops \<Rightarrow> ('w, nat) queue_ops \<Rightarrow> 'k rdkafka \<Rightarrow> ConverterEnv \<Rightarrow> (fb_table \<Rightarrow> u8 list) \<Rightarrow>
   nat \<Rightarrow> nat \<Rightarrow> u32 \<Rightarrow> nat \<Rightarrow> work_round list \<Rightarrow> (('q, 'w, 'k) pipeline timed, int) prog" where
  "ConversionWorker_run Q W K E serialize rds rounds MAX_SUBQUEUE_SIZE w =
     worker_run (worker_round Q W K E serialize rds rounds MAX_SUBQUEUE_SIZE w)"

section \<open>The pace\<close>

text \<open>The values of \<open>TimeEnd\<close> as a function of the rounds.\<close>

fun round_ends :: "nat \<Rightarrow> nat \<Rightarrow> work_round list \<Rightarrow> nat list" where
  "round_ends TimeBegin now [] = []"
| "round_ends TimeBegin now (x # xs) =
     (let TimeEnd = now + WorkTime x; ns = sleep_time TimeBegin TimeEnd in
      TimeEnd # round_ends TimeEnd (if ns = 0 then TimeEnd else TimeEnd + ns + Oversleep x) xs)"

text \<open>Before the next round ends, the minimum has passed since the last but one ended.\<close>

lemma sleep_enough: "TimeBegin \<le> TimeEnd \<Longrightarrow> TimeBegin + 100000000 \<le> TimeEnd + sleep_time TimeBegin TimeEnd"
proof -
  assume "TimeBegin \<le> TimeEnd"
  moreover have "(TimeEnd - TimeBegin) div 1000000 * 1000000 \<le> TimeEnd - TimeBegin" by simp
  ultimately show ?thesis by (auto simp: sleep_time_def MinTimeDifference_def Let_def diff_mult_distrib)
qed

lemma round_ends_length: "length (round_ends b now xs) = length xs"
  by (induction xs arbitrary: b now) (simp_all add: Let_def)

lemma round_ends_spacing:
  assumes "b \<le> now" "Suc i < length xs"
  shows "(b # round_ends b now xs) ! i + 100000000 \<le> (b # round_ends b now xs) ! (i + 2)"
  using assms
proof (induction xs arbitrary: b now i)
  case (Cons x xs)
  define e n where "e = now + WorkTime x"
    and "n = (if sleep_time b e = 0 then e else e + sleep_time b e + Oversleep x)"
  have ends: "round_ends b now (x # xs) = e # round_ends e n xs" by (simp add: e_def n_def Let_def)
  have n: "e \<le> n" "b + 100000000 \<le> n"
    using sleep_enough [of b e] Cons.prems(1) by (auto simp: n_def e_def split: if_splits)
  show ?case
  proof (cases i)
    case 0
    then obtain y ys where "xs = y # ys" using Cons.prems(2) by (cases xs) auto
    with 0 n(2) show ?thesis unfolding ends by (simp add: Let_def)
  next
    case (Suc j)
    with Cons.IH [OF n(1), of j] Cons.prems(2) ends show ?thesis by simp
  qed
qed simp

text \<open>The loop from round \<open>n\<close> on, with what holds before each round.\<close>

lemma run_loop_indexed:
  assumes "\<forall>n s. I n s \<longrightarrow> (\<exists>s'. round s = (Inr (), s') \<and> I (Suc n) s')" "list_all KeepGoing xs" "\<not> KeepGoing y"
  shows "I n (Rest t) \<Longrightarrow> \<exists>t'. run_loop round (xs @ y # ys) b t = (Inr 0, t') \<and> I (n + length xs) (Rest t')
     \<and> TimeEnds t' = TimeEnds t @ round_ends b (Clock t) xs"
  using assms(2)
proof (induction xs arbitrary: t b n)
  case Nil
  with assms(3) show ?case by (simp add: prog_defs)
next
  case (Cons x xs)
  obtain s where s: "round (Rest t) = (Inr (), s)" "I (Suc n) s" using assms(1) Cons.prems(1) by blast
  define e where "e = Clock t + WorkTime x"
  define t1 where "t1 = t\<lparr>Rest := s, Clock := if sleep_time b e = 0 then e else e + sleep_time b e + Oversleep x,
     TimeEnds := TimeEnds t @ [e]\<rparr>"
  have "run_loop round ((x # xs) @ y # ys) b t = run_loop round (xs @ y # ys) e t1"
    using s(1) Cons.prems(2) by (cases t) (simp add: on_data_def sleep_for_def prog_defs e_def t1_def)
  moreover have "I (Suc n) (Rest t1)" using s(2) by (simp add: t1_def)
  from Cons.IH [OF this, of e] obtain t' where "run_loop round (xs @ y # ys) e t1 = (Inr 0, t')"
      "I (Suc n + length xs) (Rest t')" "TimeEnds t' = TimeEnds t1 @ round_ends e (Clock t1) xs"
    using Cons.prems(2) by auto
  ultimately show ?case by (auto simp: t1_def e_def Let_def)
qed

lemma run_loop_run:
  assumes "\<forall>s. I s \<longrightarrow> (\<exists>s'. round s = (Inr (), s') \<and> I s')" "list_all KeepGoing xs" "\<not> KeepGoing y" "I (Rest t)"
  shows "\<exists>t'. run_loop round (xs @ y # ys) b t = (Inr 0, t') \<and> I (Rest t')
     \<and> TimeEnds t' = TimeEnds t @ round_ends b (Clock t) xs"
  using run_loop_indexed [of "\<lambda>n. I" round xs y 0 t ys b] assms by simp

section \<open>Properties\<close>



text \<open>Starting a worker twice ends the program; stopping is safe at any time and undoes a start.\<close>

lemma worker_start_stop:
  "\<exists>t'. worker_stop t = (Inr 0, t') \<and> do_run t' = 0 \<and> \<not> joinable t'
     \<and> worker_start t' = (Inr 0, t'\<lparr>do_run := 1, joinable := True\<rparr>)
     \<and> fst (worker_start (snd (worker_start t'))) = Inl Crash"
  by (cases t) (simp add: worker_stop_def worker_start_def prog_defs)

end
