(* ===== verification/Worker_Thread.thy ===== *)
theory Worker_Thread
  imports Worker_Delivery Worker_Run
begin

text \<open>
  The thread of a conversion worker, from the outer loop of \<open>ConversionWorker::run\<close> down to the producers: nothing
  starves. As long as there is room for one update of any stream, the rounds of the loop take everything that
  waits, and the messages of each stream are sent in the order of its updates.
\<close>

section \<open>The messages of one stream\<close>

definition for_stream :: "StreamEntry \<Rightarrow> (nat \<times> nat) list \<Rightarrow> (nat \<times> nat) list" where
  "for_stream se js = filter (\<lambda>job. snd job \<in> set (st_paths se)) js"

lemma for_stream_append [simp]: "for_stream se (js @ ks) = for_stream se js @ for_stream se ks"
  by (simp add: for_stream_def)

lemma stream_jobs_append [simp]: "stream_jobs ps (us @ vs) = stream_jobs ps us @ stream_jobs ps vs"
  by (simp add: stream_jobs_def)

lemma for_stream_own: "for_stream se (stream_jobs (st_paths se) us) = stream_jobs (st_paths se) us"
  by (auto simp: for_stream_def stream_jobs_def filter_id_conv)

lemma for_stream_other:
  "set (st_paths se) \<inter> set (st_paths x) = {} \<Longrightarrow> for_stream se (stream_jobs (st_paths x) us) = []"
  by (auto simp: for_stream_def stream_jobs_def filter_empty_conv)

definition apart_paths :: "StreamEntry list \<Rightarrow> bool" where
  "apart_paths ses \<longleftrightarrow> (\<forall>x \<in> set ses. \<forall>y \<in> set ses. x \<noteq> y \<longrightarrow> set (st_paths x) \<inter> set (st_paths y) = {})"

lemma apart_pathsI:
  assumes "distinct (concat (map st_paths ses))" shows "apart_paths ses"
  unfolding apart_paths_def
proof (intro ballI impI)
  fix x y assume xy: "x \<in> set ses" "y \<in> set ses" "x \<noteq> y"
  then obtain i j where "i < length ses" "j < length ses" "x = ses ! i" "y = ses ! j" "i \<noteq> j"
    by (metis in_set_conv_nth)
  then show "set (st_paths x) \<inter> set (st_paths y) = {}" using concat_nth_disjoint [OF assms, of i j] by simp
qed

lemma for_stream_none:
  "\<forall>x \<in> set ses. set (st_paths se) \<inter> set (st_paths x) = {} \<Longrightarrow> for_stream se (jobs taken ses) = []"
  by (induction ses) (simp_all add: for_stream_other, simp add: for_stream_def)

lemma for_stream_jobs:
  "apart_paths ses \<Longrightarrow> distinct ses \<Longrightarrow> se \<in> set ses \<Longrightarrow>
   for_stream se (jobs taken ses) = stream_jobs (st_paths se) (updates (taken (st_id se)))"
proof (induction ses)
  case (Cons x xs)
  have apart: "set (st_paths se) \<inter> set (st_paths y) = {}" if "y \<in> set (x # xs)" "y \<noteq> se" for y
    using that Cons.prems(1,3) unfolding apart_paths_def by blast
  show ?case
  proof (cases "se = x")
    case True
    then have "for_stream se (jobs taken xs) = []" using Cons.prems(2) apart by (intro for_stream_none) auto
    with True show ?thesis by (simp add: for_stream_own)
  next
    case False
    then have "for_stream se (stream_jobs (st_paths x) (updates (taken (st_id x)))) = []"
      using apart [of x] by (intro for_stream_other) auto
    moreover have "apart_paths xs" using Cons.prems(1) by (simp add: apart_paths_def)
    ultimately show ?thesis using Cons False by simp
  qed
qed simp

section \<open>The rounds\<close>

text \<open>How many entries wait in the queues of the streams.\<close>

definition waiting :: "('q \<Rightarrow> nat option list) \<Rightarrow> ('q, 'w, 'k) pipeline \<Rightarrow> nat" where
  "waiting oc pl = (\<Sum>se \<leftarrow> StreamPointers pl. length (oc (Rings pl (st_id se))))"

lemma waiting_zero: "waiting oc pl = 0 \<longleftrightarrow> (\<forall>se \<in> set (StreamPointers pl). oc (Rings pl (st_id se)) = [])"
  by (auto simp: waiting_def sum_list_eq_0_iff)

lemma waiting_taken:
  assumes "StreamPointers pl' = StreamPointers pl" "\<And>i. oc (Rings pl i) = taken i @ oc (Rings pl' i)"
  shows "waiting oc pl = (\<Sum>se \<leftarrow> StreamPointers pl. length (taken (st_id se))) + waiting oc pl'"
  unfolding waiting_def assms(1) assms(2) length_append by (simp add: sum_list_addf)

text \<open>
  What holds after \<open>n\<close> rounds that started in \<open>pl0\<close>: the messages sent are the jobs \<open>js\<close>, and for each stream these
  and what still waits are what waited at first.
\<close>

definition delivered ::
  "'k rdkafka \<Rightarrow> ConverterEnv \<Rightarrow> (fb_table \<Rightarrow> u8 list) \<Rightarrow> ('q \<Rightarrow> nat option list) \<Rightarrow> ('q, 'w, 'k) pipeline \<Rightarrow> nat \<Rightarrow>
   ('q, 'w, 'k) pipeline \<Rightarrow> bool" where
  "delivered K E serialize oc pl0 n pl \<longleftrightarrow> StreamPointers pl = StreamPointers pl0 \<and> UpdateStore pl = UpdateStore pl0
     \<and> (waiting oc pl = 0 \<or> waiting oc pl + n \<le> waiting oc pl0)
     \<and> (\<exists>js. for_each (forward K E serialize (UpdateStore pl0)) js (Store pl0) = (Inr (), Store pl)
          \<and> (\<forall>se \<in> set (StreamPointers pl0).
               for_stream se js @ stream_jobs (st_paths se) (updates (oc (Rings pl (st_id se))))
                 = stream_jobs (st_paths se) (updates (oc (Rings pl0 (st_id se))))))"

lemma delivered_start: "delivered K E serialize oc pl 0 pl"
  unfolding delivered_def by (intro conjI exI [of _ "[]"]) (simp_all add: run_prog for_stream_def)

lemma worker_ready_apart:
  assumes "worker_ready N wc oc rds pending E w pl"
  shows "apart_paths (visit_order pl)" "distinct (visit_order pl)"
proof -
  obtain s where "simulates N wc pl s" "distinct (map st_id (StreamPointers pl))"
    using assms by (auto simp: worker_ready_def)
  then have "distinct (concat (map st_paths (StreamPointers pl)))" "distinct (StreamPointers pl)"
    unfolding simulates_def proto_inv_def by (metis, simp add: distinct_map)
  then show "apart_paths (visit_order pl)" "distinct (visit_order pl)"
    using apart_pathsI by (auto simp: apart_paths_def visit_order_def)
qed

lemma delivered_round:
  assumes "delivered K E serialize oc pl0 n pl" "worker_ready N wc oc rds pending E w pl"
    and "handed_over oc wc w (visit_order pl) room pl [] pl1 taken new" "Rings pl' = Rings pl1"
    and "StreamPointers pl' = StreamPointers pl" "UpdateStore pl' = UpdateStore pl"
    and "for_each (forward K E serialize (UpdateStore pl)) (jobs taken (visit_order pl)) (Store pl) = (Inr (), Store pl')"
    and "0 < room" "\<forall>se \<in> set (StreamPointers pl). length (st_paths se) \<le> room"
  shows "delivered K E serialize oc pl0 (Suc n) pl'"
proof -
  have rings: "oc (Rings pl i) = taken i @ oc (Rings pl' i)" for i
    using assms(3,4) by (simp add: handed_over_def)
  have none: "taken i = []" if "i \<notin> st_id ` set (StreamPointers pl)" for i
    using assms(3) that by (simp add: handed_over_def)
  have progress: "\<exists>i. taken i \<noteq> []" if "\<exists>se \<in> set (StreamPointers pl). oc (Rings pl (st_id se)) \<noteq> []"
    using assms(3,8,9) that unfolding handed_over_def set_visit_order by blast
  note old = assms(1) [unfolded delivered_def]
  note sum = waiting_taken [of pl' pl oc taken, OF assms(5) rings]
  have wait: "waiting oc pl' = 0 \<or> waiting oc pl' + Suc n \<le> waiting oc pl0"
  proof (cases "waiting oc pl = 0")
    case False
    then obtain i where i: "taken i \<noteq> []" using progress by (auto simp: waiting_zero)
    then obtain se where se: "se \<in> set (StreamPointers pl)" "i = st_id se" using none by blast
    have "length (taken (st_id se)) \<le> (\<Sum>se \<leftarrow> StreamPointers pl. length (taken (st_id se)))"
      using se(1) by (intro member_le_sum_list) auto
    moreover have "0 < length (taken (st_id se))" using i se(2) by simp
    ultimately have "waiting oc pl' < waiting oc pl" using sum by linarith
    then show ?thesis using old False by auto
  qed (use sum in simp)
  obtain js where js: "for_each (forward K E serialize (UpdateStore pl0)) js (Store pl0) = (Inr (), Store pl)"
      "\<forall>se \<in> set (StreamPointers pl0). for_stream se js @ stream_jobs (st_paths se) (updates (oc (Rings pl (st_id se))))
         = stream_jobs (st_paths se) (updates (oc (Rings pl0 (st_id se))))"
    using old by blast
  let ?js = "js @ jobs taken (visit_order pl)"
  have "for_each (forward K E serialize (UpdateStore pl0)) ?js (Store pl0) = (Inr (), Store pl')"
    using js(1) assms(7) old by (simp add: for_each_append run_thn)
  moreover have "for_stream se ?js @ stream_jobs (st_paths se) (updates (oc (Rings pl' (st_id se))))
       = stream_jobs (st_paths se) (updates (oc (Rings pl0 (st_id se))))" if "se \<in> set (StreamPointers pl0)" for se
  proof -
    have "se \<in> set (visit_order pl)" using that old by simp
    then have "for_stream se (jobs taken (visit_order pl)) = stream_jobs (st_paths se) (updates (taken (st_id se)))"
      using for_stream_jobs [OF worker_ready_apart [OF assms(2)]] by blast
    then show ?thesis using js(2) that rings [of "st_id se"] by auto
  qed
  ultimately show ?thesis unfolding delivered_def using wait old assms(5,6) by auto
qed

section \<open>Properties\<close>

text \<open>
  C4: Nothing starves: the thread of a conversion worker, started in a state that is reached and left alone by
  the other threads, runs until its flag is cleared and, when it has as many rounds as there are entries in the
  queues of the streams, leaves none of these entries behind, however few packets the scheduler may hand out at a
  time, as long as one update of each stream fits. What the converters and producers have then is what
  converting and sending the jobs \<open>js\<close> one after the other gives, and the jobs of each stream are its updates in their
  order, each once for every path of the stream.
\<close>

theorem worker_thread_delivers:
  assumes "ready_queue W wc" "sized_queue W wc" "sized_queue Q oc" "N < 2 ^ 32" "rd_client K pending"
    and "pl_start wc pl0" "(pl_step Q oc W K E serialize N)\<^sup>*\<^sup>* pl0 pl" "Rest t = pl"
    and "w < N" "Held pl w = None" "wc (WorkQueues pl w) = []" "usable pending E (Store pl)"
    and "distinct (map st_id (StreamPointers pl))" "\<forall>i. length (oc (Rings pl i)) < rds" "rds \<le> 2 ^ 32"
    and "\<forall>job \<in> set (jobs (\<lambda>i. oc (Rings pl i)) (StreamPointers pl)). job_ok E pl job"
    and "0 < unat MAX_SUBQUEUE_SIZE" "\<forall>se \<in> set (StreamPointers pl). length (st_paths se) \<le> unat MAX_SUBQUEUE_SIZE"
    and "unat MAX_SUBQUEUE_SIZE < rounds" "list_all KeepGoing xs" "\<not> KeepGoing y" "waiting oc pl \<le> length xs"
  shows "\<exists>t' js. ConversionWorker_run Q W K E serialize rds rounds MAX_SUBQUEUE_SIZE w (xs @ y # ys) t = (Inr 0, t')
     \<and> (\<forall>se \<in> set (StreamPointers pl). oc (Rings (Rest t') (st_id se)) = [])
     \<and> for_each (forward K E serialize (UpdateStore pl)) js (Store pl) = (Inr (), Store (Rest t'))
     \<and> (\<forall>se \<in> set (StreamPointers pl).
          for_stream se js = stream_jobs (st_paths se) (updates (oc (Rings pl (st_id se)))))"
proof -
  let ?round = "worker_round Q W K E serialize rds rounds MAX_SUBQUEUE_SIZE w"
  define I where "I n s \<longleftrightarrow> worker_ready N wc oc rds pending E w s \<and> delivered K E serialize oc pl n s" for n s
  have "worker_ready N wc oc rds pending E w pl"
    using reachable_simulates [OF assms(1-4,6,7)] assms(10-14,16) by (simp add: worker_ready_def)
  then have start: "I 0 (Rest t)" by (simp add: I_def assms(8) delivered_start)
  have step: "\<forall>n s. I n s \<longrightarrow> (\<exists>s'. ?round s = (Inr (), s') \<and> I (Suc n) s')"
  proof (intro allI impI)
    fix n s assume I: "I n s"
    then have s: "worker_ready N wc oc rds pending E w s" "delivered K E serialize oc pl n s" by (simp_all add: I_def)
    then have "StreamPointers s = StreamPointers pl" by (simp add: delivered_def)
    then have fits: "\<forall>se \<in> set (StreamPointers s). length (st_paths se) \<le> unat MAX_SUBQUEUE_SIZE" using assms(18) by simp
    from worker_round_run [OF assms(1-5,9) s(1) assms(15,19), of serialize] obtain s' s1 taken new where
        r: "?round s = (Inr (), s')" "worker_ready N wc oc rds pending E w s'"
        "StreamPointers s' = StreamPointers s" "UpdateStore s' = UpdateStore s"
        "handed_over oc wc w (visit_order s) (unat MAX_SUBQUEUE_SIZE) s [] s1 taken new" "Rings s' = Rings s1"
        "for_each (forward K E serialize (UpdateStore s)) (jobs taken (visit_order s)) (Store s) = (Inr (), Store s')"
      by blast
    from delivered_round [OF s(2,1) r(5,6,3,4,7) assms(17) fits] r(1,2)
    show "\<exists>s'. ?round s = (Inr (), s') \<and> I (Suc n) s'" by (auto simp: I_def)
  qed
  obtain t' where t': "ConversionWorker_run Q W K E serialize rds rounds MAX_SUBQUEUE_SIZE w (xs @ y # ys) t = (Inr 0, t')"
      "I (length xs) (Rest t')"
    using run_loop_indexed [OF step assms(20,21) start, of ys "Clock t"]
    by (auto simp: ConversionWorker_run_def worker_run_def run_bnd run_prog)
  then have d: "delivered K E serialize oc pl (length xs) (Rest t')" by (simp add: I_def)
  then have "waiting oc (Rest t') = 0" using assms(22) by (auto simp: delivered_def)
  then have "\<forall>se \<in> set (StreamPointers pl). oc (Rings (Rest t') (st_id se)) = []"
    using d by (simp add: waiting_zero delivered_def)
  moreover from this obtain js where "for_each (forward K E serialize (UpdateStore pl)) js (Store pl) = (Inr (), Store (Rest t'))"
      "\<forall>se \<in> set (StreamPointers pl).
          for_stream se js = stream_jobs (st_paths se) (updates (oc (Rings pl (st_id se))))"
    using d unfolding delivered_def by (auto simp: stream_jobs_def)
  ultimately show ?thesis using t'(1) by blast
qed

lemma worker_thread_delivers_witness:
  "\<exists>t' js. ConversionWorker_run growing_queue growing_queue (list_client 3) plain_env (\<lambda>_. [1]) 9 9 5 0
        [\<lparr>KeepGoing = True, WorkTime = 5, Oversleep = 0\<rparr>, \<lparr>KeepGoing = False, WorkTime = 0, Oversleep = 0\<rparr>]
        \<lparr>Rest = example_loaded, Clock = 0, TimeEnds = []\<rparr> = (Inr 0, t')
     \<and> Rings (Rest t') 0 = []
     \<and> for_each (forward (list_client 3) plain_env (\<lambda>_. [1]) [0 \<mapsto> empty_update]) js (Store example_loaded)
          = (Inr (), Store (Rest t'))
     \<and> for_stream \<lparr>st_id = 0, st_paths = [0]\<rparr> js = [(0, 0)]"
proof -
  let ?t = "\<lparr>Rest = example_loaded, Clock = 0, TimeEnds = []\<rparr> :: (nat option list, nat list, nat list) pipeline timed"
  have pl: "StreamPointers example_loaded = [\<lparr>st_id = 0, st_paths = [0]\<rparr>]" "UpdateStore example_loaded = [0 \<mapsto> empty_update]"
      "Rings example_loaded = (\<lambda>i. [Some 0])" "Held example_loaded 0 = None" "WorkQueues example_loaded 0 = []"
      "waiting (\<lambda>q. q) example_loaded = Suc 0"
    by (simp_all add: example_loaded_def example_start_def waiting_def)
  have "usable mset plain_env (Store example_loaded)" using example_usable by (simp add: example_loaded_def)
  then show ?thesis
    using worker_thread_delivers [OF gq.ready_queue_axioms gs.sized_queue_axioms gs.sized_queue_axioms _ lc.rd_client_axioms
        example_start_ok example_reached, of ?t 0 9 5 9 "[\<lparr>KeepGoing = True, WorkTime = 5, Oversleep = 0\<rparr>]"
        "\<lparr>KeepGoing = False, WorkTime = 0, Oversleep = 0\<rparr>" "[]"] example_jobs_ok
    by (simp add: pl stream_jobs_def)
qed

text \<open>
  The room for one update is needed: from a stream with more paths than the scheduler may hand out nothing is ever taken.
\<close>

lemma stream_starves:
  assumes "unat mx < length ps" "rds \<noteq> 0"
  shows "on_fill i w (fillConversionQueue Q W rds this ps mx) pl = (Inr 0, pl)"
proof -
  obtain r where "rds = Suc r" using assms(2) by (cases rds) auto
  with assms(1) show ?thesis
    by (cases pl) (simp add: on_fill_def fillConversionQueue_def fill_view_def put_view_def prog_defs)
qed

end
