(* ===== verification/Worker_Drain.thy ===== *)
theory Worker_Drain
  imports Worker_Progress
begin

text \<open>
  \<open>ConversionPath::~ConversionPath\<close> waits while packets of the path are in transit. The wait ends: when the workers have
  worked off their queues, no path is in transit.
\<close>

section \<open>All workers\<close>

lemma drain_keeps_convertible:
  assumes "simulates N wc pl s" "w < N" "v < N" "v \<noteq> w" "Held pl v = None"
    and "PacketStore pl' = PacketStore pl |` (- set (wc (WorkQueues pl w)))" "UpdateStore pl' = UpdateStore pl"
    and "same_objects E (Store pl) (Store pl')" "k \<in> set (wc (WorkQueues pl v))" "convertible E pl k"
  shows "convertible E pl' k"
proof (rule convertible_same [OF assms(10,8) _ assms(7)])
  have "set (worker_refs wc pl v) \<inter> set (worker_refs wc pl w) = {}"
    using assms(1-4) unfolding simulates_def refs_ok_def by blast
  then have "k \<notin> set (wc (WorkQueues pl w))" using assms(9) by (auto simp: worker_refs_def)
  then show "PacketStore pl' k = PacketStore pl k" by (simp add: assms(6))
qed

lemma drain_workers_run:
  assumes K: "rd_client K pending" and W: "fifo_queue W wc" and N: "N < 2 ^ 32"
  shows "simulates N wc pl s \<Longrightarrow> \<forall>v < N. Held pl v = None \<Longrightarrow> usable pending E (Store pl) \<Longrightarrow> distinct ws \<Longrightarrow>
    \<forall>v \<in> set ws. v < N \<and> length (wc (WorkQueues pl v)) < rounds \<and> (\<forall>k \<in> set (wc (WorkQueues pl v)). convertible E pl k) \<Longrightarrow>
    \<exists>pl' s'. for_each (\<lambda>w. drain_worker W K E serialize w rounds) ws pl = (Inr (), pl') \<and> simulates N wc pl' s'
      \<and> (\<forall>v < N. Held pl' v = None \<and> wc (WorkQueues pl' v) = (if v \<in> set ws then [] else wc (WorkQueues pl v)))
      \<and> StreamPointers pl' = StreamPointers pl \<and> Rings pl' = Rings pl \<and> same_objects E (Store pl) (Store pl')"
proof (induction ws arbitrary: pl s)
  case Nil
  then show ?case by (auto simp: prog_defs same_objects_refl)
next
  case (Cons w ws)
  have w: "w < N" "Held pl w = None" "length (wc (WorkQueues pl w)) < rounds"
      "\<forall>k \<in> set (wc (WorkQueues pl w)). convertible E pl k"
    using Cons.prems(2,5) by simp_all
  obtain pl1 s1 where d: "drain_worker W K E serialize w rounds pl = (Inr (), pl1)" "wc (WorkQueues pl1 w) = []"
      "Held pl1 w = None" "PacketStore pl1 = PacketStore pl |` (- set (wc (WorkQueues pl w)))"
      "usable pending E (Store pl1)" "Rings pl1 = Rings pl" "StreamPointers pl1 = StreamPointers pl"
      "UpdateStore pl1 = UpdateStore pl" "same_objects E (Store pl) (Store pl1)" "simulates N wc pl1 s1"
      "\<forall>v. v \<noteq> w \<longrightarrow> WorkQueues pl1 v = WorkQueues pl v \<and> Held pl1 v = Held pl v"
    using drain_worker_run [OF K W N w(1) Cons.prems(1) w(2) Cons.prems(3) w(4,3)] by blast
  have held: "\<forall>v < N. Held pl1 v = None" using d(3,11) Cons.prems(2) by metis
  have "v < N \<and> length (wc (WorkQueues pl1 v)) < rounds \<and> (\<forall>k \<in> set (wc (WorkQueues pl1 v)). convertible E pl1 k)"
    if v: "v \<in> set ws" for v
  proof -
    have vw: "v \<noteq> w" "v < N" "Held pl v = None" "WorkQueues pl1 v = WorkQueues pl v"
      using v Cons.prems(2,4,5) d(11) by auto
    moreover have "convertible E pl1 k" if "k \<in> set (wc (WorkQueues pl v))" for k
      using drain_keeps_convertible [OF Cons.prems(1) w(1) vw(2,1,3) d(4,8,9) that] that v Cons.prems(5) by simp
    ultimately show ?thesis using v Cons.prems(5) by simp
  qed
  then obtain pl' s' where "for_each (\<lambda>w. drain_worker W K E serialize w rounds) ws pl1 = (Inr (), pl')" "simulates N wc pl' s'"
      "\<forall>v < N. Held pl' v = None \<and> wc (WorkQueues pl' v) = (if v \<in> set ws then [] else wc (WorkQueues pl1 v))"
      "StreamPointers pl' = StreamPointers pl1" "Rings pl' = Rings pl1" "same_objects E (Store pl1) (Store pl')"
    using Cons.IH [OF d(10) held d(5)] Cons.prems(4) by auto
  then show ?case
    using d(1,2,6,7,11) same_objects_trans [OF d(9)]
    by (intro exI [of _ pl'] exI [of _ s']) (auto simp: run_thn)
qed

section \<open>Properties\<close>



end
