(* ===== verification/Epics_Client.thy ===== *)
theory Epics_Client
  imports Pv_Data Conc_Queue
begin

text \<open>
  \<open>EpicsClient/EpicsClientInterface.h\<close>, \<open>EpicsClientMonitor.cpp\<close> (caching and emitting updates) and
  the state both kinds of client share. A client owns its queue of updates. Updates are shared
  objects: the queue and the cache hold references into the store \<open>Updates\<close>, so that changing the
  cached update changes it in the queue too.
\<close>

section \<open>The state of a client\<close>

record 'q EpicsClientBase =
  EmitQueue :: 'q
  Updates :: "nat \<rightharpoonup> EpicsPVUpdate"
  NextUpdate :: nat
  client_status :: int

text \<open>\<open>std::make_shared<EpicsPVUpdate>()\<close>, filled in.\<close>

definition new_update :: "EpicsPVUpdate \<Rightarrow> (('q, 'm) EpicsClientBase_scheme, nat) prog" where
  "new_update up =
     bnd (get_st NextUpdate) (\<lambda>r.
     thn (upd_st (\<lambda>c. c\<lparr>Updates := (Updates c)(r \<mapsto> up), NextUpdate := Suc r\<rparr>)) (ret r))"

definition get_update :: "nat \<Rightarrow> (('q, 'm) EpicsClientBase_scheme, EpicsPVUpdate) prog" where
  "get_update r = bnd (get_st (\<lambda>c. Updates c r)) (\<lambda>u. of_res (deref u))"

definition mark_alarm :: "nat \<Rightarrow> (('q, 'm) EpicsClientBase_scheme, unit) prog" where
  "mark_alarm r = bnd (get_update r) (\<lambda>u.
     upd_st (\<lambda>c. c\<lparr>Updates := (Updates c)(r \<mapsto> u\<lparr>AlarmStatusChanged := True\<rparr>)\<rparr>))"

text \<open>\<open>EmitQueue->enqueue(Update)\<close>; the result is not looked at. The queue holds shared pointers,
  which may be null.\<close>

definition queue_push ::
  "('q, nat option) queue_ops \<Rightarrow> nat \<Rightarrow> (('q, 'm) EpicsClientBase_scheme, unit) prog" where
  "queue_push Q r = upd_st (\<lambda>c. c\<lparr>EmitQueue := snd (enqueue Q (Some r) (EmitQueue c))\<rparr>)"

definition errorInEpics :: "(('q, 'm) EpicsClientBase_scheme, unit) prog" where
  "errorInEpics = upd_st (\<lambda>c. c\<lparr>client_status := - 1\<rparr>)"

section \<open>EpicsClientMonitor: emitting and caching\<close>

datatype ChannelConnectionState = UNKNOWN | NEVER_CONNECTED | CONNECTED | DISCONNECTED | DESTROYED

fun toString :: "ChannelConnectionState \<Rightarrow> string" where
  "toString UNKNOWN = ''UNKNOWN''"
| "toString NEVER_CONNECTED = ''NEVER_CONNECTED''"
| "toString CONNECTED = ''CONNECTED''"
| "toString DISCONNECTED = ''DISCONNECTED''"
| "toString DESTROYED = ''DESTROYED''"

definition getAlarmStringFromUpdate :: "EpicsPVUpdate \<Rightarrow> string res" where
  "getAlarmStringFromUpdate Update =
     bind_res (deref (epics_pvstr Update)) (\<lambda>pv.
     bind_res (deref (Option.bind (getSubField ''alarm'' pv) as_structure)) (\<lambda>alarm.
     deref (Option.bind (getSubField ''message'' alarm) as_string)))"

text \<open>\<open>CachedUpdate\<close> is a reference; dereferencing a null one crashes.\<close>

definition alarmMessageChanged :: "EpicsPVUpdate \<Rightarrow> EpicsPVUpdate option \<Rightarrow> bool res" where
  "alarmMessageChanged Update CachedUpdate =
     bind_res (deref (epics_pvstr Update)) (\<lambda>pv.
     if getSubField ''alarm'' pv = None then Inr False
     else bind_res (getAlarmStringFromUpdate Update) (\<lambda>CurrentAlarmString.
          bind_res (bind_res (deref CachedUpdate) getAlarmStringFromUpdate) (\<lambda>CachedAlarmString.
          Inr (CurrentAlarmString \<noteq> CachedAlarmString))))"

record 'q EpicsClientCache = "'q EpicsClientBase" +
  CachedUpdate :: "nat option"

definition emitWithoutCaching ::
  "('q, nat option) queue_ops \<Rightarrow> nat \<Rightarrow> (('q, 'm) EpicsClientCache_scheme, unit) prog" where
  "emitWithoutCaching Q Update = queue_push Q Update"

definition monitor_emit ::
  "('q, nat option) queue_ops \<Rightarrow> nat \<Rightarrow> (('q, 'm) EpicsClientCache_scheme, unit) prog" where
  "monitor_emit Q Update =
     bnd (get_st CachedUpdate) (\<lambda>cached.
     bnd (case cached of
            None \<Rightarrow> ret True
          | Some k \<Rightarrow>
              bnd (get_update Update) (\<lambda>u.
              bnd (get_st (\<lambda>c. Updates c k)) (\<lambda>cu. of_res (alarmMessageChanged u cu)))) (\<lambda>changed.
     thn (if changed then mark_alarm Update else ret ())
     (thn (upd_st (\<lambda>c. c\<lparr>CachedUpdate := Some Update\<rparr>))
     (emitWithoutCaching Q Update))))"

definition emitCachedValue ::
  "('q, nat option) queue_ops \<Rightarrow> (('q, 'm) EpicsClientCache_scheme, unit) prog" where
  "emitCachedValue Q =
     bnd (get_st CachedUpdate) (\<lambda>cached. case cached of
       None \<Rightarrow> ret ()
     | Some r \<Rightarrow> thn (mark_alarm r) (emitWithoutCaching Q r))"

section \<open>The interface\<close>

text \<open>
  What the rest of the program relies on: emitting an update puts a reference to it at the end of
  the queue, and an error, once reported, is seen by \<open>status\<close> from then on, whatever is emitted.
\<close>

locale epics_client =
  fixes emit :: "nat \<Rightarrow> (('q, 'm) EpicsClientBase_scheme, unit) prog"
    and report_error :: "(('q, 'm) EpicsClientBase_scheme, unit) prog"
    and status :: "('q, 'm) EpicsClientBase_scheme \<Rightarrow> int"
    and contents :: "'q \<Rightarrow> nat option list"
    and valid :: "('q, 'm) EpicsClientBase_scheme \<Rightarrow> nat \<Rightarrow> bool"
  assumes emit_queues: "valid c r \<Longrightarrow> \<exists>c'. emit r c = (Inr (), c')
      \<and> contents (EmitQueue c') = contents (EmitQueue c) @ [Some r]
      \<and> status c' = status c \<and> (\<forall>r'. valid c r' \<longrightarrow> valid c' r')"
    and report_error_status: "status (snd (report_error c)) < 0"
begin

text \<open>A batch of updates arrives in the queue in the order it was emitted.\<close>

lemma emit_all_queues:
  assumes "\<forall>r \<in> set rs. valid c r"
  shows "\<exists>c'. for_each emit rs c = (Inr (), c')
     \<and> contents (EmitQueue c') = contents (EmitQueue c) @ map Some rs \<and> status c' = status c
     \<and> (\<forall>r'. valid c r' \<longrightarrow> valid c' r')"
  using assms
proof (induction rs arbitrary: c)
  case Nil
  then show ?case by (simp add: prog_defs)
next
  case (Cons r rs)
  then obtain c1 where c1: "emit r c = (Inr (), c1)"
      "contents (EmitQueue c1) = contents (EmitQueue c) @ [Some r]" "status c1 = status c"
      "\<forall>r'. valid c r' \<longrightarrow> valid c1 r'"
    using emit_queues [of c r] by auto
  moreover from Cons.prems c1(4) have "\<forall>r \<in> set rs. valid c1 r" by simp
  ultimately show ?case using Cons.IH [of c1] by (auto simp: run_thn)
qed

lemma error_persists:
  assumes "report_error c = (Inr (), c1)" "\<forall>r \<in> set rs. valid c1 r"
  shows "status (snd (for_each emit rs c1)) < 0"
  using emit_all_queues [OF assms(2)] report_error_status [of c] assms(1) by auto

end


section \<open>The monitor client provides the interface\<close>

text \<open>The alarm message of an update behind a reference.\<close>

definition alarm_text :: "('q, 'm) EpicsClientBase_scheme \<Rightarrow> nat \<Rightarrow> string option" where
  "alarm_text c r = Option.bind (Updates c r) (\<lambda>u.
     case getAlarmStringFromUpdate u of Inl _ \<Rightarrow> None | Inr t \<Rightarrow> Some t)"

definition cached_text :: "('q, 'm) EpicsClientCache_scheme \<Rightarrow> string option" where
  "cached_text c = Option.bind (CachedUpdate c) (alarm_text c)"

text \<open>The cached update, where there is one, has an alarm message.\<close>

definition cache_ok :: "('q, 'm) EpicsClientCache_scheme \<Rightarrow> bool" where
  "cache_ok c \<longleftrightarrow> (CachedUpdate c \<noteq> None \<longrightarrow> cached_text c \<noteq> None)"

lemma alarm_text_Some:
  "alarm_text c r = Some t \<longleftrightarrow>
     (\<exists>u. Updates c r = Some u \<and> getAlarmStringFromUpdate u = Inr t)"
  by (cases "Updates c r") (auto simp: alarm_text_def split: sum.splits)

lemma getAlarmString_flag [simp]:
  "getAlarmStringFromUpdate (u\<lparr>AlarmStatusChanged := b\<rparr>) = getAlarmStringFromUpdate u"
  by (simp add: getAlarmStringFromUpdate_def)

lemma alarmMessageChanged_result:
  "getAlarmStringFromUpdate u = Inr t \<Longrightarrow> getAlarmStringFromUpdate cu = Inr t' \<Longrightarrow>
   alarmMessageChanged u (Some cu) = Inr (t \<noteq> t')"
  by (auto simp: alarmMessageChanged_def getAlarmStringFromUpdate_def bind_res_Inr_iff bind_eq_Some_conv)

lemma monitor_emit_run:
  assumes "Updates c r = Some u" "getAlarmStringFromUpdate u = Inr t" "cache_ok c"
  shows "monitor_emit Q r c = (Inr (), c\<lparr>
     Updates := (Updates c)(r \<mapsto> u\<lparr>AlarmStatusChanged := AlarmStatusChanged u \<or> cached_text c \<noteq> Some t\<rparr>),
     CachedUpdate := Some r, EmitQueue := snd (enqueue Q (Some r) (EmitQueue c))\<rparr>)"
proof (cases "CachedUpdate c")
  case None
  with assms show ?thesis
    by (simp add: monitor_emit_def mark_alarm_def get_update_def emitWithoutCaching_def
        queue_push_def cached_text_def prog_defs)
next
  case (Some k)
  then obtain cu t' where cu: "Updates c k = Some cu" "getAlarmStringFromUpdate cu = Inr t'"
    using assms(3) by (auto simp: cache_ok_def cached_text_def alarm_text_Some)
  then have "cached_text c = Some t'" using Some by (simp add: cached_text_def alarm_text_Some)
  with assms Some cu show ?thesis
    by (auto simp: monitor_emit_def mark_alarm_def get_update_def emitWithoutCaching_def
        queue_push_def prog_defs alarmMessageChanged_result map_upd_triv)
qed

text \<open>An update that can be emitted, and a cache that can be compared with.\<close>

definition monitor_valid :: "('q, 'm) EpicsClientCache_scheme \<Rightarrow> nat \<Rightarrow> bool" where
  "monitor_valid c r \<longleftrightarrow> alarm_text c r \<noteq> None \<and> cache_ok c"

lemma alarm_text_emit:
  assumes "Updates c r = Some u" "monitor_emit Q r c = (Inr (), c')" "alarm_text c r = Some t" "cache_ok c"
  shows "alarm_text c' = alarm_text c \<and> cached_text c' = Some t \<and> cache_ok c'"
proof -
  have u: "getAlarmStringFromUpdate u = Inr t" using assms(1,3) by (simp add: alarm_text_Some)
  have c': "c' = c\<lparr>
     Updates := (Updates c)(r \<mapsto> u\<lparr>AlarmStatusChanged := AlarmStatusChanged u \<or> cached_text c \<noteq> Some t\<rparr>),
     CachedUpdate := Some r, EmitQueue := snd (enqueue Q (Some r) (EmitQueue c))\<rparr>"
    using monitor_emit_run [OF assms(1) u assms(4), of Q] assms(2) by simp
  have "alarm_text c' r' = alarm_text c r'" for r'
    using assms(1) by (simp add: c' alarm_text_def)
  moreover from this have "cached_text c' = Some t"
    using assms(3) by (simp add: c' cached_text_def)
  ultimately show ?thesis by (auto simp: cache_ok_def)
qed

locale update_queue = ready_queue Q contents
  for Q :: "('q, nat option) queue_ops" and contents :: "'q \<Rightarrow> nat option list"

sublocale update_queue \<subseteq> mon:
  epics_client "monitor_emit Q" errorInEpics client_status contents monitor_valid
proof
  fix c :: "('q, 'm) EpicsClientCache_scheme" and r
  assume v: "monitor_valid c r"
  then obtain t u where u: "Updates c r = Some u" "getAlarmStringFromUpdate u = Inr t"
      and ok: "alarm_text c r = Some t" "cache_ok c"
    by (auto simp: monitor_valid_def alarm_text_Some)
  let ?c = "snd (monitor_emit Q r c)"
  have run: "monitor_emit Q r c = (Inr (), ?c)"
    using monitor_emit_run [OF u ok(2), of Q] by simp
  have "contents (EmitQueue ?c) = contents (EmitQueue c) @ [Some r]" "client_status ?c = client_status c"
    by (simp_all add: monitor_emit_run [OF u ok(2)] enqueue_contents)
  with run alarm_text_emit [OF u(1) run ok] show "\<exists>c'. monitor_emit Q r c = (Inr (), c')
      \<and> contents (EmitQueue c') = contents (EmitQueue c) @ [Some r]
      \<and> client_status c' = client_status c \<and> (\<forall>r'. monitor_valid c r' \<longrightarrow> monitor_valid c' r')"
    by (auto simp: monitor_valid_def intro!: exI [of _ ?c])
next
  fix c :: "('q, 'm) EpicsClientCache_scheme"
  show "client_status (snd (errorInEpics c)) < 0" by (simp add: errorInEpics_def prog_defs)
qed

context update_queue
begin

lemma monitor_emit_batch:
  assumes "\<forall>r \<in> set rs. monitor_valid c r"
  shows "\<exists>c'. for_each (monitor_emit Q) rs c = (Inr (), c')
     \<and> contents (EmitQueue c') = contents (EmitQueue c) @ map Some rs
     \<and> client_status c' = client_status c \<and> (\<forall>r'. monitor_valid c r' \<longrightarrow> monitor_valid c' r')"
  by (rule mon.emit_all_queues [OF assms])

end

interpretation gu: update_queue growing_queue "\<lambda>q. q"
  by unfold_locales

section \<open>Alarm flags\<close>

text \<open>The flags a sequence of updates should carry, after an update with message \<open>prev\<close>.\<close>

fun alarm_flags :: "string option \<Rightarrow> string list \<Rightarrow> bool list" where
  "alarm_flags prev [] = []"
| "alarm_flags prev (t # ts) = (prev \<noteq> Some t) # alarm_flags (Some t) ts"

lemma map2_cong_set: "(\<And>x y. x \<in> set xs \<Longrightarrow> f x y = g x y) \<Longrightarrow> map2 f xs ys = map2 g xs ys"
  by (auto dest: set_zip_leftD)

lemma monitor_emit_flags:
  assumes "distinct rs" "cache_ok c" "list_all2 (\<lambda>r t. alarm_text c r = Some t) rs ts"
    and "\<forall>r \<in> set rs. \<exists>u. Updates c r = Some u \<and> \<not> AlarmStatusChanged u"
  shows "\<exists>c'. for_each (monitor_emit Q) rs c = (Inr (), c')
     \<and> map (Updates c') rs = map2 (\<lambda>r b. Some (the (Updates c r)\<lparr>AlarmStatusChanged := b\<rparr>)) rs
         (alarm_flags (cached_text c) ts)
     \<and> (\<forall>r. r \<notin> set rs \<longrightarrow> Updates c' r = Updates c r) \<and> cache_ok c'
     \<and> alarm_text c' = alarm_text c
     \<and> CachedUpdate c' = (if rs = [] then CachedUpdate c else Some (last rs))"
  using assms
proof (induction rs arbitrary: c ts)
  case Nil
  then show ?case by (simp add: prog_defs)
next
  case (Cons r rs)
  then obtain t ts' u where ts: "ts = t # ts'" and tr: "alarm_text c r = Some t"
      and tl: "list_all2 (\<lambda>r t. alarm_text c r = Some t) rs ts'"
      and u: "Updates c r = Some u" "\<not> AlarmStatusChanged u" "getAlarmStringFromUpdate u = Inr t"
    by (auto simp: list_all2_Cons1 alarm_text_Some)
  let ?c = "snd (monitor_emit Q r c)"
  note run = monitor_emit_run [OF u(1,3) Cons.prems(2), of Q]
  have e: "monitor_emit Q r c = (Inr (), ?c)" using run by simp
  have c1: "alarm_text ?c = alarm_text c" "cached_text ?c = Some t" "cache_ok ?c"
    using alarm_text_emit [OF u(1) e tr Cons.prems(2)] by auto
  have "list_all2 (\<lambda>r t. alarm_text ?c r = Some t) rs ts'" using tl by (simp add: c1(1))
  moreover have "\<forall>r \<in> set rs. \<exists>u. Updates ?c r = Some u \<and> \<not> AlarmStatusChanged u"
    using Cons.prems(1,4) by (auto simp: run)
  ultimately obtain c2 where c2: "for_each (monitor_emit Q) rs ?c = (Inr (), c2)"
     "map (Updates c2) rs = map2 (\<lambda>r b. Some (the (Updates ?c r)\<lparr>AlarmStatusChanged := b\<rparr>)) rs
        (alarm_flags (Some t) ts')"
     "\<forall>r. r \<notin> set rs \<longrightarrow> Updates c2 r = Updates ?c r" "cache_ok c2" "alarm_text c2 = alarm_text c"
     "CachedUpdate c2 = (if rs = [] then CachedUpdate ?c else Some (last rs))"
    using Cons.IH [of ?c ts'] Cons.prems(1) c1 by auto
  have flag: "Updates c2 r = Some (u\<lparr>AlarmStatusChanged := cached_text c \<noteq> Some t\<rparr>)"
    using c2(3) Cons.prems(1) u(2) by (simp add: run)
  have "map (Updates c2) rs = map2 (\<lambda>r b. Some (the (Updates c r)\<lparr>AlarmStatusChanged := b\<rparr>)) rs
        (alarm_flags (Some t) ts')"
    unfolding c2(2) by (rule map2_cong_set) (use Cons.prems(1) in \<open>auto simp: run\<close>)
  with flag u ts have upd: "map (Updates c2) (r # rs) =
      map2 (\<lambda>r b. Some (the (Updates c r)\<lparr>AlarmStatusChanged := b\<rparr>)) (r # rs) (alarm_flags (cached_text c) ts)"
    by simp
  have other: "\<forall>r'. r' \<notin> set (r # rs) \<longrightarrow> Updates c2 r' = Updates c r'"
    using c2(3) by (simp add: run)
  have "for_each (monitor_emit Q) (r # rs) c = (Inr (), c2)"
    using e c2(1) by (cases "monitor_emit Q r c") (simp add: thn_def bnd_def)
  then show ?case
    using c2(4-6) upd other by (intro exI [of _ c2]) (simp add: run)
qed

end
