(* ===== verification/Epics_Monitor.thy ===== *)
theory Epics_Monitor
  imports Epics_Client Kafka_Instances
begin

text \<open>
  \<open>EpicsClientMonitor.cpp\<close> (connection states), \<open>EpicsClientMonitorImpl.h\<close>, \<open>FwdMonitorRequester.cpp\<close>,
  \<open>ChannelRequester.cpp\<close> and \<open>EpicsClientFactory.cpp\<close>. Of pvAccess the model keeps which of its
  calls give a non-null object (the record \<open>pvaccess\<close>), and of its monitor objects which have been
  created and not destroyed.
\<close>

section \<open>Monitor requesters\<close>

record FwdMonitorRequester =
  ChannelName :: string
  RequesterName :: string

text \<open>The constructor; the state is \<open>GlobalIdCounter\<close>.\<close>

definition new_FwdMonitorRequester :: "string \<Rightarrow> (u32, FwdMonitorRequester) prog" where
  "new_FwdMonitorRequester PVName =
     bnd (get_st id) (\<lambda>n.
     thn (upd_st (\<lambda>n. n + 1))
     (ret \<lparr>ChannelName = PVName, RequesterName = ''FwdMonitorRequester-'' @ dec (unat n)\<rparr>))"

record pv_status =
  isSuccess :: bool
  isOK :: bool

text \<open>\<open>monitorConnect\<close>: true when \<open>Monitor->start()\<close> is called.\<close>

definition monitorConnect :: "pv_status \<Rightarrow> (('q, 'm) EpicsClientBase_scheme, bool) prog" where
  "monitorConnect st =
     (if \<not> isSuccess st then thn errorInEpics (ret False)
      else ret (isOK st))"

text \<open>
  \<open>monitorEvent\<close>: \<open>eles\<close> are the structures that \<open>Monitor->poll()\<close> gives until it gives a null
  element; each is copied into a new update, then all updates are emitted.
\<close>

definition monitorEvent ::
  "('q, nat option) queue_ops \<Rightarrow> FwdMonitorRequester \<Rightarrow> pvfield list \<Rightarrow>
   (('q, 'm) EpicsClientCache_scheme, unit) prog" where
  "monitorEvent Q R eles =
     bnd (map_prog (\<lambda>ele. new_update \<lparr>epics_pvstr = Some ele, channel = ChannelName R,
                                    AlarmStatusChanged = False\<rparr>) eles) (\<lambda>ups.
     for_each (monitor_emit Q) ups)"

section \<open>The monitor client\<close>

record pvaccess =
  pa_provider :: "string \<Rightarrow> bool"
  pa_channel :: "string \<Rightarrow> bool"
  pa_monitor :: "string \<Rightarrow> bool"

record 'q EpicsClientMonitor = "'q EpicsClientCache" +
  channel_name :: string
  has_provider :: bool
  has_channel :: bool
  monitor :: "nat option"
  monitor_requester :: "FwdMonitorRequester option"
  ActiveMonitors :: "nat list"
  NextMonitor :: nat
  ConnectionState :: ChannelConnectionState
  ServiceID :: string
  ConnectionStatusProducer :: "ProducerTopic option"

definition impl_init :: "pvaccess \<Rightarrow> string \<Rightarrow> ('q EpicsClientMonitor, int) prog" where
  "impl_init P provider_type =
     thn (upd_st (\<lambda>c. c\<lparr>has_provider := pa_provider P provider_type\<rparr>))
     (bnd (get_st has_provider) (\<lambda>ok.
      if \<not> ok then ret 1
      else thn (upd_st (\<lambda>c. c\<lparr>has_channel := pa_channel P (channel_name c)\<rparr>)) (ret 0)))"

text \<open>\<open>EpicsClientMonitor::EpicsClientMonitor\<close> on a new, empty queue.\<close>

definition new_EpicsClientMonitor ::
  "pvaccess \<Rightarrow> 'q \<Rightarrow> string \<Rightarrow> string \<Rightarrow> 'q EpicsClientMonitor res" where
  "new_EpicsClientMonitor P Ring provider_type name =
     (case impl_init P provider_type
        \<lparr>EmitQueue = Ring, Updates = Map.empty, NextUpdate = 0, client_status = 0, CachedUpdate = None,
         channel_name = name, has_provider = False, has_channel = False, monitor = None,
         monitor_requester = None, ActiveMonitors = [], NextMonitor = 0,
         ConnectionState = NEVER_CONNECTED, ServiceID = [], ConnectionStatusProducer = None\<rparr> of
        (Inr x, c) \<Rightarrow> (if x \<noteq> 0 then Inl (Throw (RuntimeError ''could not initialize'')) else Inr c)
      | (Inl e, c) \<Rightarrow> Inl e)"

definition destroy_monitor :: "('q EpicsClientMonitor, unit) prog" where
  "destroy_monitor =
     bnd (get_st monitor) (\<lambda>m. case m of
       None \<Rightarrow> ret ()
     | Some i \<Rightarrow> upd_st (\<lambda>c. c\<lparr>ActiveMonitors := remove1 i (ActiveMonitors c)\<rparr>))"

definition monitoringStop :: "('q EpicsClientMonitor, int) prog" where
  "monitoringStop =
     thn destroy_monitor
     (thn (upd_st (\<lambda>c. c\<lparr>monitor_requester := None\<rparr>))
     (thn (upd_st (\<lambda>c. c\<lparr>monitor := None\<rparr>)) (ret 0)))"

definition channelDestroyed :: "('q EpicsClientMonitor, int) prog" where
  "channelDestroyed = thn monitoringStop (ret 0)"

definition impl_stop :: "('q EpicsClientMonitor, int) prog" where
  "impl_stop =
     thn destroy_monitor
     (thn (upd_st (\<lambda>c. c\<lparr>monitor := None\<rparr>))
     (thn (upd_st (\<lambda>c. c\<lparr>has_channel := False\<rparr>)) (ret 0)))"

text \<open>The requester is created before the monitor, with the next global number.\<close>

definition monitoringStart :: "pvaccess \<Rightarrow> ('q EpicsClientMonitor \<times> u32, int) prog" where
  "monitoringStart P = (\<lambda>(c, g).
     if \<not> has_channel c then (Inr (- 1), (c, g))
     else
       (let c1 = (if monitor c \<noteq> None then snd (monitoringStop c) else c);
            (r, g') = new_FwdMonitorRequester (channel_name c1) g in
        case r of
          Inl e \<Rightarrow> (Inl e, (c1, g'))
        | Inr R \<Rightarrow>
            (if pa_monitor P (channel_name c1)
             then (Inr 0, (c1\<lparr>monitor_requester := Some R, monitor := Some (NextMonitor c1),
                       ActiveMonitors := NextMonitor c1 # ActiveMonitors c1,
                       NextMonitor := Suc (NextMonitor c1)\<rparr>, g'))
             else (Inr (- 2), (c1\<lparr>monitor_requester := Some R, monitor := None\<rparr>, g')))))"

definition setServiceID :: "string \<Rightarrow> ('q EpicsClientMonitor, unit) prog" where
  "setServiceID NewServiceID = upd_st (\<lambda>c. c\<lparr>ServiceID := NewServiceID\<rparr>)"

definition setProducer :: "ProducerTopic \<Rightarrow> ('q EpicsClientMonitor, unit) prog" where
  "setProducer P = upd_st (\<lambda>c. c\<lparr>ConnectionStatusProducer := Some P\<rparr>)"

definition getConnectionState :: "'q EpicsClientMonitor \<Rightarrow> string" where
  "getConnectionState c = toString (ConnectionState c)"

section \<open>Connection states\<close>

text \<open>The message about a connection; the type keeps its default for an unknown state.\<close>

record EpicsConnectionInfo =
  ep_timestamp :: u64
  ep_source_name :: string
  ep_service_id :: string
  ep_type :: "ChannelConnectionState option"

definition connection_event_type :: "ChannelConnectionState \<Rightarrow> ChannelConnectionState option" where
  "connection_event_type S =
     (if S = NEVER_CONNECTED then Some NEVER_CONNECTED
      else if S = CONNECTED then Some CONNECTED
      else if S = DISCONNECTED then Some DISCONNECTED
      else if S = DESTROYED then Some DESTROYED else None)"

text \<open>
  The whole handler: the client, the global counter of requesters, and the producers. \<open>now\<close> is the
  clock and \<open>ep00_bytes\<close> the generated serialisation.
\<close>

record ('q, 'k) conn_env =
  Mon :: "'q EpicsClientMonitor"
  GlobalIdCounter :: u32
  Kafka :: "'k InstanceSet"

definition on_mon :: "('q EpicsClientMonitor, 'a) prog \<Rightarrow> (('q, 'k) conn_env, 'a) prog" where
  "on_mon m e = (case m (Mon e) of (r, c) \<Rightarrow> (r, e\<lparr>Mon := c\<rparr>))"

definition on_mon_count ::
  "('q EpicsClientMonitor \<times> u32, 'a) prog \<Rightarrow> (('q, 'k) conn_env, 'a) prog" where
  "on_mon_count m e = (case m (Mon e, GlobalIdCounter e) of
     (r, (c, g)) \<Rightarrow> (r, e\<lparr>Mon := c, GlobalIdCounter := g\<rparr>))"

definition on_kafka :: "('k InstanceSet, 'a) prog \<Rightarrow> (('q, 'k) conn_env, 'a) prog" where
  "on_kafka m e = (case m (Kafka e) of (r, k) \<Rightarrow> (r, e\<lparr>Kafka := k\<rparr>))"

definition handleConnectionStateChange ::
  "pvaccess \<Rightarrow> 'k rdkafka \<Rightarrow> (EpicsConnectionInfo \<Rightarrow> u8 list) \<Rightarrow> u64 \<Rightarrow> ChannelConnectionState \<Rightarrow>
   (('q, 'k) conn_env, unit) prog" where
  "handleConnectionStateChange P K ep00_bytes now NewConnectionState =
     thn (on_mon (upd_st (\<lambda>c. c\<lparr>ConnectionState := NewConnectionState\<rparr>)))
     (thn (if NewConnectionState = CONNECTED then on_mon_count (monitoringStart P)
           else on_mon monitoringStop)
     (bnd (get_st Mon) (\<lambda>c. case ConnectionStatusProducer c of
        None \<Rightarrow> ret ()
      | Some t \<Rightarrow>
          thn (on_kafka (on_producer (KafkaProducer t) (produceAndSetKey K (Name t)
                 (ep00_bytes \<lparr>ep_timestamp = now, ep_source_name = channel_name c,
                    ep_service_id = ServiceID c,
                    ep_type = connection_event_type NewConnectionState\<rparr>)
                 (channel_name c)))) (ret ()))))"

subsection \<open>ChannelRequester\<close>

datatype pva_state = PVA_NEVER_CONNECTED | PVA_CONNECTED | PVA_DISCONNECTED | PVA_DESTROYED | PVA_OTHER

fun createChannelConnectionState :: "pva_state \<Rightarrow> ChannelConnectionState" where
  "createChannelConnectionState PVA_NEVER_CONNECTED = NEVER_CONNECTED"
| "createChannelConnectionState PVA_CONNECTED = CONNECTED"
| "createChannelConnectionState PVA_DISCONNECTED = DISCONNECTED"
| "createChannelConnectionState PVA_DESTROYED = DESTROYED"
| "createChannelConnectionState PVA_OTHER = UNKNOWN"

text \<open>
  The constructor, with whether it was given a client. What the requester is told about a new channel: on
  success nothing, otherwise the two warnings that are written to the log, its own and the one of the
  client's \<open>handleChannelRequesterError\<close>. The text of the status is made by the library.
\<close>

definition new_ChannelRequester :: "bool \<Rightarrow> unit res" where
  "new_ChannelRequester given =
     (if \<not> given then Inl (Throw (RuntimeError (''ChannelRequester::ChannelRequester(''
        @ ''EpicsClientInterface *EpicsClient) called with '' @ ''EpicsClient == nullptr'')))
      else Inr ())"

definition getRequesterName :: string where
  "getRequesterName = ''ChannelRequester''"

definition requester_message :: "string \<Rightarrow> string \<Rightarrow> string" where
  "requester_message Message MessageType =
     ''Message for: '' @ getRequesterName @ ''  msg: '' @ Message @ ''  msgtype: '' @ MessageType"

definition handleChannelRequesterError :: "string \<Rightarrow> string" where
  "handleChannelRequesterError Message = ''EpicsClientMonitor received: '' @ Message"

record pva_status =
  isOK :: bool
  isSuccess :: bool
  StatusText :: string

definition bool_text :: "bool \<Rightarrow> string" where
  "bool_text b = (if b then ''true'' else ''false'')"

definition channelCreated :: "pva_status \<Rightarrow> string option \<Rightarrow> string list" where
  "channelCreated Status Channel =
     (if \<not> isOK Status \<or> \<not> isSuccess Status
      then (let ChannelName = (case Channel of None \<Rightarrow> [] | Some n \<Rightarrow> n);
                Message = ''ChannelRequester::channelCreated:  isOK: '' @ bool_text (isOK Status) @ ''  isSuccess: ''
                  @ bool_text (isSuccess Status) @ ''  ChannelName: '' @ ChannelName @ ''  Message: '' @ StatusText Status in
            [Message, handleChannelRequesterError Message])
      else [])"

text \<open>
  \<open>channelStateChange\<close>: the arguments of the log line are evaluated first, and one of them calls
  \<open>Channel->printInfo\<close>, before the test for a null channel (\<open>given\<close> is false).
\<close>

definition channelStateChange ::
  "pvaccess \<Rightarrow> 'k rdkafka \<Rightarrow> (EpicsConnectionInfo \<Rightarrow> u8 list) \<Rightarrow> u64 \<Rightarrow> bool \<Rightarrow> pva_state \<Rightarrow>
   (('q, 'k) conn_env, unit) prog" where
  "channelStateChange P K ep00_bytes now given EpicsConnectionState =
     thn (if given then ret () else fail Crash)
     (if \<not> given then ret ()
      else handleConnectionStateChange P K ep00_bytes now
             (createChannelConnectionState EpicsConnectionState))"

section \<open>Starting and stopping the EPICS factories\<close>

text \<open>\<open>EpicsClientFactoryInit\<close>: the reference count and whether the factories run.\<close>

record factories =
  Count :: int
  FactoriesRunning :: bool

definition factory_init :: "(factories, unit) prog" where
  "factory_init =
     bnd (get_st Count) (\<lambda>c.
     thn (upd_st (\<lambda>s. s\<lparr>Count := c + 1\<rparr>))
     (if c = 0 then upd_st (\<lambda>s. s\<lparr>FactoriesRunning := True\<rparr>) else ret ()))"

definition factory_release :: "(factories, unit) prog" where
  "factory_release =
     thn (upd_st (\<lambda>s. s\<lparr>Count := Count s - 1\<rparr>))
     (bnd (get_st Count) (\<lambda>c0.
      let c = (if c0 < 0 then 0 else c0) in
      if c = 0 then upd_st (\<lambda>s. s\<lparr>FactoriesRunning := False\<rparr>) else ret ()))"


section \<open>Batches of updates\<close>

definition refs_fresh :: "('q, 'm) EpicsClientBase_scheme \<Rightarrow> bool" where
  "refs_fresh c \<longleftrightarrow> (\<forall>r \<ge> NextUpdate c. Updates c r = None)"

lemma new_updates_run:
  assumes "refs_fresh c"
  shows "\<exists>c'. map_prog (\<lambda>ele. new_update (f ele)) eles c =
       (Inr [NextUpdate c..<NextUpdate c + length eles], c')
     \<and> refs_fresh c' \<and> c' = c\<lparr>Updates := Updates c', NextUpdate := NextUpdate c + length eles\<rparr>
     \<and> (\<forall>r < NextUpdate c. Updates c' r = Updates c r)
     \<and> (\<forall>j < length eles. Updates c' (NextUpdate c + j) = Some (f (eles ! j)))"
  using assms
proof (induction eles arbitrary: c)
  case Nil
  then show ?case by (simp add: prog_defs)
next
  case (Cons e eles)
  let ?c = "c\<lparr>Updates := (Updates c)(NextUpdate c \<mapsto> f e), NextUpdate := Suc (NextUpdate c)\<rparr>"
  have "refs_fresh ?c" using Cons.prems by (simp add: refs_fresh_def)
  then obtain c' where c': "map_prog (\<lambda>ele. new_update (f ele)) eles ?c =
       (Inr [Suc (NextUpdate c)..<Suc (NextUpdate c) + length eles], c')"
     "refs_fresh c'" "c' = ?c\<lparr>Updates := Updates c', NextUpdate := Suc (NextUpdate c) + length eles\<rparr>"
     "\<forall>r < Suc (NextUpdate c). Updates c' r = Updates ?c r"
     "\<forall>j < length eles. Updates c' (Suc (NextUpdate c) + j) = Some (f (eles ! j))"
    using Cons.IH [of ?c] by auto
  have "new_update (f e) c = (Inr (NextUpdate c), ?c)"
    by (simp add: new_update_def prog_defs)
  then have "map_prog (\<lambda>ele. new_update (f ele)) (e # eles) c =
      (Inr [NextUpdate c..<NextUpdate c + length (e # eles)], c')"
    using c'(1) by (simp add: prog_defs upt_conv_Cons del: upt_Suc)
  moreover have "\<forall>j < length (e # eles). Updates c' (NextUpdate c + j) = Some (f ((e # eles) ! j))"
  proof -
    have "Updates c' (NextUpdate c) = Some (f e)" using c'(4) by simp
    with c'(5) show ?thesis by (auto simp: less_Suc_eq_0_disj)
  qed
  moreover have "\<forall>r < NextUpdate c. Updates c' r = Updates c r" using c'(4) by auto
  moreover have "c' = c\<lparr>Updates := Updates c', NextUpdate := NextUpdate c + length (e # eles)\<rparr>"
    by (subst c'(3)) simp
  ultimately show ?case using c'(2) by blast
qed

definition pv_alarm_text :: "pvfield \<Rightarrow> string option" where
  "pv_alarm_text pv = Option.bind (Option.bind (getSubField ''alarm'' pv) as_structure)
     (\<lambda>alarm. Option.bind (getSubField ''message'' alarm) as_string)"

lemma getAlarmString_pv:
  "epics_pvstr u = Some pv \<Longrightarrow> pv_alarm_text pv = Some t \<Longrightarrow> getAlarmStringFromUpdate u = Inr t"
  by (auto simp: getAlarmStringFromUpdate_def pv_alarm_text_def bind_eq_Some_conv bind_res_Inr_iff)

lemma cache_ok_cong:
  "CachedUpdate c' = CachedUpdate c \<Longrightarrow> (\<And>r. CachedUpdate c = Some r \<Longrightarrow> Updates c' r = Updates c r) \<Longrightarrow>
   cached_text c' = cached_text c \<and> cache_ok c' = cache_ok c"
  by (auto simp: cache_ok_def cached_text_def alarm_text_def split: option.splits
      intro!: Option.bind_cong)

lemma monitor_emit_next [keeps]: "keeps_inv (\<lambda>c. NextUpdate c = n) (monitor_emit Q r)"
  unfolding monitor_emit_def mark_alarm_def get_update_def emitWithoutCaching_def queue_push_def
  by (auto intro!: keeps keeps_upd)

text \<open>A monitor event creates its updates and emits them; the client can take another event after it.\<close>

lemma monitorEvent_run:
  assumes "refs_fresh c" "cache_ok c" "\<forall>k. CachedUpdate c = Some k \<longrightarrow> k < NextUpdate c"
    and "list_all2 (\<lambda>e t. pv_alarm_text e = Some t) eles ts" "rs = [NextUpdate c..<NextUpdate c + length eles]"
  shows "\<exists>c1 c'. map_prog (\<lambda>ele. new_update \<lparr>epics_pvstr = Some ele, channel = ChannelName R,
                                    AlarmStatusChanged = False\<rparr>) eles c = (Inr rs, c1)
     \<and> for_each (monitor_emit Q) rs c1 = (Inr (), c')
     \<and> EmitQueue c1 = EmitQueue c \<and> (\<forall>r \<in> set rs. monitor_valid c1 r)
     \<and> map (Updates c') rs =
         map2 (\<lambda>e b. Some \<lparr>epics_pvstr = Some e, channel = ChannelName R, AlarmStatusChanged = b\<rparr>)
           eles (alarm_flags (cached_text c) ts)
     \<and> CachedUpdate c' = (if eles = [] then CachedUpdate c else Some (NextUpdate c + length eles - 1))
     \<and> cache_ok c' \<and> refs_fresh c' \<and> NextUpdate c' = NextUpdate c + length eles"
proof -
  let ?n = "NextUpdate c"
  let ?f = "\<lambda>e. \<lparr>epics_pvstr = Some e, channel = ChannelName R, AlarmStatusChanged = False\<rparr>"
  obtain c1 where run: "map_prog (\<lambda>ele. new_update (?f ele)) eles c = (Inr rs, c1)" "refs_fresh c1"
      and c1: "c1 = c\<lparr>Updates := Updates c1, NextUpdate := ?n + length eles\<rparr>"
      and old: "\<forall>r < ?n. Updates c1 r = Updates c r"
      and new: "\<forall>j < length eles. Updates c1 (?n + j) = Some (?f (eles ! j))"
    using new_updates_run [OF assms(1), of ?f eles] unfolding assms(5) by blast
  have same: "CachedUpdate c1 = CachedUpdate c" "EmitQueue c1 = EmitQueue c" "NextUpdate c1 = ?n + length eles"
    by (subst c1; simp)+
  have cache: "cached_text c1 = cached_text c" "cache_ok c1"
    using cache_ok_cong [OF same(1)] old assms(2,3) by auto
  have len: "length ts = length eles" using assms(4) by (simp add: list_all2_lengthD)
  have txt': "\<forall>j < length eles. alarm_text c1 (?n + j) = Some (ts ! j)"
    using new assms(4) by (auto simp: alarm_text_Some list_all2_conv_all_nth intro!: getAlarmString_pv)
  then have la: "list_all2 (\<lambda>r t. alarm_text c1 r = Some t) rs ts"
    by (simp add: list_all2_conv_all_nth len assms(5))
  have fl: "\<forall>r \<in> set rs. \<exists>u. Updates c1 r = Some u \<and> \<not> AlarmStatusChanged u"
    using new by (auto simp: le_iff_add assms(5))
  obtain c2 where c2: "for_each (monitor_emit Q) rs c1 = (Inr (), c2)"
     "map (Updates c2) rs = map2 (\<lambda>r b. Some (the (Updates c1 r)\<lparr>AlarmStatusChanged := b\<rparr>)) rs
        (alarm_flags (cached_text c) ts)"
     "\<forall>r. r \<notin> set rs \<longrightarrow> Updates c2 r = Updates c1 r"
     "cache_ok c2" "CachedUpdate c2 = (if rs = [] then CachedUpdate c1 else Some (last rs))"
    using monitor_emit_flags [OF _ cache(2) la fl, of Q] cache(1) assms(5) by auto
  have "\<forall>r \<in> set rs. monitor_valid c1 r"
    using txt' cache(2) by (auto simp: monitor_valid_def le_iff_add assms(5))
  moreover have "map (Updates c2) rs =
      map2 (\<lambda>e b. Some \<lparr>epics_pvstr = Some e, channel = ChannelName R, AlarmStatusChanged = b\<rparr>)
        eles (alarm_flags (cached_text c) ts)"
    unfolding c2(2) by (rule nth_equalityI) (use new len assms(5) in auto)
  moreover have "CachedUpdate c2 = (if eles = [] then CachedUpdate c else Some (?n + length eles - 1))"
    using c2(5) same(1) by (auto simp: last_upt assms(5))
  moreover have "keeps_inv (\<lambda>x. NextUpdate x = ?n + length eles) (for_each (monitor_emit Q) rs)" by (intro keeps)
  then have next2: "NextUpdate c2 = ?n + length eles" using same(3) c2(1) by (auto simp: keeps_inv_def)
  moreover note next2
  moreover have "refs_fresh c2" using run(2) c2(3) next2 same(3) by (auto simp: refs_fresh_def assms(5))
  ultimately show ?thesis using run(1) c2(1,4) same(2) by blast
qed

text \<open>C27: A monitor event emits one update per element, in order and with the channel's name, at
  the end of the queue. An update is flagged as an alarm change exactly when its alarm message differs
  from that of the update before it, across events (the first update of the client counts as a
  change), and the last one becomes the cached update.\<close>

theorem monitorEvent_emits:
  assumes "update_queue Q contents" "refs_fresh c" "cache_ok c"
    and "\<forall>k. CachedUpdate c = Some k \<longrightarrow> k < NextUpdate c"
    and "list_all2 (\<lambda>e t. pv_alarm_text e = Some t) eles ts"
  shows "\<exists>c'. monitorEvent Q R eles c = (Inr (), c')
     \<and> contents (EmitQueue c') = contents (EmitQueue c) @ map Some [NextUpdate c..<NextUpdate c + length eles]
     \<and> map (Updates c') [NextUpdate c..<NextUpdate c + length eles] =
         map2 (\<lambda>e b. Some \<lparr>epics_pvstr = Some e, channel = ChannelName R, AlarmStatusChanged = b\<rparr>)
           eles (alarm_flags (cached_text c) ts)
     \<and> (eles \<noteq> [] \<longrightarrow> CachedUpdate c' = Some (NextUpdate c + length eles - 1)) \<and> cache_ok c'"
proof -
  let ?rs = "[NextUpdate c..<NextUpdate c + length eles]"
  obtain c1 c' where c': "map_prog (\<lambda>ele. new_update \<lparr>epics_pvstr = Some ele, channel = ChannelName R,
                                    AlarmStatusChanged = False\<rparr>) eles c = (Inr ?rs, c1)"
     "for_each (monitor_emit Q) ?rs c1 = (Inr (), c')" "EmitQueue c1 = EmitQueue c" "\<forall>r \<in> set ?rs. monitor_valid c1 r"
     "map (Updates c') ?rs = map2 (\<lambda>e b. Some \<lparr>epics_pvstr = Some e, channel = ChannelName R, AlarmStatusChanged = b\<rparr>)
        eles (alarm_flags (cached_text c) ts)"
     "CachedUpdate c' = (if eles = [] then CachedUpdate c else Some (NextUpdate c + length eles - 1))" "cache_ok c'"
    using monitorEvent_run [OF assms(2-5) refl, of R Q] by blast
  have "contents (EmitQueue c') = contents (EmitQueue c) @ map Some ?rs"
    using update_queue.monitor_emit_batch [OF assms(1) c'(4)] c'(2,3) by auto
  with c' show ?thesis by (auto simp: monitorEvent_def prog_defs)
qed

lemma monitorEvent_emits_witness:
  "\<exists>c'. monitorEvent growing_queue \<lparr>ChannelName = ''pv'', RequesterName = ''r''\<rparr>
      [PVStructure [] [(''alarm'', PVStructure [] [(''message'', PVScalar (SString ''a''))])],
       PVStructure [] [(''alarm'', PVStructure [] [(''message'', PVScalar (SString ''a''))])]]
      \<lparr>EmitQueue = [], Updates = Map.empty, NextUpdate = 0, client_status = 0, CachedUpdate = None\<rparr>
      = (Inr (), c')
    \<and> EmitQueue c' = [Some 0, Some 1] \<and> CachedUpdate c' = Some 1
    \<and> map (\<lambda>r. AlarmStatusChanged (the (Updates c' r))) [0, 1] = [True, False]"
proof -
  let ?e = "PVStructure [] [(''alarm'', PVStructure [] [(''message'', PVScalar (SString ''a''))])]"
  let ?c = "\<lparr>EmitQueue = [] :: nat option list, Updates = Map.empty, NextUpdate = 0, client_status = 0, CachedUpdate = None\<rparr>"
  have "refs_fresh ?c" "cache_ok ?c" "cached_text ?c = None"
    by (simp_all add: refs_fresh_def cache_ok_def cached_text_def)
  then show ?thesis
    using monitorEvent_emits [OF gu.update_queue_axioms, of ?c "[?e, ?e]" "[''a'', ''a'']"
        "\<lparr>ChannelName = ''pv'', RequesterName = ''r''\<rparr>"]
    by (auto simp: pv_alarm_text_def upt_conv_Cons)
qed


section \<open>The life of a monitor\<close>

text \<open>
  The steps of a client: its channel changes state, an event arrives, a timer republishes the cached
  value, an error is reported, the client is stopped.
\<close>

inductive client_step ::
  "pvaccess \<Rightarrow> 'k rdkafka \<Rightarrow> (EpicsConnectionInfo \<Rightarrow> u8 list) \<Rightarrow> ('q, nat option) queue_ops \<Rightarrow>
   ('q, 'k) conn_env \<Rightarrow> ('q, 'k) conn_env \<Rightarrow> bool"
  for P K B Q where
  state_change: "snd (channelStateChange P K B now True S e) = e' \<Longrightarrow> client_step P K B Q e e'"
| event: "snd (on_mon (monitorEvent Q R eles) e) = e' \<Longrightarrow> client_step P K B Q e e'"
| republish: "snd (on_mon (emitCachedValue Q) e) = e' \<Longrightarrow> client_step P K B Q e e'"
| connect: "snd (on_mon (monitorConnect st) e) = e' \<Longrightarrow> client_step P K B Q e e'"
| stop: "snd (on_mon impl_stop e) = e' \<Longrightarrow> client_step P K B Q e e'"
| destroyed: "snd (on_mon channelDestroyed e) = e' \<Longrightarrow> client_step P K B Q e e'"

inductive_cases client_stepE: "client_step P K B Q e e'"

text \<open>
  Exactly the monitor the client holds exists, and it exists only while the client has a channel
  that is connected.
\<close>

definition monitor_inv :: "'q EpicsClientMonitor \<Rightarrow> bool" where
  "monitor_inv c \<longleftrightarrow>
     ActiveMonitors c = (case monitor c of None \<Rightarrow> [] | Some i \<Rightarrow> [i])
     \<and> (monitor c \<noteq> None \<longrightarrow> has_channel c \<and> ConnectionState c = CONNECTED)"

lemma monitorEvent_keeps [keeps]: "keeps_inv monitor_inv (monitorEvent Q R eles)"
  unfolding monitorEvent_def new_update_def monitor_emit_def mark_alarm_def get_update_def
    emitWithoutCaching_def queue_push_def
  by (auto intro!: keeps keeps_upd simp: monitor_inv_def)

lemma emitCachedValue_keeps [keeps]: "keeps_inv monitor_inv (emitCachedValue Q)"
  unfolding emitCachedValue_def mark_alarm_def get_update_def emitWithoutCaching_def queue_push_def
  by (auto intro!: keeps keeps_upd simp: monitor_inv_def)

lemma monitorConnect_keeps [keeps]: "keeps_inv monitor_inv (monitorConnect st)"
  unfolding monitorConnect_def errorInEpics_def
  by (auto intro!: keeps keeps_upd simp: monitor_inv_def)

text \<open>Without the condition on the connection, which a state change breaks for a moment.\<close>

definition monitor_owned :: "'q EpicsClientMonitor \<Rightarrow> bool" where
  "monitor_owned c \<longleftrightarrow> ActiveMonitors c = (case monitor c of None \<Rightarrow> [] | Some i \<Rightarrow> [i])"

lemma monitoringStop_run:
  assumes "monitor_owned c"
  shows "monitoringStop c = (Inr 0, c\<lparr>monitor := None, monitor_requester := None, ActiveMonitors := []\<rparr>)"
  using assms
  by (auto simp: monitoringStop_def destroy_monitor_def monitor_owned_def prog_defs split: option.splits)

lemma impl_stop_run:
  assumes "monitor_owned c"
  shows "impl_stop c = (Inr 0, c\<lparr>monitor := None, has_channel := False, ActiveMonitors := []\<rparr>)"
  using assms
  by (auto simp: impl_stop_def destroy_monitor_def monitor_owned_def prog_defs split: option.splits)

lemma monitoringStart_run:
  assumes "monitor_owned c"
  shows "\<exists>x c' g'. monitoringStart P (c, g) = (Inr x, (c', g')) \<and> monitor_owned c'
     \<and> has_channel c' = has_channel c \<and> ConnectionState c' = ConnectionState c
     \<and> channel_name c' = channel_name c
     \<and> (if has_channel c then (monitor c' \<noteq> None) = pa_monitor P (channel_name c)
        else c' = c)"
proof (cases "has_channel c")
  case False
  with assms show ?thesis by (simp add: monitoringStart_def)
next
  case True
  with assms show ?thesis
    by (auto simp: monitoringStart_def monitoringStop_run [OF assms] new_FwdMonitorRequester_def
        prog_defs monitor_owned_def Let_def)
qed

lemma state_change_inv:
  assumes "monitor_inv (Mon e)"
  shows "monitor_inv (Mon (snd (handleConnectionStateChange P K B now S e)))"
proof -
  let ?c = "(Mon e)\<lparr>ConnectionState := S\<rparr>"
  have own: "monitor_owned ?c" using assms by (simp add: monitor_inv_def monitor_owned_def)
  show ?thesis
  proof (cases "S = CONNECTED")
    case True
    obtain x c' g' where c': "monitoringStart P (?c, GlobalIdCounter e) = (Inr x, (c', g'))"
        "monitor_owned c'" "has_channel c' = has_channel ?c" "ConnectionState c' = S"
        "if has_channel ?c then (monitor c' \<noteq> None) = pa_monitor P (channel_name ?c) else c' = ?c"
      using monitoringStart_run [OF own, of P "GlobalIdCounter e"] by auto
    have "monitor_inv c'"
      using c' assms True by (auto simp: monitor_inv_def monitor_owned_def split: if_splits)
    with c'(1) True show ?thesis
      by (auto simp: handleConnectionStateChange_def on_mon_def on_mon_count_def prog_defs
          on_kafka_def split: option.split prod.split sum.split)
  next
    case False
    have "monitoringStop ?c = (Inr 0, ?c\<lparr>monitor := None, monitor_requester := None, ActiveMonitors := []\<rparr>)"
      by (rule monitoringStop_run [OF own])
    with False show ?thesis
      by (auto simp: handleConnectionStateChange_def on_mon_def on_kafka_def prog_defs monitor_inv_def
          split: option.split prod.split sum.split)
  qed
qed

lemma on_mon_inv: "keeps_inv monitor_inv m \<Longrightarrow> monitor_inv (Mon e) \<Longrightarrow> monitor_inv (Mon (snd (on_mon m e)))"
  by (auto simp: on_mon_def dest: keeps_invD split: prod.split)

lemma client_step_inv:
  "client_step P K B Q e e' \<Longrightarrow> monitor_inv (Mon e) \<Longrightarrow> monitor_inv (Mon e')"
proof (induction rule: client_step.induct)
  case (state_change now S e e')
  then show ?case
    using state_change_inv by (auto simp: channelStateChange_def prog_defs)
next
  case (stop e e')
  then have "monitor_owned (Mon e)" by (simp add: monitor_inv_def monitor_owned_def)
  with stop show ?case by (auto simp: on_mon_def impl_stop_run monitor_inv_def)
next
  case (destroyed e e')
  then have "monitor_owned (Mon e)" by (simp add: monitor_inv_def monitor_owned_def)
  with destroyed show ?case
    by (auto simp: on_mon_def channelDestroyed_def thn_def bnd_def ret_def monitoringStop_run monitor_inv_def)
qed (auto intro: on_mon_inv keeps)




section \<open>The reference count of the factories\<close>

text \<open>A sequence of constructions (true) and destructions (false) of \<open>EpicsClientFactoryInit\<close>.\<close>

definition factory_op :: "bool \<Rightarrow> (factories, unit) prog" where
  "factory_op b = (if b then factory_init else factory_release)"

fun balance :: "int \<Rightarrow> bool list \<Rightarrow> bool" where
  "balance n [] \<longleftrightarrow> 0 \<le> n"
| "balance n (b # bs) \<longleftrightarrow> 0 \<le> n \<and> balance (if b then n + 1 else n - 1) bs"

lemma balance_nonneg: "balance n bs \<Longrightarrow> 0 \<le> n"
  by (cases bs) auto

text \<open>C28: The EPICS factories run exactly while a client exists: over every sequence of creations and
  destructions in which no object is destroyed before it was created, the factories are running if
  and only if more objects have been created than destroyed.\<close>

theorem factories_run_while_used:
  assumes "Count s = n" "FactoriesRunning s \<longleftrightarrow> 0 < n" "balance n bs"
  shows "\<exists>s'. for_each factory_op bs s = (Inr (), s')
     \<and> Count s' = n + int (count_list bs True) - int (count_list bs False)
     \<and> (FactoriesRunning s' \<longleftrightarrow> 0 < Count s')"
  using assms
proof (induction bs arbitrary: s n)
  case Nil
  then show ?case by (simp add: prog_defs)
next
  case (Cons b bs)
  let ?n = "if b then n + 1 else n - 1"
  have "0 \<le> n" "0 \<le> ?n" using Cons.prems(3) balance_nonneg [of ?n bs] by simp_all
  then have "factory_op b s = (Inr (), s\<lparr>Count := ?n, FactoriesRunning := 0 < ?n\<rparr>)"
    using Cons.prems(1,2)
    by (cases s) (auto simp: factory_op_def factory_init_def factory_release_def prog_defs)
  with Cons.IH [of "s\<lparr>Count := ?n, FactoriesRunning := 0 < ?n\<rparr>" ?n] Cons.prems(3) show ?case
    by (auto simp: run_thn split: if_splits)
qed

lemma factories_run_while_used_witness:
  "\<exists>s'. for_each factory_op [True, True, False] \<lparr>Count = 0, FactoriesRunning = False\<rparr> = (Inr (), s')
     \<and> Count s' = 1 \<and> FactoriesRunning s'"
  using factories_run_while_used [of "\<lparr>Count = 0, FactoriesRunning = False\<rparr>" 0 "[True, True, False]"]
  by auto

end
