(* ===== verification/Epics_Random.thy ===== *)
theory Epics_Random
  imports Epics_Client F142
begin

text \<open>
  \<open>EpicsClient/EpicsClientRandom.cpp\<close>: the client that makes up updates. Parameters: the random
  number and the clock (nanoseconds since the epoch, \<open>getCurrentTimestamp\<close>).
\<close>

record 'q EpicsClientRandom = "'q EpicsClientBase" +
  ChannelInformation :: string

definition new_EpicsClientRandom :: "'q \<Rightarrow> string \<Rightarrow> 'q EpicsClientRandom" where
  "new_EpicsClientRandom RingBuffer name = \<lparr>EmitQueue = RingBuffer, Updates = Map.empty,
     NextUpdate = 0, client_status = 0, ChannelInformation = name\<rparr>"

definition random_emit ::
  "('q, nat option) queue_ops \<Rightarrow> nat \<Rightarrow> (('q, 'm) EpicsClientRandom_scheme, unit) prog" where
  "random_emit Q Update = queue_push Q Update"

definition random_stop :: "(('q, 'm) EpicsClientRandom_scheme, int) prog" where
  "random_stop = ret 0"

definition random_connection_state :: "('q, 'm) EpicsClientRandom_scheme \<Rightarrow> string" where
  "random_connection_state c = ''EpicsClientRandom''"

text \<open>The seconds and the rest of a time stamp, as they are stored in the two fields.\<close>

definition fake_seconds :: "u64 \<Rightarrow> u64" where
  "fake_seconds currentTimestamp = currentTimestamp div 1000000000"

definition fake_nanoseconds :: "u64 \<Rightarrow> u32" where
  "fake_nanoseconds currentTimestamp =
     ucast (currentTimestamp - fake_seconds currentTimestamp * 1000000000)"

definition createFakePVStructure :: "u64 \<Rightarrow> u64 \<Rightarrow> pvfield" where
  "createFakePVStructure currentTimestamp Value =
     PVStructure ''structure''
       [(''value'', PVScalar (SDouble Value)),
        (''timeStamp'', PVStructure ''structure''
           [(''secondsPastEpoch'', PVScalar (SLong (fake_seconds currentTimestamp))),
            (''nanoseconds'', PVScalar (SInt (fake_nanoseconds currentTimestamp)))]),
        (''alarm'', PVStructure ''structure'' [(''message'', PVScalar (SString ''NO_ALARM''))])]"

definition generateFakePVUpdate ::
  "('q, nat option) queue_ops \<Rightarrow> u64 \<Rightarrow> u64 \<Rightarrow> (('q, 'm) EpicsClientRandom_scheme, unit) prog" where
  "generateFakePVUpdate Q now random_value =
     bnd (get_st ChannelInformation) (\<lambda>name.
     bnd (new_update \<lparr>epics_pvstr = Some (createFakePVStructure now random_value), channel = name,
                     AlarmStatusChanged = False\<rparr>) (\<lambda>r.
     random_emit Q r))"

section \<open>The interface\<close>

sublocale update_queue \<subseteq> rnd:
  epics_client "random_emit Q" errorInEpics client_status contents "\<lambda>c r. True"
  by unfold_locales
     (simp_all add: random_emit_def queue_push_def errorInEpics_def prog_defs enqueue_contents)

section \<open>Time stamps\<close>

lemma fake_nanoseconds_unat: "unat (fake_nanoseconds t) = unat t mod 1000000000"
proof -
  have "t - fake_seconds t * 1000000000 = t mod 1000000000"
    unfolding fake_seconds_def by (metis minus_div_mult_eq_mod)
  then have "unat (fake_nanoseconds t) = unat (t mod 1000000000) mod 2 ^ 32"
    by (simp add: fake_nanoseconds_def unsigned_ucast_eq take_bit_eq_mod)
  also have "unat (t mod 1000000000) = unat t mod 1000000000"
    by (simp add: unat_mod_distrib)
  finally show ?thesis by simp
qed

lemma sint_small:
  assumes "unat (w::u32) < 2147483648" shows "sint w = int (unat w)"
proof -
  have "int (unat w) < 2147483648" using assms by (simp only: of_nat_less_numeral_iff)
  then have "uint w < 2 ^ 31" by simp
  moreover have "- (2 ^ 31) \<le> uint w" by (rule order_trans [of _ 0]) simp_all
  ultimately have "signed_take_bit 31 (uint w) = uint w" by (intro signed_take_bit_int_eq_self)
  then show ?thesis by (simp add: sint_uint)
qed

text \<open>A made-up update reads back as it was made: the time stamp that the f142 converter
  computes from the seconds and nanoseconds of a fake structure is the original clock value, for
  every 64 bit value of the clock, although the nanoseconds go through a signed 32 bit field.\<close>

theorem fake_timestamp_roundtrip:
  "timestamp_of (createFakePVStructure t v) = Some t"
proof -
  have n: "unat (fake_nanoseconds t) < 1000000000" by (simp add: fake_nanoseconds_unat)
  then have "sint (fake_nanoseconds t) = int (unat t mod 1000000000)"
    using sint_small [of "fake_nanoseconds t"] by (simp add: fake_nanoseconds_unat)
  then have "f142_timestamp (fake_seconds t) (fake_nanoseconds t) =
      t div 1000000000 * 1000000000 + of_nat (unat t mod 1000000000)"
    by (simp add: f142_timestamp_def fake_seconds_def)
  also have "of_nat (unat t mod 1000000000) = t mod 1000000000"
    by (simp add: word_arith_nat_mod)
  finally have "f142_timestamp (fake_seconds t) (fake_nanoseconds t) = t"
    by (simp add: div_mult_mod_eq)
  then show ?thesis by (simp add: timestamp_of_def createFakePVStructure_def)
qed

end
