(* ===== verification/Stream_Set.thy ===== *)
theory Stream_Set
  imports Converter Epics_Monitor Epics_Random
begin

text \<open>
  \<open>Stream.cpp\<close> (but for the filling of the workers' queues) and \<open>Streams.cpp\<close>: the streams, their
  clients and conversion paths, and the operations that add, inspect and remove them. A stream is one
  of the list and has an identity; clients, paths and converters are objects in stores, since they are
  shared. A stream's queue is the queue of its client.
\<close>

section \<open>Clients\<close>

datatype 'q EpicsClient = MonitorClient "'q EpicsClientMonitor" | RandomClient "'q EpicsClientRandom"

text \<open>The virtual functions of the interface.\<close>

fun client_stop :: "('q EpicsClient, int) prog" where
  "client_stop (MonitorClient c) = (case impl_stop c of (r, c') \<Rightarrow> (r, MonitorClient c'))"
| "client_stop (RandomClient c) = (case random_stop c of (r, c') \<Rightarrow> (r, RandomClient c'))"

fun client_error :: "('q EpicsClient, unit) prog" where
  "client_error (MonitorClient c) = (case errorInEpics c of (r, c') \<Rightarrow> (r, MonitorClient c'))"
| "client_error (RandomClient c) = (case errorInEpics c of (r, c') \<Rightarrow> (r, RandomClient c'))"

fun status_of :: "'q EpicsClient \<Rightarrow> int" where
  "status_of (MonitorClient c) = client_status c"
| "status_of (RandomClient c) = client_status c"

fun connection_of :: "'q EpicsClient \<Rightarrow> string" where
  "connection_of (MonitorClient c) = getConnectionState c"
| "connection_of (RandomClient c) = random_connection_state c"

fun queue_of :: "'q EpicsClient \<Rightarrow> 'q" where
  "queue_of (MonitorClient c) = EmitQueue c"
| "queue_of (RandomClient c) = EmitQueue c"

fun client_setServiceID :: "string \<Rightarrow> ('q EpicsClient, unit) prog" where
  "client_setServiceID n (MonitorClient c) = (case setServiceID n c of (r, c') \<Rightarrow> (r, MonitorClient c'))"
| "client_setServiceID n (RandomClient c) = (Inr (), RandomClient c)"

fun client_setProducer :: "ProducerTopic \<Rightarrow> ('q EpicsClient, unit) prog" where
  "client_setProducer t (MonitorClient c) = (case setProducer t c of (r, c') \<Rightarrow> (r, MonitorClient c'))"
| "client_setProducer t (RandomClient c) = (Inr (), RandomClient c)"

section \<open>Streams\<close>

record Stream =
  stream_id :: nat
  provider_type :: string
  stream_channel :: string
  ConversionPaths :: "nat list"
  Client :: "nat option"
  SeqDataEmitted :: "(u64 \<times> u64) list"

definition new_Stream :: "nat \<Rightarrow> string \<Rightarrow> string \<Rightarrow> nat option \<Rightarrow> Stream" where
  "new_Stream i provider name c = \<lparr>stream_id = i, provider_type = provider, stream_channel = name,
     ConversionPaths = [], Client = c, SeqDataEmitted = []\<rparr>"

record ('q, 'k) stream_store = "'k conv_store" +
  StreamList :: "Stream list"
  Clients :: "nat \<rightharpoonup> 'q EpicsClient"
  InTransit :: "nat \<Rightarrow> u32"
  NextObj :: nat

definition on_client ::
  "nat option \<Rightarrow> ('q EpicsClient, 'a) prog \<Rightarrow> (('q, 'k, 'z) stream_store_scheme, 'a) prog" where
  "on_client c m s = (case Option.bind c (Clients s) of
     None \<Rightarrow> (Inl Crash, s)
   | Some cl \<Rightarrow> (case m cl of (r, cl') \<Rightarrow> (r, s\<lparr>Clients := (Clients s)(the c \<mapsto> cl')\<rparr>)))"

definition stream_stop :: "Stream \<Rightarrow> (('q, 'k, 'z) stream_store_scheme, int) prog" where
  "stream_stop st =
     thn (if Client st \<noteq> None then thn (on_client (Client st) client_stop) (ret ()) else ret ()) (ret 0)"

definition setEpicsError :: "Stream \<Rightarrow> (('q, 'k, 'z) stream_store_scheme, unit) prog" where
  "setEpicsError st = on_client (Client st) client_error"

definition stream_status :: "Stream \<Rightarrow> (('q, 'k, 'z) stream_store_scheme, int) prog" where
  "stream_status st = on_client (Client st) (get_st status_of)"

definition getQueueSize ::
  "('q, nat option) queue_ops \<Rightarrow> ('q, 'k, 'z) stream_store_scheme \<Rightarrow> Stream \<Rightarrow> nat res" where
  "getQueueSize Q s st =
     bind_res (deref (Option.bind (Client st) (Clients s))) (\<lambda>c. Inr (size_approx Q (queue_of c)))"

text \<open>\<open>Document\<close> has its keys in order, as the json library keeps them.\<close>

definition getStatusJson ::
  "('q, nat option) queue_ops \<Rightarrow> ('q, 'k, 'z) stream_store_scheme \<Rightarrow> Stream \<Rightarrow> json res" where
  "getStatusJson Q s st =
     bind_res (deref (Option.bind (Client st) (Clients s))) (\<lambda>c.
     bind_res (getQueueSize Q s st) (\<lambda>n.
     bind_res (map_res (path_status_json s) (ConversionPaths st)) (\<lambda>cs.
     Inr (JObject ([(''channel_name'', JString (stream_channel st)), (''converters'', JArray cs)]
        @ (if SeqDataEmitted st = [] then []
           else [(''emitted_max'', JInt (uint (snd (last (SeqDataEmitted st)))))])
        @ [(''epics_connection_status'', JString (connection_of c)), (''queue_size'', JInt (int n))])))))"

text \<open>\<open>RangeSet::to_string\<close>; the set as the list of its pairs in order.\<close>

fun ranges_text :: "(u64 \<times> u64) list \<Rightarrow> nat \<Rightarrow> string" where
  "ranges_text [] i1 = ''''"
| "ranges_text ((a, b) # xs) i1 =
     (if i1 > 0 then '', '' else '''') @ ''['' @ dec (unat a) @ '', '' @ dec (unat b) @ '']''
     @ (if i1 + 1 > 100 then '' ...'' else ranges_text xs (i1 + 1))"

definition RangeSet_to_string :: "(u64 \<times> u64) list \<Rightarrow> string" where
  "RangeSet_to_string rs = ''['' @ ranges_text rs 0 @ '']''"

section \<open>Destruction\<close>

text \<open>
  The converter of a path is shared with other paths: it goes with the last of them. \<open>~ConversionPath\<close>
  returns when no packet of the path is in transit.
\<close>

definition uses_converter :: "('q, 'k, 'z) stream_store_scheme \<Rightarrow> nat \<Rightarrow> bool" where
  "uses_converter s i \<longleftrightarrow>
     list_ex (\<lambda>p. case Paths s p of None \<Rightarrow> False | Some P \<Rightarrow> path_converter P = i) [0..<NextObj s]"

definition delete_ConversionPath :: "nat \<Rightarrow> (('q, 'k, 'z) stream_store_scheme, unit) prog" where
  "delete_ConversionPath p =
     bnd (get_st (\<lambda>s. (InTransit s p, Paths s p))) (\<lambda>(t, P).
     if t \<noteq> 0 then fail Running
     else bnd (of_res (deref P)) (\<lambda>P.
          thn (upd_st (\<lambda>s. s\<lparr>Paths := (Paths s)(p := None)\<rparr>))
          (upd_st (\<lambda>s. if uses_converter s (path_converter P) then s
                       else s\<lparr>Converters := (Converters s)(path_converter P := None)\<rparr>))))"

definition delete_Stream :: "Stream \<Rightarrow> (('q, 'k, 'z) stream_store_scheme, unit) prog" where
  "delete_Stream st = thn (stream_stop st) (for_each delete_ConversionPath (ConversionPaths st))"

section \<open>The list of streams\<close>

definition stopChannel :: "string \<Rightarrow> (('q, 'k, 'z) stream_store_scheme, unit) prog" where
  "stopChannel name =
     bnd (get_st StreamList) (\<lambda>ss.
     thn (upd_st (\<lambda>s. s\<lparr>StreamList := filter (\<lambda>st. stream_channel st \<noteq> name) ss\<rparr>))
     (for_each delete_Stream (filter (\<lambda>st. stream_channel st = name) ss)))"

definition clearStreams :: "(('q, 'k, 'z) stream_store_scheme, unit) prog" where
  "clearStreams =
     bnd (get_st StreamList) (\<lambda>ss.
     if ss = [] then ret ()
     else thn (for_each (\<lambda>st. thn (stream_stop st) (ret ())) ss)
          (thn (upd_st (\<lambda>s. s\<lparr>StreamList := []\<rparr>)) (for_each delete_Stream ss)))"

text \<open>The predicate of \<open>remove_if\<close>, and the function.\<close>

definition in_error :: "Stream \<Rightarrow> (('q, 'k, 'z) stream_store_scheme, bool) prog" where
  "in_error st =
     bnd (stream_status st) (\<lambda>x.
     if x < 0 then thn (stream_stop st) (ret True) else ret False)"

definition checkStreamStatus :: "(('q, 'k, 'z) stream_store_scheme, unit) prog" where
  "checkStreamStatus =
     bnd (get_st StreamList) (\<lambda>ss.
     if ss = [] then ret ()
     else bnd (map_prog in_error ss) (\<lambda>bs.
          thn (upd_st (\<lambda>s. s\<lparr>StreamList := map fst (filter (\<lambda>x. \<not> snd x) (zip ss bs))\<rparr>))
          (for_each delete_Stream (map fst (filter snd (zip ss bs))))))"

definition getStreamStatuses ::
  "('q, nat option) queue_ops \<Rightarrow> ('q, 'k, 'z) stream_store_scheme \<Rightarrow> json res" where
  "getStreamStatuses Q s = bind_res (map_res (getStatusJson Q s) (StreamList s)) (\<lambda>js. Inr (JArray js))"

definition streams_add :: "Stream \<Rightarrow> (('q, 'k, 'z) stream_store_scheme, unit) prog" where
  "streams_add st = upd_st (\<lambda>s. s\<lparr>StreamList := StreamList s @ [st]\<rparr>)"

definition streams_back :: "('q, 'k, 'z) stream_store_scheme \<Rightarrow> Stream option" where
  "streams_back s = (if StreamList s = [] then None else Some (last (StreamList s)))"

definition streams_at :: "('q, 'k, 'z) stream_store_scheme \<Rightarrow> nat \<Rightarrow> Stream res" where
  "streams_at s i = (if i < length (StreamList s) then Inr (StreamList s ! i) else Inl (Throw OutOfRange))"

definition getStreamByChannelName :: "('q, 'k, 'z) stream_store_scheme \<Rightarrow> string \<Rightarrow> Stream option" where
  "getStreamByChannelName s name = find (\<lambda>st. stream_channel st = name) (StreamList s)"

section \<open>The invariant\<close>

text \<open>A path that can be used, and what it stands for: a topic and a schema.\<close>

definition path_ok :: "('q, 'k, 'z) stream_store_scheme \<Rightarrow> nat \<Rightarrow> bool" where
  "path_ok s p \<longleftrightarrow> p < NextObj s \<and> (\<exists>P. Paths s p = Some P
     \<and> Converters s (path_converter P) \<noteq> None \<and> Producers (KafkaSet s) (KafkaProducer (kafka_output P)) \<noteq> None)"

definition output_of :: "('q, 'k, 'z) stream_store_scheme \<Rightarrow> nat \<Rightarrow> (string \<times> string) option" where
  "output_of s p = Option.bind (Paths s p) (\<lambda>P.
     map_option (\<lambda>c. (Name (kafka_output P), schema c)) (Converters s (path_converter P)))"

definition stream_ok :: "('q, 'k, 'z) stream_store_scheme \<Rightarrow> Stream \<Rightarrow> bool" where
  "stream_ok s st \<longleftrightarrow> (\<exists>c. Client st = Some c \<and> Clients s c \<noteq> None)
     \<and> (\<forall>p \<in> set (ConversionPaths st). path_ok s p) \<and> distinct (map (output_of s) (ConversionPaths st))"

text \<open>
  One stream per channel, with a client of its own and paths of its own; no stream has two paths to
  the same topic with the same schema.
\<close>

definition streams_ok :: "('q, 'k, 'z) stream_store_scheme \<Rightarrow> bool" where
  "streams_ok s \<longleftrightarrow> (\<forall>st \<in> set (StreamList s). stream_ok s st)
     \<and> distinct (map stream_channel (StreamList s)) \<and> distinct (map stream_id (StreamList s))
     \<and> distinct (map Client (StreamList s)) \<and> distinct (concat (map ConversionPaths (StreamList s)))
     \<and> (\<forall>p P. Paths s p = Some P \<longrightarrow> p < NextObj s)"

text \<open>
  What an operation leaves alone that may only destroy the paths \<open>X\<close>, with the converters only they
  use, and work on the clients \<open>Y\<close>.
\<close>

definition frame ::
  "nat set \<Rightarrow> nat option set \<Rightarrow> ('q, 'k, 'z) stream_store_scheme \<Rightarrow> ('q, 'k, 'z) stream_store_scheme \<Rightarrow> bool" where
  "frame X Y s s' \<longleftrightarrow> StreamList s' = StreamList s \<and> NextObj s' = NextObj s \<and> InTransit s' = InTransit s
     \<and> KafkaSet s' = KafkaSet s \<and> (\<forall>c. Clients s c \<noteq> None \<longrightarrow> Clients s' c \<noteq> None)
     \<and> (\<forall>c. Some c \<notin> Y \<longrightarrow> Clients s' c = Clients s c)
     \<and> (\<forall>p P. Paths s' p = Some P \<longrightarrow> Paths s p = Some P)
     \<and> (\<forall>p. p \<notin> X \<longrightarrow> Paths s' p = Paths s p)
     \<and> (\<forall>p. Paths s' p \<noteq> None \<longrightarrow> path_ok s p \<longrightarrow> path_ok s' p \<and> output_of s' p = output_of s p)
     \<and> (\<forall>i. Converters s' i \<noteq> None \<longrightarrow> Converters s' i = Converters s i)
     \<and> (\<forall>c. Clients s' c \<noteq> None \<longrightarrow> Clients s c \<noteq> None)
     \<and> stream_store.more s' = stream_store.more s"

lemma frame_refl [simp]: "frame X Y s s"
  by (simp add: frame_def)

lemma frameD:
  assumes "frame X Y s s'"
  shows "StreamList s' = StreamList s" "NextObj s' = NextObj s" "InTransit s' = InTransit s"
    "KafkaSet s' = KafkaSet s" "\<And>c. Clients s c \<noteq> None \<Longrightarrow> Clients s' c \<noteq> None"
    "\<And>c. Some c \<notin> Y \<Longrightarrow> Clients s' c = Clients s c"
    "\<And>p P. Paths s' p = Some P \<Longrightarrow> Paths s p = Some P"
    "\<And>p. p \<notin> X \<Longrightarrow> Paths s' p = Paths s p"
    "\<And>p. Paths s' p \<noteq> None \<Longrightarrow> path_ok s p \<Longrightarrow> path_ok s' p \<and> output_of s' p = output_of s p"
    "\<And>i. Converters s' i \<noteq> None \<Longrightarrow> Converters s' i = Converters s i"
    "\<And>c. Clients s' c \<noteq> None \<Longrightarrow> Clients s c \<noteq> None"
    "stream_store.more s' = stream_store.more s"
  using assms unfolding frame_def by blast+

lemma frame_path:
  assumes "frame X Y s s'" "p \<notin> X" "path_ok s p"
  shows "path_ok s' p \<and> output_of s' p = output_of s p"
proof (rule frameD(9) [OF assms(1) _ assms(3)])
  show "Paths s' p \<noteq> None" using frameD(8) [OF assms(1,2)] assms(3) by (auto simp: path_ok_def)
qed

lemma frame_gone: "frame X Y s s' \<Longrightarrow> Paths s p = None \<Longrightarrow> Paths s' p = None"
  by (metis frameD(7) not_None_eq)

lemma stream_list_view [simp]:
  "path_ok (s\<lparr>StreamList := l\<rparr>) = path_ok s" "output_of (s\<lparr>StreamList := l\<rparr>) = output_of s"
  by (simp_all add: path_ok_def output_of_def fun_eq_iff)

lemma stream_ok_list [simp]: "stream_ok (s\<lparr>StreamList := l\<rparr>) = stream_ok s"
  by (simp add: stream_ok_def fun_eq_iff)

lemma frame_trans:
  assumes "frame X Y s s1" "frame X Y s1 s2" shows "frame X Y s s2"
proof -
  note a = frameD [OF assms(1)] and b = frameD [OF assms(2)]
  have "StreamList s2 = StreamList s" "NextObj s2 = NextObj s" "InTransit s2 = InTransit s"
      "KafkaSet s2 = KafkaSet s" "stream_store.more s2 = stream_store.more s"
    by (simp_all only: a(1-4,12) b(1-4,12))
  moreover have "\<And>c. Clients s c \<noteq> None \<Longrightarrow> Clients s2 c \<noteq> None" by (rule b(5) [OF a(5)])
  moreover have "\<And>c. Some c \<notin> Y \<Longrightarrow> Clients s2 c = Clients s c" by (metis a(6) b(6))
  moreover have "\<And>p P. Paths s2 p = Some P \<Longrightarrow> Paths s p = Some P" by (rule a(7) [OF b(7)])
  moreover have "\<And>p. p \<notin> X \<Longrightarrow> Paths s2 p = Paths s p" by (metis a(8) b(8))
  moreover have "path_ok s2 p \<and> output_of s2 p = output_of s p" if "Paths s2 p \<noteq> None" "path_ok s p" for p
  proof -
    have "Paths s1 p \<noteq> None" using that(1) b(7) by blast
    then show ?thesis using a(9) that(2) b(9) [OF that(1)] by simp
  qed
  moreover have "\<And>i. Converters s2 i \<noteq> None \<Longrightarrow> Converters s2 i = Converters s i" by (metis a(10) b(10))
  moreover have "\<And>c. Clients s2 c \<noteq> None \<Longrightarrow> Clients s c \<noteq> None" by (rule a(11) [OF b(11)])
  ultimately show ?thesis unfolding frame_def by blast
qed

lemma frame_mono: "frame X Y s s' \<Longrightarrow> X \<subseteq> X' \<Longrightarrow> Y \<subseteq> Y' \<Longrightarrow> frame X' Y' s s'"
  unfolding frame_def by (meson subset_iff)

lemma frame_keeps: "(\<And>s. frame X Y s (snd (m s))) \<Longrightarrow> keeps_inv (frame X Y s0) m"
  by (rule keeps_invI) (rule frame_trans)

lemma on_client_frame: "frame X {c} s (snd (on_client c m s))"
proof (cases "Option.bind c (Clients s)")
  case None
  then show ?thesis by (simp add: on_client_def)
next
  case (Some cl)
  then obtain i where c: "c = Some i" by (cases c) auto
  have "path_ok s' p = path_ok s p \<and> output_of s' p = output_of s p"
    if "s' = s\<lparr>Clients := (Clients s)(i \<mapsto> cl')\<rparr>" for s' cl' p
    using that by (simp add: path_ok_def output_of_def)
  with Some c show ?thesis by (auto simp: on_client_def frame_def split: prod.splits)
qed

lemma stream_stop_frame: "Client st \<in> Y \<Longrightarrow> keeps_inv (frame X Y s0) (stream_stop st)"
  unfolding stream_stop_def
  by (intro keeps keeps_if keeps_thn) (rule frame_keeps, rule frame_mono [OF on_client_frame], auto)

lemma uses_converter_iff:
  "uses_converter s i \<longleftrightarrow> (\<exists>p < NextObj s. \<exists>P. Paths s p = Some P \<and> path_converter P = i)"
  by (auto simp: uses_converter_def list_ex_iff split: option.splits)

text \<open>Destroying a path keeps the converters of the others.\<close>

lemma delete_ConversionPath_run:
  assumes "InTransit s p = 0" "Paths s p = Some P"
  shows "\<exists>s'. delete_ConversionPath p s = (Inr (), s') \<and> Paths s' = (Paths s)(p := None)
     \<and> s' = s\<lparr>Paths := (Paths s)(p := None), Converters := Converters s'\<rparr>
     \<and> (\<forall>i. (\<exists>q < NextObj s. q \<noteq> p \<and> (\<exists>R. Paths s q = Some R \<and> path_converter R = i)) \<longrightarrow>
           Converters s' i = Converters s i)
     \<and> (\<forall>i. Converters s' i \<noteq> None \<longrightarrow> Converters s' i = Converters s i)"
proof -
  let ?s = "s\<lparr>Paths := (Paths s)(p := None)\<rparr>"
  define s' where "s' = (if uses_converter ?s (path_converter P) then ?s
      else ?s\<lparr>Converters := (Converters s)(path_converter P := None)\<rparr>)"
  have run: "delete_ConversionPath p s = (Inr (), s')"
    using assms by (simp add: delete_ConversionPath_def prog_defs s'_def deref_def)
  have keep: "Converters s' i = Converters s i"
    if "q < NextObj s" "q \<noteq> p" "Paths s q = Some R" "path_converter R = i" for q R i
  proof -
    have "uses_converter ?s i" using that by (auto simp: uses_converter_iff)
    then show ?thesis by (auto simp: s'_def)
  qed
  have "Paths s' = (Paths s)(p := None)" "s' = s\<lparr>Paths := (Paths s)(p := None), Converters := Converters s'\<rparr>"
    by (simp_all add: s'_def)
  moreover have "\<forall>i. Converters s' i \<noteq> None \<longrightarrow> Converters s' i = Converters s i"
    by (auto simp: s'_def)
  ultimately show ?thesis using run keep by blast
qed

lemma delete_ConversionPath_frame: "frame {p} {} s (snd (delete_ConversionPath p s))"
proof (cases "InTransit s p = 0 \<and> Paths s p \<noteq> None")
  case True
  then obtain P where P: "InTransit s p = 0" "Paths s p = Some P" by blast
  obtain s' where run: "delete_ConversionPath p s = (Inr (), s')"
      and s': "Paths s' = (Paths s)(p := None)" "s' = s\<lparr>Paths := (Paths s)(p := None), Converters := Converters s'\<rparr>"
      and conv: "\<forall>i. (\<exists>q < NextObj s. q \<noteq> p \<and> (\<exists>R. Paths s q = Some R \<and> path_converter R = i)) \<longrightarrow>
           Converters s' i = Converters s i"
      and rest: "\<forall>i. Converters s' i \<noteq> None \<longrightarrow> Converters s' i = Converters s i"
    using delete_ConversionPath_run [OF P] by (elim exE conjE) (rule that)
  have eqs: "StreamList s' = StreamList s" "NextObj s' = NextObj s" "InTransit s' = InTransit s"
      "KafkaSet s' = KafkaSet s" "Clients s' = Clients s" "stream_store.more s' = stream_store.more s"
    by (subst s'(2), simp)+
  have "path_ok s' q \<and> output_of s' q = output_of s q" if q: "q \<noteq> p" "path_ok s q" for q
  proof -
    from q(2) obtain R where R: "q < NextObj s" "Paths s q = Some R" "Converters s (path_converter R) \<noteq> None"
        "Producers (KafkaSet s) (KafkaProducer (kafka_output R)) \<noteq> None"
      unfolding path_ok_def by blast
    then have "Converters s' (path_converter R) = Converters s (path_converter R)" using conv q(1) by blast
    with R q(1) show ?thesis by (simp add: path_ok_def output_of_def s'(1) eqs)
  qed
  then show ?thesis using s'(1) rest by (auto simp: frame_def run eqs split: if_splits)
next
  case False
  then have "snd (delete_ConversionPath p s) = s"
    by (auto simp: delete_ConversionPath_def prog_defs deref_def)
  then show ?thesis by simp
qed

lemma delete_paths_frame: "set ps \<subseteq> X \<Longrightarrow> keeps_inv (frame X Y s0) (for_each delete_ConversionPath ps)"
proof (induction ps)
  case (Cons p ps)
  have "keeps_inv (frame X Y s0) (delete_ConversionPath p)"
    using Cons.prems by (intro frame_keeps frame_mono [OF delete_ConversionPath_frame]) auto
  with Cons show ?case by (auto intro: keeps)
qed (simp add: keeps)

lemma delete_Stream_frame:
  "set (ConversionPaths st) \<subseteq> X \<Longrightarrow> Client st \<in> Y \<Longrightarrow> keeps_inv (frame X Y s0) (delete_Stream st)"
  unfolding delete_Stream_def by (rule keeps_thn [OF stream_stop_frame delete_paths_frame])

lemma delete_Streams_frame:
  "set (concat (map ConversionPaths ss)) \<subseteq> X \<Longrightarrow> Client ` set ss \<subseteq> Y \<Longrightarrow>
   keeps_inv (frame X Y s0) (for_each delete_Stream ss)"
proof (induction ss)
  case (Cons st ss)
  then have "keeps_inv (frame X Y s0) (delete_Stream st)" by (intro delete_Stream_frame) auto
  with Cons show ?case by (auto intro: keeps)
qed (simp add: keeps)

lemma distinct_concat_filter: "distinct (concat (map f xs)) \<Longrightarrow> distinct (concat (map f (filter P xs)))"
  by (induction xs) auto

lemma stream_ok_frame:
  assumes "stream_ok s st" "frame X Y s s'" "set (ConversionPaths st) \<inter> X = {}"
  shows "stream_ok s' st"
proof -
  note f = frameD [OF assms(2)]
  have p: "path_ok s' p \<and> output_of s' p = output_of s p" if "p \<in> set (ConversionPaths st)" for p
  proof (rule frame_path [OF assms(2)])
    show "p \<notin> X" using assms(3) that by blast
    show "path_ok s p" using assms(1) that unfolding stream_ok_def by blast
  qed
  have "map (output_of s') (ConversionPaths st) = map (output_of s) (ConversionPaths st)"
    using p by simp
  moreover have "distinct (map (output_of s) (ConversionPaths st))" using assms(1) by (simp add: stream_ok_def)
  moreover obtain c where "Client st = Some c" "Clients s c \<noteq> None"
    using assms(1) unfolding stream_ok_def by blast
  ultimately show ?thesis using p f(5) unfolding stream_ok_def by metis
qed

text \<open>Removing some of the streams and destroying their paths.\<close>

lemma streams_ok_removed:
  assumes "streams_ok s" "frame X Y (s\<lparr>StreamList := filter P (StreamList s)\<rparr>) s'"
    and "\<And>st. st \<in> set (StreamList s) \<Longrightarrow> P st \<Longrightarrow> set (ConversionPaths st) \<inter> X = {}"
  shows "streams_ok s'"
proof -
  let ?t = "s\<lparr>StreamList := filter P (StreamList s)\<rparr>"
  note f = frameD [OF assms(2)]
  have "stream_ok s' st" if st: "st \<in> set (StreamList s)" "P st" for st
  proof (rule stream_ok_frame [OF _ assms(2) assms(3) [OF st]])
    have "stream_ok s st" using assms(1) st(1) unfolding streams_ok_def by blast
    then show "stream_ok ?t st" by simp
  qed
  moreover have "\<forall>p P. Paths s' p = Some P \<longrightarrow> p < NextObj s'"
    using assms(1) f(2,7) unfolding streams_ok_def by fastforce
  moreover have "distinct (concat (map ConversionPaths (filter P (StreamList s))))"
    using assms(1) unfolding streams_ok_def by (blast intro: distinct_concat_filter)
  ultimately show ?thesis
    using assms(1) f(1) by (auto simp: streams_ok_def distinct_map_filter)
qed

text \<open>The paths of a stream in the list belong to no other.\<close>

lemma paths_disjoint:
  "distinct (concat (map ConversionPaths ss)) \<Longrightarrow> st \<in> set ss \<Longrightarrow> P st \<Longrightarrow>
   set (ConversionPaths st) \<inter> set (concat (map ConversionPaths (filter (\<lambda>x. \<not> P x) ss))) = {}"
  by (induction ss) auto

lemma delete_removed_ok:
  assumes "streams_ok s"
    and "frame (set (concat (map ConversionPaths (filter (\<lambda>x. \<not> P x) (StreamList s))))) Y
           (s\<lparr>StreamList := filter P (StreamList s)\<rparr>) s'"
  shows "streams_ok s'"
proof (rule streams_ok_removed [OF assms])
  fix st assume "st \<in> set (StreamList s)" "P st"
  then show "set (ConversionPaths st) \<inter> set (concat (map ConversionPaths (filter (\<lambda>x. \<not> P x) (StreamList s)))) = {}"
    using assms(1) by (intro paths_disjoint) (simp_all add: streams_ok_def)
qed

section \<open>Destruction returns\<close>

fun client_stopped :: "'q EpicsClient \<Rightarrow> bool" where
  "client_stopped (MonitorClient c) \<longleftrightarrow> monitor c = None \<and> \<not> has_channel c"
| "client_stopped (RandomClient c) \<longleftrightarrow> True"

lemma client_stop_stops: "\<exists>c'. client_stop c = (Inr 0, c') \<and> client_stopped c'"
proof (cases c)
  case (MonitorClient m)
  then show ?thesis
    by (cases "monitor m") (simp_all add: impl_stop_def destroy_monitor_def prog_defs)
next
  case (RandomClient r)
  then show ?thesis by (simp add: random_stop_def prog_defs)
qed

lemma stream_stop_run:
  assumes "Client st = Some c" "Clients s c \<noteq> None"
  shows "\<exists>s' cl. stream_stop st s = (Inr 0, s') \<and> Clients s' c = Some cl \<and> client_stopped cl"
proof -
  obtain cl where cl: "Clients s c = Some cl" using assms(2) by blast
  obtain cl' where "client_stop cl = (Inr 0, cl')" "client_stopped cl'" using client_stop_stops by blast
  with cl assms(1) show ?thesis by (simp add: stream_stop_def on_client_def prog_defs)
qed

lemma delete_paths_run:
  assumes "distinct ps" "\<forall>p \<in> set ps. path_ok s p \<and> InTransit s p = 0"
  shows "\<exists>s'. for_each delete_ConversionPath ps s = (Inr (), s') \<and> (\<forall>p \<in> set ps. Paths s' p = None)"
  using assms
proof (induction ps arbitrary: s)
  case Nil
  then show ?case by (simp add: prog_defs)
next
  case (Cons p ps)
  then have "InTransit s p = 0" "\<exists>P. Paths s p = Some P" by (auto simp: path_ok_def)
  then obtain s1 where s1: "delete_ConversionPath p s = (Inr (), s1)" "Paths s1 = (Paths s)(p := None)"
    using delete_ConversionPath_run [of s p] by blast
  have f: "frame {p} {} s s1" using delete_ConversionPath_frame [of p s] by (simp add: s1(1))
  have "\<forall>q \<in> set ps. path_ok s1 q \<and> InTransit s1 q = 0"
    using Cons.prems frameD(3) [OF f] frame_path [OF f] by (metis distinct.simps(2) list.set_intros(2) singletonD)
  then obtain s2 where s2: "for_each delete_ConversionPath ps s1 = (Inr (), s2)" "\<forall>p \<in> set ps. Paths s2 p = None"
    using Cons.IH [of s1] Cons.prems(1) by auto
  have "frame (set ps) {} s1 s2"
    using keeps_invD [OF delete_paths_frame [of ps "set ps" "{}" s1], of s1] s2(1) by simp
  then have "Paths s2 p = None" by (rule frame_gone) (simp add: s1(2))
  with s1(1) s2 show ?case by (auto simp: run_thn)
qed

lemma delete_Stream_run:
  assumes "stream_ok s st" "distinct (ConversionPaths st)" "\<forall>p \<in> set (ConversionPaths st). InTransit s p = 0"
  shows "\<exists>s'. delete_Stream st s = (Inr (), s') \<and> (\<forall>p \<in> set (ConversionPaths st). Paths s' p = None)
     \<and> (\<exists>c cl. Client st = Some c \<and> Clients s' c = Some cl \<and> client_stopped cl)"
proof -
  obtain c where c: "Client st = Some c" "Clients s c \<noteq> None"
    using assms(1) unfolding stream_ok_def by blast
  obtain s1 cl where s1: "stream_stop st s = (Inr 0, s1)" "Clients s1 c = Some cl" "client_stopped cl"
    using stream_stop_run [OF c] by blast
  have f1: "frame {} {Client st} s s1"
    using keeps_invD [OF stream_stop_frame [of st "{Client st}" "{}" s], of s] s1(1) by simp
  have "\<forall>p \<in> set (ConversionPaths st). path_ok s1 p \<and> InTransit s1 p = 0"
    using assms frameD(3) [OF f1] frame_path [OF f1] unfolding stream_ok_def by auto
  then obtain s2 where s2: "for_each delete_ConversionPath (ConversionPaths st) s1 = (Inr (), s2)"
      "\<forall>p \<in> set (ConversionPaths st). Paths s2 p = None"
    using delete_paths_run [OF assms(2)] by blast
  have "frame (set (ConversionPaths st)) {} s1 s2"
    using keeps_invD [OF delete_paths_frame [of "ConversionPaths st" "set (ConversionPaths st)" "{}" s1], of s1]
      s2(1) by simp
  then have "Clients s2 c = Clients s1 c" by (rule frameD(6)) simp
  with s1 s2 c show ?thesis by (auto simp: delete_Stream_def run_thn)
qed

lemma delete_Streams_run:
  assumes "\<forall>st \<in> set ss. stream_ok s st \<and> (\<forall>p \<in> set (ConversionPaths st). InTransit s p = 0)"
    and "distinct (concat (map ConversionPaths ss))" "distinct (map Client ss)"
  shows "\<exists>s'. for_each delete_Stream ss s = (Inr (), s')
     \<and> (\<forall>st \<in> set ss. (\<forall>p \<in> set (ConversionPaths st). Paths s' p = None)
          \<and> (\<exists>c cl. Client st = Some c \<and> Clients s' c = Some cl \<and> client_stopped cl))"
  using assms
proof (induction ss arbitrary: s)
  case Nil
  then show ?case by (simp add: prog_defs)
next
  case (Cons st ss)
  let ?X = "set (ConversionPaths st)" and ?Z = "set (concat (map ConversionPaths ss))"
  obtain s1 c cl where s1: "delete_Stream st s = (Inr (), s1)" "\<forall>p \<in> ?X. Paths s1 p = None"
      "Client st = Some c" "Clients s1 c = Some cl" "client_stopped cl"
    using delete_Stream_run [of s st] Cons.prems(1,2) by auto
  have f1: "frame ?X {Client st} s s1"
    using keeps_invD [OF delete_Stream_frame [of st ?X "{Client st}" s], of s] s1(1) by simp
  have "\<forall>x \<in> set ss. stream_ok s1 x \<and> (\<forall>p \<in> set (ConversionPaths x). InTransit s1 p = 0)"
  proof
    fix x assume x: "x \<in> set ss"
    then have "set (ConversionPaths x) \<inter> ?X = {}" using Cons.prems(2) by auto
    then have "stream_ok s1 x" using Cons.prems(1) x by (auto intro: stream_ok_frame [OF _ f1])
    then show "stream_ok s1 x \<and> (\<forall>p \<in> set (ConversionPaths x). InTransit s1 p = 0)"
      using Cons.prems(1) x frameD(3) [OF f1] by auto
  qed
  then obtain s2 where s2: "for_each delete_Stream ss s1 = (Inr (), s2)"
      "\<forall>st \<in> set ss. (\<forall>p \<in> set (ConversionPaths st). Paths s2 p = None)
          \<and> (\<exists>c cl. Client st = Some c \<and> Clients s2 c = Some cl \<and> client_stopped cl)"
    using Cons.IH [of s1] Cons.prems(2,3) by auto
  have f2: "frame ?Z (Client ` set ss) s1 s2"
    using keeps_invD [OF delete_Streams_frame [of ss ?Z "Client ` set ss" s1], of s1] s2(1) by simp
  have "Clients s2 c = Clients s1 c"
  proof (rule frameD(6) [OF f2])
    show "Some c \<notin> Client ` set ss" using Cons.prems(3) s1(3) by auto
  qed
  moreover have "\<forall>p \<in> ?X. Paths s2 p = None" using s1(2) frame_gone [OF f2] by blast
  ultimately show ?case using s1 s2 by (auto simp: run_thn)
qed

end
