(* ===== verification/Stream_Removal.thy ===== *)
theory Stream_Removal
  imports Stream_Set
begin

text \<open>
  What stopping a channel, clearing the list and checking the clients do: each stops clients, takes
  streams off the list and destroys them. The invariant of the program's objects and the properties of
  the three operations.
\<close>

section \<open>Removing streams\<close>

lemma streams_ok_frame: "streams_ok s \<Longrightarrow> frame {} Y s s' \<Longrightarrow> streams_ok s'"
  using streams_ok_removed [of s "{}" Y "\<lambda>_. True" s'] by simp

lemma removed_ready:
  assumes "streams_ok s" "\<forall>st \<in> set (filter P (StreamList s)). \<forall>p \<in> set (ConversionPaths st). InTransit s p = 0"
  shows "\<exists>s'. for_each delete_Stream (filter P (StreamList s)) (s\<lparr>StreamList := l\<rparr>) = (Inr (), s')
     \<and> (\<forall>st \<in> set (filter P (StreamList s)). (\<forall>p \<in> set (ConversionPaths st). Paths s' p = None)
          \<and> (\<exists>c cl. Client st = Some c \<and> Clients s' c = Some cl \<and> client_stopped cl))"
proof (rule delete_Streams_run)
  show "\<forall>st \<in> set (filter P (StreamList s)). stream_ok (s\<lparr>StreamList := l\<rparr>) st
      \<and> (\<forall>p \<in> set (ConversionPaths st). InTransit (s\<lparr>StreamList := l\<rparr>) p = 0)"
    using assms unfolding streams_ok_def by auto
  show "distinct (concat (map ConversionPaths (filter P (StreamList s))))"
    using assms(1) unfolding streams_ok_def by (blast intro: distinct_concat_filter)
  show "distinct (map Client (filter P (StreamList s)))"
    using assms(1) unfolding streams_ok_def by (blast intro: distinct_map_filter)
qed

text \<open>
  The common shape of the three operations: clients of streams are worked on, then the streams that do
  not satisfy \<open>P\<close> leave the list and are destroyed.
\<close>

definition removes ::
  "(Stream \<Rightarrow> bool) \<Rightarrow> ('q, 'k, 'z) stream_store_scheme \<Rightarrow> (('q, 'k, 'z) stream_store_scheme, unit) prog \<Rightarrow> bool" where
  "removes P s m \<longleftrightarrow> (\<exists>s1. frame {} (Client ` set (StreamList s)) s s1
     \<and> m s = for_each delete_Stream (filter (\<lambda>x. \<not> P x) (StreamList s))
               (s1\<lparr>StreamList := filter P (StreamList s)\<rparr>))"

lemma frame_list:
  fixes s s' :: "('a, 'b, 'c) stream_store_scheme"
  assumes "frame X Y s s'" shows "frame X Y (s\<lparr>StreamList := l\<rparr>) (s'\<lparr>StreamList := l\<rparr>)"
proof -
  have fields: "NextObj (t\<lparr>StreamList := l\<rparr>) = NextObj t" "InTransit (t\<lparr>StreamList := l\<rparr>) = InTransit t"
      "KafkaSet (t\<lparr>StreamList := l\<rparr>) = KafkaSet t" "Clients (t\<lparr>StreamList := l\<rparr>) = Clients t"
      "Paths (t\<lparr>StreamList := l\<rparr>) = Paths t" "Converters (t\<lparr>StreamList := l\<rparr>) = Converters t"
      "stream_store.more (t\<lparr>StreamList := l\<rparr>) = stream_store.more t" "StreamList (t\<lparr>StreamList := l\<rparr>) = l"
    for t :: "('a, 'b, 'c) stream_store_scheme" by simp_all
  show ?thesis using assms unfolding frame_def stream_list_view fields by blast
qed

lemma removes_frame:
  assumes "removes P s m"
  shows "frame (set (concat (map ConversionPaths (filter (\<lambda>x. \<not> P x) (StreamList s)))))
     (Client ` set (StreamList s)) (s\<lparr>StreamList := filter P (StreamList s)\<rparr>) (snd (m s))"
proof -
  let ?l = "filter P (StreamList s)" and ?gone = "filter (\<lambda>x. \<not> P x) (StreamList s)"
  let ?X = "set (concat (map ConversionPaths ?gone))" and ?Y = "Client ` set (StreamList s)"
  obtain s1 where s1: "frame {} ?Y s s1" "m s = for_each delete_Stream ?gone (s1\<lparr>StreamList := ?l\<rparr>)"
    using assms unfolding removes_def by blast
  have "frame ?X ?Y (s\<lparr>StreamList := ?l\<rparr>) (s1\<lparr>StreamList := ?l\<rparr>)"
    by (rule frame_mono [OF frame_list [OF s1(1)]]) simp_all
  moreover have "keeps_inv (frame ?X ?Y (s\<lparr>StreamList := ?l\<rparr>)) (for_each delete_Stream ?gone)"
    by (rule delete_Streams_frame) auto
  ultimately show ?thesis unfolding s1(2) by (rule keeps_invD [rotated])
qed

lemma removes_ok: "removes P s m \<Longrightarrow> streams_ok s \<Longrightarrow> streams_ok (snd (m s))"
  by (rule delete_removed_ok [OF _ removes_frame])

lemma removes_run:
  assumes "streams_ok s" "removes P s m"
    and "\<forall>st \<in> set (StreamList s). \<not> P st \<longrightarrow> (\<forall>p \<in> set (ConversionPaths st). InTransit s p = 0)"
  shows "\<exists>s'. m s = (Inr (), s') \<and> streams_ok s' \<and> StreamList s' = filter P (StreamList s)
     \<and> (\<forall>st \<in> set (StreamList s). \<not> P st \<longrightarrow> (\<forall>p \<in> set (ConversionPaths st). Paths s' p = None)
          \<and> (\<exists>c cl. Client st = Some c \<and> Clients s' c = Some cl \<and> client_stopped cl))"
proof -
  obtain s1 where s1: "frame {} (Client ` set (StreamList s)) s s1"
      "m s = for_each delete_Stream (filter (\<lambda>x. \<not> P x) (StreamList s)) (s1\<lparr>StreamList := filter P (StreamList s)\<rparr>)"
    using assms(2) unfolding removes_def by blast
  note list = frameD(1) [OF s1(1)] and trans = frameD(3) [OF s1(1)]
  have ok: "streams_ok s1" by (rule streams_ok_frame [OF assms(1) s1(1)])
  have idle: "\<forall>st \<in> set (filter (\<lambda>x. \<not> P x) (StreamList s1)). \<forall>p \<in> set (ConversionPaths st). InTransit s1 p = 0"
    using assms(3) by (auto simp: list trans)
  obtain s' where s': "m s = (Inr (), s')"
      "\<forall>st \<in> set (filter (\<lambda>x. \<not> P x) (StreamList s)). (\<forall>p \<in> set (ConversionPaths st). Paths s' p = None)
          \<and> (\<exists>c cl. Client st = Some c \<and> Clients s' c = Some cl \<and> client_stopped cl)"
    using removed_ready [OF ok idle, of "filter P (StreamList s)"] unfolding s1(2) list by blast
  have "StreamList s' = filter P (StreamList s)"
    using frameD(1) [OF removes_frame [OF assms(2)]] by (simp add: s'(1))
  moreover have "streams_ok s'" using removes_ok [OF assms(2,1)] by (simp add: s'(1))
  ultimately show ?thesis using s' by auto
qed

section \<open>The invariant of all objects\<close>

text \<open>
  Every path in the store can be used, whether a stream has it or not; references below \<open>NextObj\<close> are
  taken; the producers are in order.
\<close>

definition store_ok :: "('k \<Rightarrow> nat multiset) \<Rightarrow> ('q, 'k, 'z) stream_store_scheme \<Rightarrow> bool" where
  "store_ok pending s \<longleftrightarrow> streams_ok s \<and> (\<forall>p P. Paths s p = Some P \<longrightarrow> path_ok s p)
     \<and> (\<forall>c. Clients s c \<noteq> None \<longrightarrow> c < NextObj s) \<and> (\<forall>i. Converters s i \<noteq> None \<longrightarrow> i < NextObj s)
     \<and> (\<forall>st \<in> set (StreamList s). stream_id st < NextObj s) \<and> instances_ok pending (KafkaSet s)"

lemma store_ok_frame_removed:
  assumes "store_ok pending s" "frame X Y (s\<lparr>StreamList := filter P (StreamList s)\<rparr>) s'" "streams_ok s'"
  shows "store_ok pending s'"
proof -
  note f = frameD [OF assms(2)]
  have "path_ok s' p" if "Paths s' p = Some P" for p P
  proof -
    have "path_ok s p" using f(7) [OF that] assms(1) by (simp add: store_ok_def)
    then show ?thesis using f(9) [of p] that by simp
  qed
  moreover have "c < NextObj s'" if "Clients s' c \<noteq> None" for c
    using f(2) f(11) [OF that] assms(1) by (simp add: store_ok_def)
  moreover have "i < NextObj s'" if "Converters s' i \<noteq> None" for i
    using f(2) f(10) [OF that] that assms(1) by (simp add: store_ok_def)
  moreover have "\<forall>st \<in> set (StreamList s'). stream_id st < NextObj s'"
    using f(1,2) assms(1) by (simp add: store_ok_def)
  moreover have "instances_ok pending (KafkaSet s')" using f(4) assms(1) by (simp add: store_ok_def)
  ultimately show ?thesis using assms(3) by (simp add: store_ok_def)
qed

lemma store_ok_frame: "store_ok pending s \<Longrightarrow> frame {} Y s s' \<Longrightarrow> store_ok pending s'"
  using store_ok_frame_removed [of pending s "{}" Y "\<lambda>_. True" s'] streams_ok_frame [of s Y s']
  by (simp add: store_ok_def)

lemma removes_store_ok: "removes P s m \<Longrightarrow> store_ok pending s \<Longrightarrow> store_ok pending (snd (m s))"
  by (rule store_ok_frame_removed [OF _ removes_frame removes_ok]) (simp_all add: store_ok_def)

section \<open>Stopping a channel\<close>

lemma stopChannel_removes: "removes (\<lambda>st. stream_channel st \<noteq> name) s (stopChannel name)"
  unfolding removes_def by (rule exI [of _ s]) (simp add: stopChannel_def prog_defs)

lemma stopChannel_frame:
  "frame (set (concat (map ConversionPaths (filter (\<lambda>st. stream_channel st = name) (StreamList s)))))
     (Client ` set (filter (\<lambda>st. stream_channel st = name) (StreamList s)))
     (s\<lparr>StreamList := filter (\<lambda>st. stream_channel st \<noteq> name) (StreamList s)\<rparr>) (snd (stopChannel name s))"
proof -
  have "stopChannel name s = for_each delete_Stream (filter (\<lambda>st. stream_channel st = name) (StreamList s))
     (s\<lparr>StreamList := filter (\<lambda>st. stream_channel st \<noteq> name) (StreamList s)\<rparr>)"
    by (simp add: stopChannel_def prog_defs)
  then show ?thesis by (simp only:) (rule keeps_invD [OF delete_Streams_frame]; simp)
qed

text \<open>
  C15: stopping a channel: when none of its packets is in transit, the call returns, exactly the stream
  of that channel leaves the list, the others keep their place, the client of the stream is stopped and
  its conversion paths are destroyed, and no client of another stream is touched. Whether it returns or
  waits, the invariant of the streams holds afterwards.
\<close>

theorem stopChannel_result:
  assumes "streams_ok s"
    and "\<forall>st \<in> set (StreamList s). stream_channel st = name \<longrightarrow> (\<forall>p \<in> set (ConversionPaths st). InTransit s p = 0)"
  shows "\<exists>s'. stopChannel name s = (Inr (), s') \<and> streams_ok s'
     \<and> StreamList s' = filter (\<lambda>st. stream_channel st \<noteq> name) (StreamList s)
     \<and> (\<forall>st \<in> set (StreamList s). stream_channel st = name \<longrightarrow>
          (\<forall>p \<in> set (ConversionPaths st). Paths s' p = None)
          \<and> (\<exists>c cl. Client st = Some c \<and> Clients s' c = Some cl \<and> client_stopped cl))
     \<and> (\<forall>c. (\<forall>st \<in> set (StreamList s). stream_channel st = name \<longrightarrow> Client st \<noteq> Some c) \<longrightarrow>
          Clients s' c = Clients s c)"
proof -
  let ?P = "\<lambda>st. stream_channel st \<noteq> name"
  have idle: "\<forall>st \<in> set (StreamList s). \<not> ?P st \<longrightarrow> (\<forall>p \<in> set (ConversionPaths st). InTransit s p = 0)"
    using assms(2) by simp
  obtain s' where s': "stopChannel name s = (Inr (), s')" "streams_ok s'" "StreamList s' = filter ?P (StreamList s)"
      "\<forall>st \<in> set (StreamList s). \<not> ?P st \<longrightarrow> (\<forall>p \<in> set (ConversionPaths st). Paths s' p = None)
          \<and> (\<exists>c cl. Client st = Some c \<and> Clients s' c = Some cl \<and> client_stopped cl)"
    using removes_run [OF assms(1) stopChannel_removes idle] by blast
  have "Clients s' c = Clients s c"
    if "\<forall>st \<in> set (StreamList s). stream_channel st = name \<longrightarrow> Client st \<noteq> Some c" for c
  proof -
    have "Some c \<notin> Client ` set (filter (\<lambda>st. stream_channel st = name) (StreamList s))" using that by auto
    from frameD(6) [OF stopChannel_frame this] show ?thesis by (simp add: s'(1))
  qed
  with s' show ?thesis by simp
qed

section \<open>Clearing the list\<close>

lemma stop_streams_frame:
  "Client ` set ss \<subseteq> Y \<Longrightarrow> keeps_inv (frame X Y s0) (for_each (\<lambda>st. thn (stream_stop st) (ret ())) ss)"
proof (induction ss)
  case (Cons st ss)
  then have "keeps_inv (frame X Y s0) (stream_stop st)" by (intro stream_stop_frame) auto
  with Cons show ?case by (auto intro!: keeps)
qed (simp add: keeps)

lemma stop_streams_run:
  "\<forall>st \<in> set ss. stream_ok s st \<Longrightarrow>
   \<exists>s'. for_each (\<lambda>st. thn (stream_stop st) (ret ())) ss s = (Inr (), s')"
proof (induction ss arbitrary: s)
  case Nil
  then show ?case by (simp add: prog_defs)
next
  case (Cons st ss)
  then obtain c where "Client st = Some c" "Clients s c \<noteq> None" unfolding stream_ok_def by auto
  then obtain s1 where s1: "stream_stop st s = (Inr 0, s1)" using stream_stop_run by blast
  have f: "frame {} {Client st} s s1"
    using keeps_invD [OF stream_stop_frame [of st "{Client st}" "{}" s], of s] s1 by simp
  have "\<forall>x \<in> set ss. stream_ok s1 x" using Cons.prems stream_ok_frame [OF _ f] by auto
  from Cons.IH [OF this] s1 show ?case by (auto simp: run_thn run_prog)
qed

lemma clearStreams_removes: "streams_ok s \<Longrightarrow> removes (\<lambda>_. False) s clearStreams"
proof (cases "StreamList s = []")
  case True
  moreover have "s = s\<lparr>StreamList := []\<rparr>" using True by simp
  ultimately show ?thesis
    unfolding removes_def by (intro exI [of _ s]) (simp add: clearStreams_def prog_defs)
next
  case False
  let ?ss = "StreamList s"
  assume "streams_ok s"
  then have "\<forall>st \<in> set ?ss. stream_ok s st" unfolding streams_ok_def by blast
  then obtain s1 where s1: "for_each (\<lambda>st. thn (stream_stop st) (ret ())) ?ss s = (Inr (), s1)"
    using stop_streams_run by blast
  have "frame {} (Client ` set ?ss) s s1"
    using keeps_invD [OF stop_streams_frame [of ?ss "Client ` set ?ss" "{}" s], of s] s1 by simp
  with False s1 show ?thesis
    unfolding removes_def by (intro exI [of _ s1]) (simp add: clearStreams_def prog_defs)
qed

section \<open>Checking the clients\<close>

text \<open>What \<open>status\<close> says of a stream.\<close>

definition stream_failed :: "('q, 'k, 'z) stream_store_scheme \<Rightarrow> Stream \<Rightarrow> bool" where
  "stream_failed s st \<longleftrightarrow> (\<exists>cl. Option.bind (Client st) (Clients s) = Some cl \<and> status_of cl < 0)"

lemma in_error_run:
  assumes "stream_ok s st"
  shows "\<exists>s'. in_error st s = (Inr (stream_failed s st), s') \<and> frame {} {Client st} s s'"
proof -
  obtain c cl where c: "Client st = Some c" "Clients s c = Some cl"
    using assms unfolding stream_ok_def by blast
  have "(Clients s)(c \<mapsto> cl) = Clients s" using c(2) by (simp add: fun_eq_iff)
  then have status: "stream_status st s = (Inr (status_of cl), s)"
    using c by (simp add: stream_status_def on_client_def prog_defs)
  show ?thesis
  proof (cases "status_of cl < 0")
    case True
    obtain s1 where s1: "stream_stop st s = (Inr 0, s1)" using stream_stop_run [of st c s] c by auto
    have "frame {} {Client st} s s1"
      using keeps_invD [OF stream_stop_frame [of st "{Client st}" "{}" s], of s] s1 by simp
    with True s1 status c show ?thesis by (simp add: in_error_def stream_failed_def prog_defs)
  next
    case False
    with status c show ?thesis by (simp add: in_error_def stream_failed_def prog_defs)
  qed
qed

lemma map_in_error_run:
  assumes "\<forall>st \<in> set ss. stream_ok s st" "distinct (map Client ss)"
  shows "\<exists>s'. map_prog in_error ss s = (Inr (map (stream_failed s) ss), s') \<and> frame {} (Client ` set ss) s s'"
  using assms
proof (induction ss arbitrary: s)
  case Nil
  then show ?case by (simp add: prog_defs)
next
  case (Cons st ss)
  then obtain s1 where s1: "in_error st s = (Inr (stream_failed s st), s1)" "frame {} {Client st} s s1"
    using in_error_run by force
  have "\<forall>x \<in> set ss. stream_ok s1 x" using Cons.prems(1) stream_ok_frame [OF _ s1(2)] by auto
  then obtain s2 where s2: "map_prog in_error ss s1 = (Inr (map (stream_failed s1) ss), s2)"
      "frame {} (Client ` set ss) s1 s2"
    using Cons.IH [of s1] Cons.prems(2) by auto
  have "stream_failed s1 x = stream_failed s x" if "x \<in> set ss" for x
  proof (cases "Client x")
    case (Some c)
    have "Client st \<notin> Client ` set ss" using Cons.prems(2) by simp
    then have "Client x \<noteq> Client st" using that by (metis imageI)
    then have "Clients s1 c = Clients s c" using Some by (intro frameD(6) [OF s1(2)]) auto
    with Some show ?thesis by (simp add: stream_failed_def)
  qed (simp add: stream_failed_def)
  then have "map (stream_failed s1) ss = map (stream_failed s) ss" by simp
  moreover have "frame {} (Client ` set (st # ss)) s s2"
    by (rule frame_trans [OF frame_mono [OF s1(2)] frame_mono [OF s2(2)]]) auto
  ultimately show ?case using s1(1) s2(1) by (auto simp: run_bnd run_prog)
qed

lemma zip_map_filter:
  "map fst (filter snd (zip xs (map f xs))) = filter f xs"
  "map fst (filter (\<lambda>x. \<not> snd x) (zip xs (map f xs))) = filter (\<lambda>x. \<not> f x) xs"
  by (induction xs) auto

lemma checkStreamStatus_removes:
  assumes "streams_ok s" shows "removes (\<lambda>st. \<not> stream_failed s st) s checkStreamStatus"
proof (cases "StreamList s = []")
  case True
  moreover have "s = s\<lparr>StreamList := []\<rparr>" using True by simp
  ultimately show ?thesis
    unfolding removes_def by (intro exI [of _ s]) (simp add: checkStreamStatus_def prog_defs)
next
  case False
  have pre: "\<forall>st \<in> set (StreamList s). stream_ok s st" "distinct (map Client (StreamList s))"
    using assms unfolding streams_ok_def by blast+
  obtain s1 where s1: "map_prog in_error (StreamList s) s = (Inr (map (stream_failed s) (StreamList s)), s1)"
      "frame {} (Client ` set (StreamList s)) s s1"
    using map_in_error_run [OF pre] by blast
  with False show ?thesis
    unfolding removes_def
    by (intro exI [of _ s1]) (simp add: checkStreamStatus_def prog_defs zip_map_filter)
qed

text \<open>
  C16: the status check removes exactly the streams whose client has reported an error: their clients are
  stopped and their conversion paths destroyed, the others stay in the list in their order, and the
  invariant of the streams holds afterwards.
\<close>

theorem checkStreamStatus_result:
  assumes "streams_ok s"
    and "\<forall>st \<in> set (StreamList s). stream_failed s st \<longrightarrow> (\<forall>p \<in> set (ConversionPaths st). InTransit s p = 0)"
  shows "\<exists>s'. checkStreamStatus s = (Inr (), s') \<and> streams_ok s'
     \<and> StreamList s' = filter (\<lambda>st. \<not> stream_failed s st) (StreamList s)
     \<and> (\<forall>st \<in> set (StreamList s). stream_failed s st \<longrightarrow>
          (\<forall>p \<in> set (ConversionPaths st). Paths s' p = None)
          \<and> (\<exists>c cl. Client st = Some c \<and> Clients s' c = Some cl \<and> client_stopped cl))"
  using removes_run [OF assms(1) checkStreamStatus_removes [OF assms(1)]] assms(2) by simp

section \<open>Examples\<close>

text \<open>Two streams: the first has a path, the client of the second has failed.\<close>

definition example_streams :: "(nat option list, nat list) stream_store" where
  "example_streams = \<lparr>Paths = [0 \<mapsto> \<lparr>path_converter = 0, kafka_output = \<lparr>KafkaProducer = 0, Name = ''t''\<rparr>\<rparr>],
     Converters = [0 \<mapsto> \<lparr>schema = ''f142'', conv = createConverter F142Info\<rparr>],
     Globals = Globals one_path, KafkaSet = one_producer,
     StreamList = [(new_Stream 0 ''pva'' ''a'' (Some 0))\<lparr>ConversionPaths := [0]\<rparr>,
                   new_Stream 1 ''pva'' ''b'' (Some 1)],
     Clients = [0 \<mapsto> RandomClient (new_EpicsClientRandom [] ''a''),
                1 \<mapsto> RandomClient ((new_EpicsClientRandom [] ''b'')\<lparr>client_status := - 1\<rparr>)],
     InTransit = (\<lambda>p. 0), NextObj = 2\<rparr>"

lemma example_streams_ok: "streams_ok example_streams"
  by (simp add: streams_ok_def stream_ok_def path_ok_def example_streams_def new_Stream_def one_producer_def)

lemma stopChannel_result_witness:
  "\<exists>s'. stopChannel ''a'' example_streams = (Inr (), s') \<and> streams_ok s'
     \<and> map stream_channel (StreamList s') = [''b''] \<and> Paths s' 0 = None"
proof -
  have "\<forall>st \<in> set (StreamList example_streams). stream_channel st = ''a'' \<longrightarrow>
      (\<forall>p \<in> set (ConversionPaths st). InTransit example_streams p = 0)"
    by (simp add: example_streams_def)
  from stopChannel_result [OF example_streams_ok this] show ?thesis
    by (auto simp: example_streams_def new_Stream_def)
qed

lemma checkStreamStatus_result_witness:
  "\<exists>s'. checkStreamStatus example_streams = (Inr (), s') \<and> streams_ok s'
     \<and> map stream_channel (StreamList s') = [''a'']"
proof -
  have "\<forall>st \<in> set (StreamList example_streams). stream_failed example_streams st \<longrightarrow>
      (\<forall>p \<in> set (ConversionPaths st). InTransit example_streams p = 0)"
    by (simp add: example_streams_def)
  from checkStreamStatus_result [OF example_streams_ok this] show ?thesis
    by (auto simp: example_streams_def new_Stream_def stream_failed_def new_EpicsClientRandom_def)
qed

end
