(* ===== verification/Timer.thy ===== *)
theory Timer
  imports Fwd_Prelude
begin

text \<open>
  \<open>Timer.cpp\<close>: callbacks that a thread of its own runs at every period. The event loop of the asio
  library is reduced to what the code uses of it: a wait is pending or not (\<open>Armed\<close>), the handler of a
  pending wait runs once, when the period is over or when the wait is cancelled, and \<open>IO.run\<close> returns
  when no wait is pending.
\<close>

record 'c Timer =
  TimerRunning :: bool
  Callbacks :: "'c list"
  Armed :: bool
  TimerThread :: bool

definition new_Timer :: "'c Timer" where
  "new_Timer = \<lparr>TimerRunning = False, Callbacks = [], Armed = False, TimerThread = False\<rparr>"

definition addCallback :: "'c \<Rightarrow> 'c Timer \<Rightarrow> 'c Timer" where
  "addCallback Callback t = t\<lparr>Callbacks := Callbacks t @ [Callback]\<rparr>"

text \<open>The handler; \<open>run\<close> is what calling a callback does to the rest of the program.\<close>

definition executeCallbacks :: "('c \<Rightarrow> ('s, unit) prog) \<Rightarrow> ('c Timer \<times> 's, unit) prog" where
  "executeCallbacks run = (\<lambda>(t, s).
     if TimerRunning t
     then (case for_each run (Callbacks t) s of (r, s') \<Rightarrow> (r, (t\<lparr>Armed := (r = Inr ())\<rparr>, s')))
     else (Inr (), (t\<lparr>Armed := False\<rparr>, s)))"

definition timer_start :: "'c Timer \<Rightarrow> 'c Timer" where
  "timer_start t = t\<lparr>TimerRunning := True, Armed := True, TimerThread := True\<rparr>"

text \<open>
  \<open>waitForStop\<close>: the flag is cleared, the wait is cancelled, whose handler still runs, and the thread
  is joined; joining a thread that was not started throws \<open>std::system_error\<close>.
\<close>

definition waitForStop :: "('c \<Rightarrow> ('s, unit) prog) \<Rightarrow> ('c Timer \<times> 's, unit) prog" where
  "waitForStop run =
     thn (upd_st (\<lambda>(t, s). (t\<lparr>TimerRunning := False\<rparr>, s)))
     (bnd (get_st (\<lambda>(t, s). TimerThread t)) (\<lambda>joinable.
      if \<not> joinable then raise (RuntimeError ''Invalid argument'')
      else bnd (get_st (\<lambda>(t, s). Armed t)) (\<lambda>a.
           thn (if a then executeCallbacks run else ret ())
           (upd_st (\<lambda>(t, s). (t\<lparr>TimerThread := False\<rparr>, s))))))"

text \<open>What may happen to a timer: its wait ends, a callback is added, it is asked to stop.\<close>

inductive timer_step :: "('c \<Rightarrow> ('s, unit) prog) \<Rightarrow> 'c Timer \<times> 's \<Rightarrow> 'c Timer \<times> 's \<Rightarrow> bool" for run where
  fire: "Armed t \<Longrightarrow> executeCallbacks run (t, s) = (r, x) \<Longrightarrow> timer_step run (t, s) x"
| add: "timer_step run (t, s) (addCallback c t, s)"
| stop: "timer_step run (t, s) (t\<lparr>TimerRunning := False\<rparr>, s)"

inductive_cases timer_stepE: "timer_step run x y"

lemma stopped_step:
  "timer_step run x y \<Longrightarrow> \<not> TimerRunning (fst x) \<Longrightarrow> snd y = snd x \<and> \<not> TimerRunning (fst y)"
  by (erule timer_stepE) (auto simp: executeCallbacks_def addCallback_def)

lemma stopped_steps:
  "(timer_step run)\<^sup>*\<^sup>* x y \<Longrightarrow> \<not> TimerRunning (fst x) \<Longrightarrow> snd y = snd x \<and> \<not> TimerRunning (fst y)"
proof (induction rule: rtranclp_induct)
  case (step y z)
  then show ?case using stopped_step [of run y z] by auto
qed simp

lemma waitForStop_run:
  "TimerThread t \<Longrightarrow>
   waitForStop run (t, s) = (Inr (), (t\<lparr>TimerRunning := False, Armed := False, TimerThread := False\<rparr>, s))"
  by (cases "Armed t") (simp_all add: waitForStop_def executeCallbacks_def prog_defs)

text \<open>
  C29: stopping a timer that was started returns, with the thread gone and no wait pending, and without a
  callback being run; whatever happens to the timer afterwards, no callback runs again. While the timer
  runs, the end of a wait runs every callback in the order they were added.
\<close>

theorem timer_stops:
  assumes "TimerThread t"
  shows "\<exists>t'. waitForStop run (t, s) = (Inr (), (t', s)) \<and> \<not> Armed t' \<and> \<not> TimerThread t'
     \<and> (\<forall>y. (timer_step run)\<^sup>*\<^sup>* (t', s) y \<longrightarrow> snd y = s)
     \<and> fst (snd (executeCallbacks run (t\<lparr>TimerRunning := True\<rparr>, s))) =
         t\<lparr>TimerRunning := True, Armed := (fst (for_each run (Callbacks t) s) = Inr ())\<rparr>
     \<and> snd (snd (executeCallbacks run (t\<lparr>TimerRunning := True\<rparr>, s))) = snd (for_each run (Callbacks t) s)"
proof -
  let ?t = "t\<lparr>TimerRunning := False, Armed := False, TimerThread := False\<rparr>"
  have "snd y = s" if "(timer_step run)\<^sup>*\<^sup>* (?t, s) y" for y
    using stopped_steps [OF that] by simp
  then show ?thesis
    using waitForStop_run [OF assms, of run s]
    by (intro exI [of _ ?t]) (simp add: executeCallbacks_def split: prod.splits)
qed

lemma timer_stops_witness:
  "\<exists>t'. waitForStop (\<lambda>c. upd_st (\<lambda>n. n + c)) (timer_start (addCallback (1::nat) new_Timer), 5) = (Inr (), (t', 5))
     \<and> \<not> Armed t'"
  using timer_stops [of "timer_start (addCallback (1::nat) new_Timer)" "\<lambda>c. upd_st (\<lambda>n. n + c)" 5]
  by (auto simp: timer_start_def)

end
