(* ===== verification/Config_Parser.thy ===== *)
theory Config_Parser
  imports Uri Json_Access
begin

text \<open>
  \<open>ConfigParser.h\<close> and \<open>ConfigParser.cpp\<close>: the settings records, splitting a list of
  brokers at commas, reading the streams of a command or configuration document, and the
  kind of a command. The lemmas give each loop a closed form: \<open>split\<close> is the list of
  non-empty fields, and \<open>extractStreamInfo\<close> succeeds exactly on the documents whose
  streams are all well formed, with the settings listed in the order of the document.
\<close>

section \<open>Settings\<close>

datatype CommandType = Cmd_add | Cmd_stop_channel | Cmd_stop_all | Cmd_exit | Cmd_unknown

record ConverterSettings =
  Schema :: string
  ConverterTopic :: string
  ConverterName :: string

record StreamSettings =
  StreamName :: string
  EpicsProtocol :: string
  Converters :: "ConverterSettings list"

record ConfigSettings =
  BrokerConfig :: URI
  Brokers :: "URI list"
  ConversionThreads :: u64
  ConversionWorkerQueueSize :: u64
  MainPollInterval :: u32
  ServiceID :: string
  StatusReportURI :: URI
  KafkaConfiguration :: "string \<rightharpoonup> string"
  StreamsInfo :: "StreamSettings list"
  GlobalConverters :: "string \<rightharpoonup> (string \<rightharpoonup> string)"

definition ConfigSettings_default :: ConfigSettings where
  "ConfigSettings_default = \<lparr>
     BrokerConfig = \<lparr>HostPort = ''localhost:9092'', Port = 9092,
       Topic = ''forward_epics_to_kafka_commands''\<rparr>,
     Brokers = [], ConversionThreads = 1, ConversionWorkerQueueSize = 1024,
     MainPollInterval = 500, ServiceID = [], StatusReportURI = URI_default,
     KafkaConfiguration = Map.empty, StreamsInfo = [], GlobalConverters = Map.empty\<rparr>"

text \<open>The parser object: the document and the counter of generated converter names.\<close>

record ConfigParser =
  Json :: json
  ConverterIndex :: u32

definition new_ConfigParser :: "(string \<Rightarrow> json option) \<Rightarrow> string \<Rightarrow> ConfigParser res" where
  "new_ConfigParser json_parse RawJson = (case json_parse RawJson of
     None \<Rightarrow> Inl (Throw JsonParseError)
   | Some j \<Rightarrow> Inr \<lparr>Json = j, ConverterIndex = 0\<rparr>)"

section \<open>Splitting a broker list\<close>

text \<open>\<open>std::string::find(c, i)\<close>: the first position from \<open>i\<close> on, \<open>None\<close> for \<open>npos\<close>.\<close>

fun find_char :: "char \<Rightarrow> string \<Rightarrow> nat option" where
  "find_char c [] = None"
| "find_char c (x # s) = (if x = c then Some 0 else map_option Suc (find_char c s))"

definition find_from :: "char \<Rightarrow> string \<Rightarrow> nat \<Rightarrow> nat option" where
  "find_from c s i = map_option ((+) i) (find_char c (drop i s))"

lemma find_char_bound: "find_char c s = Some i \<Longrightarrow> i < length s"
  by (induction s arbitrary: i) (auto split: if_splits)

lemma find_from_bound: "find_from c s i = Some j \<Longrightarrow> i \<le> j \<and> j < length s"
  by (auto simp: find_from_def dest: find_char_bound)

function split_loop :: "string \<Rightarrow> nat \<Rightarrow> string list \<Rightarrow> nat \<times> string list" where
  "split_loop BrokersText i1 acc =
     (case find_from CHR '','' BrokersText i1 of
        None \<Rightarrow> (i1, acc)
      | Some i2 \<Rightarrow> split_loop BrokersText (i2 + 1)
          (if i2 > i1 then acc @ [take (i2 - i1) (drop i1 BrokersText)] else acc))"
  by pat_completeness auto
termination
  by (relation "measure (\<lambda>(s, i, _). Suc (length s) - i)") (auto dest!: find_from_bound)

declare split_loop.simps [simp del]

definition split :: "string \<Rightarrow> string list" where
  "split BrokersText = (case split_loop BrokersText 0 [] of (i1, acc) \<Rightarrow>
     if i1 \<noteq> length BrokersText then acc @ [drop i1 BrokersText] else acc)"

definition setBrokers :: "string \<Rightarrow> (ConfigSettings, unit) prog" where
  "setBrokers BrokersText =
     thn (upd_st (Brokers_update (\<lambda>_. [])))
         (for_each (\<lambda>x. bnd (of_res (new_URI x)) (\<lambda>u1. upd_st (Brokers_update (\<lambda>bs. bs @ [u1]))))
            (split BrokersText))"

section \<open>Streams and converters of a document\<close>

definition extractMappingInfo :: "json \<Rightarrow> (string \<times> string) res" where
  "extractMappingInfo Mapping =
     (if \<not> is_object Mapping
      then Inl (Throw (MappingAddException ''Given Mapping is not a JSON object''))
      else case find_string ''channel'' Mapping of
        None \<Rightarrow> Inl (Throw (MappingAddException ''Cannot find channel''))
      | Some Channel \<Rightarrow> Inr (Channel,
          (case find_string ''channel_provider_type'' Mapping of
             None \<Rightarrow> ''pva''
           | Some TempProtocol \<Rightarrow>
               (if TempProtocol = ''ca'' \<or> TempProtocol = ''pva'' then TempProtocol else ''pva''))))"

text \<open>\<open>fmt::format("converter_{}", n)\<close>.\<close>

definition generated_name :: "nat \<Rightarrow> string" where
  "generated_name n = ''converter_'' @ dec n"

lemma generated_name_inject [simp]: "generated_name m = generated_name n \<longleftrightarrow> m = n"
  by (simp add: generated_name_def)

definition extractConverterSettings :: "json \<Rightarrow> (ConfigParser, ConverterSettings) prog" where
  "extractConverterSettings Mapping =
     (case find_string ''schema'' Mapping of
        None \<Rightarrow> raise (MappingAddException ''Cannot find schema'')
      | Some schema \<Rightarrow>
     (case find_string ''topic'' Mapping of
        None \<Rightarrow> raise (MappingAddException ''Cannot find topic'')
      | Some topic \<Rightarrow>
     (case find_string ''name'' Mapping of
        Some name \<Rightarrow> ret \<lparr>Schema = schema, ConverterTopic = topic, ConverterName = name\<rparr>
      | None \<Rightarrow>
          bnd (get_st ConverterIndex) (\<lambda>i.
          thn (upd_st (ConverterIndex_update (\<lambda>n. n + 1)))
              (ret \<lparr>Schema = schema, ConverterTopic = topic,
                    ConverterName = generated_name (unat i)\<rparr>)))))"

definition extractStream :: "json \<Rightarrow> (ConfigParser, StreamSettings) prog" where
  "extractStream StreamJson =
     bnd (of_res (extractMappingInfo StreamJson)) (\<lambda>(name, protocol).
     bnd (case find_json ''converter'' StreamJson of
            None \<Rightarrow> ret []
          | Some x \<Rightarrow> (case x of
              JObject _ \<Rightarrow> map_prog extractConverterSettings [x]
            | JArray xs \<Rightarrow> map_prog extractConverterSettings xs
            | _ \<Rightarrow> ret []))
     (\<lambda>cs. ret \<lparr>StreamName = name, EpicsProtocol = protocol, Converters = cs\<rparr>))"

definition extractStreamInfo :: "(ConfigParser, ConfigSettings) prog" where
  "extractStreamInfo =
     bnd (get_st Json) (\<lambda>j.
     bnd (case find_json ''streams'' j of
            Some (JArray Streams) \<Rightarrow> map_prog extractStream Streams
          | _ \<Rightarrow> ret [])
     (\<lambda>ss. ret (ConfigSettings_default\<lparr>StreamsInfo := ss\<rparr>)))"

definition findCommand :: "json \<Rightarrow> CommandType" where
  "findCommand Document = (case find_string ''cmd'' Document of
     None \<Rightarrow> Cmd_unknown
   | Some c \<Rightarrow>
      (if c = ''add'' then Cmd_add
       else if c = ''stop_channel'' then Cmd_stop_channel
       else if c = ''stop_all'' then Cmd_stop_all
       else if c = ''exit'' then Cmd_exit
       else Cmd_unknown))"

section \<open>Splitting is the list of non-empty fields\<close>

fun fields :: "string \<Rightarrow> string list" where
  "fields [] = [[]]"
| "fields (x # s) = (if x = CHR '','' then [] # fields s
     else (case fields s of [] \<Rightarrow> [[x]] | f # fs \<Rightarrow> (x # f) # fs))"

lemma fields_no_comma: "find_char CHR '','' s = None \<Longrightarrow> fields s = [s]"
  by (induction s) (auto split: if_splits)

lemma fields_comma:
  "find_char CHR '','' s = Some i \<Longrightarrow> fields s = take i s # fields (drop (Suc i) s)"
  by (induction s arbitrary: i) (auto split: if_splits)

lemma split_loop_fields:
  "i1 \<le> length s \<Longrightarrow> (case split_loop s i1 acc of (i, r) \<Rightarrow>
     i \<le> length s \<and> r @ filter (\<lambda>f. f \<noteq> []) [drop i s] = acc @ filter (\<lambda>f. f \<noteq> []) (fields (drop i1 s)))"
proof (induction s i1 acc rule: split_loop.induct)
  case (1 s i1 acc)
  show ?case
  proof (cases "find_from CHR '','' s i1")
    case None
    then have "fields (drop i1 s) = [drop i1 s]"
      by (auto simp: find_from_def intro: fields_no_comma)
    with None "1.prems" show ?thesis by (subst split_loop.simps) simp
  next
    case (Some i2)
    then obtain k where k: "i2 = i1 + k" "find_char CHR '','' (drop i1 s) = Some k"
      by (auto simp: find_from_def)
    from fields_comma [OF k(2)]
    have f: "fields (drop i1 s) = take k (drop i1 s) # fields (drop (Suc i2) s)"
      using k(1) by (simp add: add.commute)
    from find_from_bound [OF Some] have "i2 < length s" by simp
    then have ne: "take k (drop i1 s) = [] \<longleftrightarrow> k = 0" using k(1) by auto
    have "split_loop s i1 acc = split_loop s (i2 + 1)
        (if i2 > i1 then acc @ [take (i2 - i1) (drop i1 s)] else acc)"
      by (subst split_loop.simps) (simp add: Some)
    with "1.IH" [OF Some] \<open>i2 < length s\<close> f ne k(1) show ?thesis
      by (auto split: prod.splits)
  qed
qed

text \<open>\<open>split\<close> of a broker list returns its comma-separated fields in order, without
  the empty ones, for every text: leading, trailing and repeated commas included.\<close>

theorem split_fields: "split s = filter (\<lambda>f. f \<noteq> []) (fields s)"
  using split_loop_fields [of 0 s "[]"] by (auto simp: split_def split: prod.splits if_splits)


section \<open>What a document's streams become\<close>

text \<open>The streams of a document, the converters of a stream, and when they are well formed.\<close>

definition stream_docs :: "json \<Rightarrow> json list" where
  "stream_docs j = (case find_json ''streams'' j of Some (JArray ss) \<Rightarrow> ss | _ \<Rightarrow> [])"

definition conv_docs :: "json \<Rightarrow> json list" where
  "conv_docs s = (case find_json ''converter'' s of
     Some (JObject kvs) \<Rightarrow> [JObject kvs] | Some (JArray cs) \<Rightarrow> cs | _ \<Rightarrow> [])"

definition conv_ok :: "json \<Rightarrow> bool" where
  "conv_ok c \<longleftrightarrow> find_string ''schema'' c \<noteq> None \<and> find_string ''topic'' c \<noteq> None"

definition stream_ok :: "json \<Rightarrow> bool" where
  "stream_ok s \<longleftrightarrow> is_object s \<and> find_string ''channel'' s \<noteq> None \<and> list_all conv_ok (conv_docs s)"

text \<open>The settings they stand for; \<open>i\<close> numbers the converters that have no name.\<close>

definition unnamed :: "json \<Rightarrow> bool" where
  "unnamed c \<longleftrightarrow> find_string ''name'' c = None"

definition conv_settings :: "u32 \<Rightarrow> json \<Rightarrow> ConverterSettings" where
  "conv_settings i c = \<lparr>Schema = the (find_string ''schema'' c),
     ConverterTopic = the (find_string ''topic'' c),
     ConverterName = (case find_string ''name'' c of
        None \<Rightarrow> generated_name (unat i) | Some n \<Rightarrow> n)\<rparr>"

fun number_convs :: "u32 \<Rightarrow> json list \<Rightarrow> ConverterSettings list" where
  "number_convs i [] = []"
| "number_convs i (c # cs) =
     conv_settings i c # number_convs (if unnamed c then i + 1 else i) cs"

definition index_after :: "u32 \<Rightarrow> json list \<Rightarrow> u32" where
  "index_after i cs = i + of_nat (length (filter unnamed cs))"

definition stream_protocol :: "json \<Rightarrow> string" where
  "stream_protocol s = (if find_string ''channel_provider_type'' s = Some ''ca'' then ''ca'' else ''pva'')"

fun number_streams :: "u32 \<Rightarrow> json list \<Rightarrow> StreamSettings list" where
  "number_streams i [] = []"
| "number_streams i (s # ss) =
     \<lparr>StreamName = the (find_string ''channel'' s), EpicsProtocol = stream_protocol s,
      Converters = number_convs i (conv_docs s)\<rparr> # number_streams (index_after i (conv_docs s)) ss"

definition all_conv_docs :: "json list \<Rightarrow> json list" where
  "all_conv_docs ss = concat (map conv_docs ss)"

lemma index_after_simps [simp]:
  "index_after i [] = i"
  "index_after i (c # cs) = index_after (if unnamed c then i + 1 else i) cs"
  "index_after i (cs @ ds) = index_after (index_after i cs) ds"
  by (simp_all add: index_after_def)

lemma number_convs_append:
  "number_convs i (cs @ ds) = number_convs i cs @ number_convs (index_after i cs) ds"
  by (induction cs arbitrary: i) auto

text \<open>Each loop of the parser, run on well-formed and on malformed input.\<close>

lemma extractConverterSettings_ok:
  "conv_ok c \<Longrightarrow> extractConverterSettings c P =
     (Inr (conv_settings (ConverterIndex P) c), P\<lparr>ConverterIndex := index_after (ConverterIndex P) [c]\<rparr>)"
  by (auto simp: extractConverterSettings_def conv_ok_def conv_settings_def unnamed_def prog_defs
        split: option.split)

lemma extractConverterSettings_bad:
  "\<not> conv_ok c \<Longrightarrow> \<exists>m. extractConverterSettings c P = (Inl (Throw (MappingAddException m)), P)"
  by (auto simp: extractConverterSettings_def conv_ok_def prog_defs split: option.split)

lemma extract_convs_ok:
  "list_all conv_ok cs \<Longrightarrow> map_prog extractConverterSettings cs P =
     (Inr (number_convs (ConverterIndex P) cs), P\<lparr>ConverterIndex := index_after (ConverterIndex P) cs\<rparr>)"
proof (induction cs arbitrary: P)
  case (Cons c cs)
  then show ?case by (simp add: extractConverterSettings_ok prog_simps)
qed (simp add: prog_simps)

lemma extract_convs_bad:
  "\<not> list_all conv_ok cs \<Longrightarrow>
     \<exists>m P'. map_prog extractConverterSettings cs P = (Inl (Throw (MappingAddException m)), P')"
proof (induction cs arbitrary: P)
  case (Cons c cs)
  show ?case
  proof (cases "conv_ok c")
    case True
    with Cons.IH [of "P\<lparr>ConverterIndex := index_after (ConverterIndex P) [c]\<rparr>"] Cons.prems
    show ?thesis by (auto simp: extractConverterSettings_ok prog_defs)
  next
    case False
    from extractConverterSettings_bad [OF this, of P] show ?thesis by (auto simp: prog_defs)
  qed
qed simp

lemma extractStream_eq:
  "extractStream s = bnd (of_res (extractMappingInfo s)) (\<lambda>(name, protocol).
     bnd (map_prog extractConverterSettings (conv_docs s))
       (\<lambda>cs. ret \<lparr>StreamName = name, EpicsProtocol = protocol, Converters = cs\<rparr>))"
  by (simp add: extractStream_def conv_docs_def split: option.split json.split)

lemma extractMappingInfo_ok:
  "is_object s \<Longrightarrow> find_string ''channel'' s = Some n \<Longrightarrow>
   extractMappingInfo s = Inr (n, stream_protocol s)"
  by (auto simp: extractMappingInfo_def stream_protocol_def split: option.split)

lemma extractStream_ok:
  "stream_ok s \<Longrightarrow> extractStream s P =
     (Inr \<lparr>StreamName = the (find_string ''channel'' s), EpicsProtocol = stream_protocol s,
        Converters = number_convs (ConverterIndex P) (conv_docs s)\<rparr>,
      P\<lparr>ConverterIndex := index_after (ConverterIndex P) (conv_docs s)\<rparr>)"
  by (auto simp: stream_ok_def extractStream_eq extractMappingInfo_ok extract_convs_ok prog_simps)

lemma extractStream_bad:
  assumes "\<not> stream_ok s"
  shows "\<exists>m P'. extractStream s P = (Inl (Throw (MappingAddException m)), P')"
proof (cases "extractMappingInfo s")
  case (Inl e)
  then have "\<exists>m. e = Throw (MappingAddException m)"
    by (auto simp: extractMappingInfo_def split: if_splits option.splits)
  with Inl show ?thesis by (auto simp: extractStream_eq prog_defs)
next
  case (Inr r)
  then have "is_object s" "find_string ''channel'' s \<noteq> None"
    by (auto simp: extractMappingInfo_def split: if_splits option.splits)
  with assms have "\<not> list_all conv_ok (conv_docs s)" by (simp add: stream_ok_def)
  from extract_convs_bad [OF this, of P] Inr show ?thesis
    by (cases r) (auto simp: extractStream_eq prog_defs)
qed

lemma extract_streams_ok:
  "list_all stream_ok ss \<Longrightarrow> map_prog extractStream ss P =
     (Inr (number_streams (ConverterIndex P) ss),
      P\<lparr>ConverterIndex := index_after (ConverterIndex P) (all_conv_docs ss)\<rparr>)"
proof (induction ss arbitrary: P)
  case (Cons s ss)
  then show ?case by (simp add: extractStream_ok prog_simps all_conv_docs_def)
qed (simp add: prog_simps all_conv_docs_def)

lemma extract_streams_bad:
  "\<not> list_all stream_ok ss \<Longrightarrow>
     \<exists>m P'. map_prog extractStream ss P = (Inl (Throw (MappingAddException m)), P')"
proof (induction ss arbitrary: P)
  case (Cons s ss)
  show ?case
  proof (cases "stream_ok s")
    case True
    with Cons.IH [of "P\<lparr>ConverterIndex := index_after (ConverterIndex P) (conv_docs s)\<rparr>"] Cons.prems
    show ?thesis by (auto simp: extractStream_ok prog_defs)
  next
    case False
    from extractStream_bad [OF this, of P] show ?thesis by (auto simp: prog_defs)
  qed
qed simp

lemma extractStreamInfo_eq:
  "extractStreamInfo P = bnd (map_prog extractStream (stream_docs (Json P)))
     (\<lambda>ss. ret (ConfigSettings_default\<lparr>StreamsInfo := ss\<rparr>)) P"
  by (simp add: extractStreamInfo_def stream_docs_def prog_defs split: option.split json.split)

text \<open>C31: \<open>extractStreamInfo\<close> either returns the default settings with one
  \<open>StreamSettings\<close> per stream of the document, in order, each with its channel, its protocol
  (\<open>ca\<close> only when asked for, else \<open>pva\<close>) and its converters, or, when any stream or
  converter is malformed, throws \<open>MappingAddException\<close> and returns no stream at all.\<close>

theorem extractStreamInfo_result:
  "case fst (extractStreamInfo P) of
     Inr S \<Rightarrow> list_all stream_ok (stream_docs (Json P)) \<and>
       S = ConfigSettings_default\<lparr>StreamsInfo := number_streams (ConverterIndex P) (stream_docs (Json P))\<rparr>
   | Inl e \<Rightarrow> \<not> list_all stream_ok (stream_docs (Json P)) \<and> (\<exists>m. e = Throw (MappingAddException m))"
proof (cases "list_all stream_ok (stream_docs (Json P))")
  case True
  then show ?thesis by (simp add: extractStreamInfo_eq extract_streams_ok prog_simps)
next
  case False
  with extract_streams_bad [OF False, of P] show ?thesis
    by (auto simp: extractStreamInfo_eq prog_defs)
qed

text \<open>The names that \<open>number_convs\<close> generates, in order.\<close>

definition generated_names :: "json list \<Rightarrow> ConverterSettings list \<Rightarrow> string list" where
  "generated_names cs xs = map (ConverterName \<circ> snd) (filter (unnamed \<circ> fst) (zip cs xs))"

lemma generated_names_number_convs:
  "i + length (filter unnamed cs) \<le> 2 ^ 32 \<Longrightarrow>
   generated_names cs (number_convs (of_nat i) cs)
     = map generated_name [i..<i + length (filter unnamed cs)]"
proof (induction cs arbitrary: i)
  case (Cons c cs)
  show ?case
  proof (cases "unnamed c")
    case True
    have "generated_names cs (number_convs (of_nat (Suc i)) cs)
        = map generated_name [Suc i..<Suc i + length (filter unnamed cs)]"
      using True Cons.prems by (intro Cons.IH) simp
    moreover have "unat (word_of_nat i :: u32) = i"
      using True Cons.prems by (simp add: unat_of_nat_small)
    moreover have "conv_settings (of_nat i) c = \<lparr>Schema = the (find_string ''schema'' c),
       ConverterTopic = the (find_string ''topic'' c), ConverterName = generated_name (unat (of_nat i :: u32))\<rparr>"
      using True by (simp add: conv_settings_def unnamed_def)
    moreover have "[i..<i + length (filter unnamed (c # cs))]
        = i # [Suc i..<Suc i + length (filter unnamed cs)]"
      using True upt_conv_Cons [of i "Suc i + length (filter unnamed cs)"] by (simp del: upt_Suc)
    ultimately show ?thesis
      using True by (simp add: generated_names_def add.commute del: upt_Suc)
  next
    case False
    with Cons show ?thesis by (simp add: generated_names_def)
  qed
qed (simp add: generated_names_def)

lemma number_streams_convs:
  "concat (map Converters (number_streams i ss)) = number_convs i (all_conv_docs ss)"
  by (induction ss arbitrary: i) (auto simp: all_conv_docs_def number_convs_append)

text \<open>Within one document read by a new parser, the converters without a name are named
  \<open>converter_0\<close>, \<open>converter_1\<close>, ... in document order across all streams, so no two
  of them get the same name.\<close>

theorem generated_names_distinct:
  assumes "fst (extractStreamInfo \<lparr>Json = j, ConverterIndex = 0\<rparr>) = Inr S"
    and "cs = all_conv_docs (stream_docs j)" and "length (filter unnamed cs) \<le> 2 ^ 32"
    and "xs = concat (map Converters (StreamsInfo S))"
  shows "length xs = length cs \<and>
    generated_names cs xs = map generated_name [0..<length (filter unnamed cs)] \<and>
    distinct (generated_names cs xs)"
proof -
  let ?P = "\<lparr>Json = j, ConverterIndex = 0\<rparr> :: ConfigParser"
  have len: "length (number_convs i cs) = length cs" for i cs
    by (induction cs arbitrary: i) auto
  have "list_all stream_ok (stream_docs j)"
  proof (rule ccontr)
    assume "\<not> ?thesis"
    with extract_streams_bad [of "stream_docs j" ?P] assms(1) show False
      by (auto simp: extractStreamInfo_eq prog_defs)
  qed
  with assms(1) have "StreamsInfo S = number_streams 0 (stream_docs j)"
    by (auto simp: extractStreamInfo_eq extract_streams_ok prog_simps)
  with assms(2,4) have "xs = number_convs 0 cs" by (simp add: number_streams_convs)
  with generated_names_number_convs [of 0 cs] assms(3) show ?thesis
    by (simp add: len distinct_map inj_on_def)
qed


theorem generated_names_distinct_witness:
  "let c = JObject [(''schema'', JString ''f142''), (''topic'', JString ''host/t'')];
       s = JObject [(''channel'', JString ''PV1''), (''converter'', JArray [c, c])];
       j = JObject [(''streams'', JArray [s, s])];
       xs = concat (map Converters (number_streams 0 (stream_docs j)))
   in fst (extractStreamInfo \<lparr>Json = j, ConverterIndex = 0\<rparr>) =
        Inr (ConfigSettings_default\<lparr>StreamsInfo := number_streams 0 (stream_docs j)\<rparr>) \<and>
      distinct (generated_names (all_conv_docs (stream_docs j)) xs) \<and>
      generated_names (all_conv_docs (stream_docs j)) xs =
        [''converter_0'', ''converter_1'', ''converter_2'', ''converter_3'']"
proof -
  define c where "c = JObject [(''schema'', JString ''f142''), (''topic'', JString ''host/t'')]"
  define s where "s = JObject [(''channel'', JString ''PV1''), (''converter'', JArray [c, c])]"
  define j where "j = JObject [(''streams'', JArray [s, s])]"
  have finds: "find_string ''schema'' c = Some ''f142''" "find_string ''topic'' c = Some ''host/t''"
      "find_string ''name'' c = None" "find_string ''channel'' s = Some ''PV1''" "is_object s"
    by (simp_all add: c_def s_def find_string_def find_as_def)
  have docs: "stream_docs j = [s, s]" "conv_docs s = [c, c]" "unnamed c" "stream_ok s"
    using finds
    by (simp_all add: j_def s_def stream_docs_def conv_docs_def find_json_def find_as_def
          unnamed_def stream_ok_def conv_ok_def)
  let ?P = "\<lparr>Json = j, ConverterIndex = 0\<rparr> :: ConfigParser"
  have run: "fst (extractStreamInfo ?P)
      = Inr (ConfigSettings_default\<lparr>StreamsInfo := number_streams 0 (stream_docs j)\<rparr>)"
    using docs extract_streams_ok [of "stream_docs j" ?P]
    by (simp add: extractStreamInfo_eq prog_simps del: map_prog.simps)
  have n: "length (filter unnamed (all_conv_docs (stream_docs j))) = 4"
    using docs by (simp add: all_conv_docs_def)
  have "[0..<4] = [0, 1, 2, 3::nat]" by (simp add: upt_rec)
  with generated_names_distinct [OF run refl _ refl] n run show ?thesis
    by (simp add: Let_def c_def [symmetric] s_def [symmetric] j_def [symmetric] generated_name_def dec.simps)
qed

end
