(* ===== verification/Logging.thy ===== *)
theory Logging
  imports Uri
begin

text \<open>
  \<open>logger.cpp\<close>: the sinks that the program's logger writes to. Parameters: whether the program was built
  with the Graylog library, and whether the logging library can open a log file (or the exception it throws).
\<close>

section \<open>Model\<close>

record log_env =
  HaveGraylog :: bool
  OpenLog :: "string \<Rightarrow> exn option"

datatype Sink = FileSink string | GraylogSink nat string u32 | ConsoleSink

text \<open>\<open>s.substr(0, s.find(':'))\<close>: the whole string when there is no colon.\<close>

definition before_colon :: "string \<Rightarrow> string" where
  "before_colon = takeWhile (\<lambda>c. c \<noteq> CHR '':'')"

definition file_sink :: "log_env \<Rightarrow> string \<Rightarrow> Sink list res" where
  "file_sink L LogFile =
     (if LogFile = [] then Inr []
      else case OpenLog L LogFile of Some e \<Rightarrow> Inl (Throw e) | None \<Rightarrow> Inr [FileSink LogFile])"

definition graylog_sink :: "log_env \<Rightarrow> nat \<Rightarrow> string \<Rightarrow> Sink list res" where
  "graylog_sink L LoggingLevel GraylogURI =
     (if GraylogURI = [] \<or> \<not> HaveGraylog L then Inr []
      else bind_res (new_URI GraylogURI) (\<lambda>TempURI.
           Inr [GraylogSink LoggingLevel (before_colon (HostPort TempURI)) (Port TempURI)]))"

text \<open>The level and the sinks of the logger that is registered.\<close>

definition setUpLogging :: "log_env \<Rightarrow> nat \<Rightarrow> string \<Rightarrow> string \<Rightarrow> (nat \<times> Sink list) res" where
  "setUpLogging L LoggingLevel LogFile GraylogURI =
     bind_res (file_sink L LogFile) (\<lambda>f.
     bind_res (graylog_sink L LoggingLevel GraylogURI) (\<lambda>g.
     Inr (LoggingLevel, f @ g @ [ConsoleSink])))"

section \<open>Properties\<close>

lemma before_colon_host: "list_all host_char host \<Longrightarrow> before_colon (host @ port_text p) = host"
  by (induction host) (auto simp: before_colon_def host_char_def port_text_def split: option.split)

lemma graylog_sink_address:
  assumes "address_ok sch host t" "HaveGraylog L" "\<forall>n. p = Some n \<longrightarrow> n \<le> 2147483647"
  shows "graylog_sink L l (address_text sch host p t)
     = Inr [GraylogSink l host (case p of None \<Rightarrow> 0 | Some n \<Rightarrow> of_nat n)]"
proof -
  have "padding_ok [] p t []" by (simp add: padding_ok_def)
  from regex_match_address [OF assms(1) this] obtain m where m:
      "regex_match uri_regex (address_text sch host p t) = Some m"
      "m 6 = Some (host @ port_text p)" "m 10 = map_option dec p" "m 11 = t" by auto
  have "\<exists>u. new_URI (address_text sch host p t) = Inr u \<and> HostPort u = host @ port_text p
      \<and> Port u = (case p of None \<Rightarrow> 0 | Some n \<Rightarrow> of_nat n)"
    unfolding new_URI_def parse_matched [OF m(1,2)] m(3,4)
    using assms(3) by (auto simp: stoi_digits_def URI_default_def split: option.split)
  moreover have "address_text sch host p t \<noteq> []" "list_all host_char host"
    using assms(1) by (simp_all add: address_ok_def address_text_def)
  ultimately show ?thesis using assms(2) by (auto simp: graylog_sink_def before_colon_host)
qed

text \<open>
  The logger with a log file that can be opened and a Graylog address of the documented form: it
  writes to the file, to the host and port of the address (port 0 when it has none) and always, last, to
  the console; without support for Graylog the address is ignored.
\<close>

theorem setUpLogging_sinks:
  assumes "address_ok sch host t" "\<forall>n. p = Some n \<longrightarrow> n \<le> 2147483647" "LogFile \<noteq> []" "OpenLog L LogFile = None"
  shows "setUpLogging L l LogFile (address_text sch host p t) = Inr (l, [FileSink LogFile]
     @ (if HaveGraylog L then [GraylogSink l host (case p of None \<Rightarrow> 0 | Some n \<Rightarrow> of_nat n)] else [])
     @ [ConsoleSink])"
proof (cases "HaveGraylog L")
  case True
  with graylog_sink_address [OF assms(1) True assms(2)] assms(3,4) show ?thesis
    by (simp add: setUpLogging_def file_sink_def)
next
  case False
  with assms(3,4) show ?thesis by (simp add: setUpLogging_def file_sink_def graylog_sink_def)
qed

theorem setUpLogging_sinks_witness:
  "setUpLogging \<lparr>HaveGraylog = True, OpenLog = (\<lambda>_. None)\<rparr> 3 ''fwd.log'' ''//graylog:12201''
     = Inr (3, [FileSink ''fwd.log'', GraylogSink 3 ''graylog'' 12201, ConsoleSink])"
proof -
  have ok: "address_ok Slashes ''graylog'' None" by (simp add: address_ok_def host_char_def)
  have "address_text Slashes ''graylog'' (Some 12201) None = ''//graylog:12201''"
    by (simp add: address_text_def port_text_def topic_text_def dec.simps)
  with setUpLogging_sinks [OF ok, of "Some 12201" "''fwd.log''" "\<lparr>HaveGraylog = True, OpenLog = (\<lambda>_. None)\<rparr>" 3]
  show ?thesis by simp
qed

end
