(* ===== verification/Main_Opt.thy ===== *)
theory Main_Opt
  imports Config_Parser Kafka_Producer Logging
begin

text \<open>
  \<open>MainOpt.h\<close> and \<open>MainOpt.cpp\<close>: the options of the program, the callbacks that the command line
  library calls for them, and \<open>parse_opt\<close>. The library (CLI11), the text parser of the json library
  and the file system are parameters.
\<close>

section \<open>The options\<close>

record MainOpt =
  MainSettings :: ConfigSettings
  PrintVersion :: bool
  KafkaGELFAddress :: string
  LogLevel :: nat
  GraylogLoggerAddress :: string
  InfluxURI :: string
  LogFilename :: string
  StreamsFile :: string
  PeriodMS :: u32
  FakePVPeriodMS :: u32
  GlobalBrokerSettings :: BrokerSettings

text \<open>\<open>LogLevel\<close> has no initialiser: \<open>l\<close> is what the memory holds.\<close>

definition MainOpt_default :: "nat \<Rightarrow> MainOpt" where
  "MainOpt_default l = \<lparr>MainSettings = ConfigSettings_default, PrintVersion = False,
     KafkaGELFAddress = [], LogLevel = l, GraylogLoggerAddress = [], InfluxURI = [], LogFilename = [],
     StreamsFile = [], PeriodMS = 0, FakePVPeriodMS = 0, GlobalBrokerSettings = BrokerSettings_default\<rparr>"

datatype ParseOptRet = ParseSuccess | VersionRequested | ParseError

section \<open>Numbers in strings\<close>

text \<open>
  \<open>std::stoi\<close> and \<open>std::stol\<close>: white space, a sign, then digits; what follows is ignored. \<open>bits\<close> is
  the width of the result.
\<close>

definition read_int :: "nat \<Rightarrow> string \<Rightarrow> int res" where
  "read_int bits s =
     (let s1 = dropWhile space_char s;
          neg = (s1 \<noteq> [] \<and> hd s1 = CHR ''-'');
          s2 = (if s1 \<noteq> [] \<and> (hd s1 = CHR ''-'' \<or> hd s1 = CHR ''+'') then tl s1 else s1);
          ds = takeWhile is_digit s2;
          v = (if neg then - int (dec_val ds) else int (dec_val ds)) in
      if ds = [] then Inl (Throw InvalidArgument)
      else if v < - (2 ^ (bits - 1)) \<or> v \<ge> 2 ^ (bits - 1) then Inl (Throw OutOfRange)
      else Inr v)"

definition stoi :: "string \<Rightarrow> int res" where
  "stoi = read_int 32"

definition stol :: "string \<Rightarrow> int res" where
  "stol = read_int 64"

section \<open>The callbacks\<close>

text \<open>The levels of the logging library, \<open>spdlog::level::level_enum\<close>.\<close>

definition LevelMap :: "(string \<times> nat) list" where
  "LevelMap = [(''Critical'', 5), (''Error'', 4), (''Warning'', 3), (''Info'', 2), (''Debug'', 1), (''Trace'', 0)]"

definition parseLogLevel :: "string list \<Rightarrow> (nat, bool) prog" where
  "parseLogLevel LogLevelString =
     (if length LogLevelString \<noteq> 1 then ret False
      else case map_of LevelMap (LogLevelString ! 0) of
        Some l \<Rightarrow> thn (upd_st (\<lambda>_. l)) (ret True)
      | None \<Rightarrow>
          try_catch
            (bnd (of_res (stoi (LogLevelString ! 0))) (\<lambda>TempLogMessageLevel.
             if TempLogMessageLevel < 0 \<or> TempLogMessageLevel > 5 then ret False
             else thn (upd_st (\<lambda>_. nat TempLogMessageLevel)) (ret True)))
            (\<lambda>e. e = InvalidArgument) (\<lambda>e. ret False))"

text \<open>The callback of \<open>addUriOption\<close>; \<open>Results[0]\<close> of an empty vector is undefined.\<close>

definition uri_option :: "string list \<Rightarrow> (URI, bool) prog" where
  "uri_option Results = (case Results of
     [] \<Rightarrow> fail Crash
   | r # _ \<Rightarrow> try_catch (thn (parse r) (ret True)) is_runtime_error (\<lambda>e. ret False))"

text \<open>The callbacks of the two \<open>addKafkaOption\<close>, on the \<open>std::map\<close>.\<close>

definition kafka_option :: "string list \<Rightarrow> ((string \<rightharpoonup> string), bool) prog" where
  "kafka_option Results =
     thn (for_each (\<lambda>i. upd_st (\<lambda>m. m(Results ! (i * 2) \<mapsto> Results ! (i * 2 + 1)))) [0..<length Results div 2])
     (ret True)"

definition kafka_int_option :: "string list \<Rightarrow> ((string \<rightharpoonup> u32), bool) prog" where
  "kafka_int_option Results =
     thn (for_each (\<lambda>i.
            try_catch
              (bnd (of_res (stol (Results ! (i * 2 + 1)))) (\<lambda>v.
               upd_st (\<lambda>m. m(Results ! (i * 2) \<mapsto> of_int v))))
              (\<lambda>e. e = InvalidArgument)
              (\<lambda>e. raise (RuntimeError (''Argument '' @ Results ! (i * 2) @ '' is not an int''))))
          [0..<length Results div 2])
     (ret True)"

section \<open>parse\_opt\<close>

text \<open>A file that cannot be opened is read as empty.\<close>

definition parseStreamsJson ::
  "(string \<Rightarrow> json option) \<Rightarrow> (string \<Rightarrow> string option) \<Rightarrow> string \<Rightarrow> StreamSettings list res" where
  "parseStreamsJson json_parse read_file filepath =
     bind_res (new_ConfigParser json_parse (case read_file filepath of None \<Rightarrow> [] | Some s \<Rightarrow> s)) (\<lambda>Config.
     bind_res (fst (extractStreamInfo Config)) (\<lambda>s. Inr (StreamsInfo s)))"

datatype cli_outcome = CliDone | CliCallForHelp | CliParseError

definition parse_opt ::
  "(MainOpt, cli_outcome) prog \<Rightarrow> log_env \<Rightarrow> (string \<Rightarrow> json option) \<Rightarrow> (string \<Rightarrow> string option) \<Rightarrow> nat \<Rightarrow>
   (ParseOptRet \<times> MainOpt) res" where
  "parse_opt app_parse L json_parse read_file l =
     (case app_parse (MainOpt_default l) of
        (Inl e, opt) \<Rightarrow> Inl e
      | (Inr oc, opt) \<Rightarrow>
          (let first = (if oc = CliCallForHelp \<or> (oc = CliParseError \<and> \<not> PrintVersion opt)
                        then ParseError else ParseSuccess) in
           if PrintVersion opt then Inr (VersionRequested, opt)
           else bind_res (setUpLogging L (LogLevel opt) (LogFilename opt) (GraylogLoggerAddress opt)) (\<lambda>_.
             if first = ParseError then Inr (ParseError, opt)
             else if StreamsFile opt \<noteq> [] then
               (case parseStreamsJson json_parse read_file (StreamsFile opt) of
                  Inr ss \<Rightarrow> Inr (ParseSuccess, opt\<lparr>MainSettings := (MainSettings opt)\<lparr>StreamsInfo := ss\<rparr>\<rparr>)
                | Inl (Throw e) \<Rightarrow> Inr (ParseError, opt)
                | Inl f \<Rightarrow> Inl f)
             else Inr (ParseSuccess, opt))))"

section \<open>Properties\<close>

lemma takeWhile_digits_dec: "takeWhile is_digit (dec n) = dec n"
  using dec_digits by (simp add: takeWhile_eq_all_conv)

lemma dec_first: "\<exists>c s. dec n = c # s \<and> is_digit c"
  using dec_digits [of n] dec_nonempty [of n] by (cases "dec n") auto

lemma digit_plain: "is_digit c \<Longrightarrow> \<not> space_char c \<and> c \<noteq> CHR ''-'' \<and> c \<noteq> CHR ''+''"
  by (auto simp: is_digit_def space_char_def)

lemma read_int_dec:
  "read_int bits (dec n) = (if int n < 2 ^ (bits - 1) then Inr (int n) else Inl (Throw OutOfRange))"
proof -
  obtain c s where "dec n = c # s" "is_digit c" using dec_first by blast
  then have "dropWhile space_char (dec n) = dec n" "hd (dec n) \<noteq> CHR ''-''" "hd (dec n) \<noteq> CHR ''+''"
    using digit_plain by auto
  moreover have "\<not> int n < - (2 ^ (bits - 1))"
    by (metis (no_types) linorder_not_less neg_le_0_iff_le of_nat_0_le_iff order_trans zero_le_numeral zero_le_power)
  ultimately show ?thesis by (auto simp: read_int_def takeWhile_digits_dec Let_def not_less)
qed

lemma level_not_number: "map_of LevelMap (dec n) = None"
proof -
  obtain c s where d: "dec n = c # s" "is_digit c" using dec_first by blast
  then have "c \<notin> set ''CEWIDT''" by (auto simp: is_digit_def)
  then show ?thesis by (simp add: LevelMap_def d(1))
qed

text \<open>
  The verbosity option: the six names give the levels 5 to 0, a number in decimal gives itself up to
  5 and is refused (with the level unchanged) above; a number that does not fit in an \<open>int\<close> makes the
  callback throw \<open>std::out_of_range\<close> instead of refusing it.
\<close>

theorem parseLogLevel_result:
  "parseLogLevel [dec n] l =
     (if n \<le> 5 then (Inr True, n) else if n < 2 ^ 31 then (Inr False, l) else (Inl (Throw OutOfRange), l))
   \<and> map (\<lambda>s. parseLogLevel [s] l) [''Critical'', ''Error'', ''Warning'', ''Info'', ''Debug'', ''Trace'']
     = map (\<lambda>k. (Inr True, k)) [5, 4, 3, 2, 1, 0]"
proof -
  have "int n < 2 ^ 31 \<longleftrightarrow> n < 2 ^ 31" by (metis of_nat_less_iff of_nat_numeral of_nat_power)
  then have "parseLogLevel [dec n] l =
     (if n \<le> 5 then (Inr True, n) else if n < 2 ^ 31 then (Inr False, l) else (Inl (Throw OutOfRange), l))"
    by (auto simp: parseLogLevel_def level_not_number stoi_def read_int_dec prog_defs)
  moreover have "map (\<lambda>s. parseLogLevel [s] l) [''Critical'', ''Error'', ''Warning'', ''Info'', ''Debug'', ''Trace'']
     = map (\<lambda>k. (Inr True, k)) [5, 4, 3, 2, 1, 0]"
    by (simp add: parseLogLevel_def LevelMap_def prog_defs)
  ultimately show ?thesis by blast
qed

text \<open>The pairs of a list of words, without an odd last one.\<close>

fun word_pairs :: "'a list \<Rightarrow> ('a \<times> 'a) list" where
  "word_pairs (k # v # rs) = (k, v) # word_pairs rs"
| "word_pairs rs = []"

lemma word_pairs_nth:
  "word_pairs rs = map (\<lambda>i. (rs ! (i * 2), rs ! (i * 2 + 1))) [0..<length rs div 2]"
proof (induction rs rule: word_pairs.induct)
  case (1 k v rs)
  have "[0..<length (k # v # rs) div 2] = 0 # map Suc [0..<length rs div 2]"
    by (simp add: map_Suc_upt upt_conv_Cons)
  then show ?case using 1 by (simp del: upt_Suc)
qed simp_all

lemma insert_pairs: "foldl (\<lambda>m (k, v). m(k \<mapsto> v)) m xs = m ++ map_of (rev xs)"
  by (induction xs arbitrary: m) auto

text \<open>
  The library options: after the callback every key has the last value given for it, and keys that
  were not given keep theirs.
\<close>

theorem kafka_option_result: "kafka_option Results m = (Inr True, m ++ map_of (rev (word_pairs Results)))"
proof -
  have "for_each (\<lambda>i. upd_st (\<lambda>m. m(f i \<mapsto> g i))) is m =
      (Inr (), m ++ map_of (rev (map (\<lambda>i. (f i, g i)) is)))"
    for f g :: "nat \<Rightarrow> string" and "is" m
    unfolding insert_pairs [symmetric] by (induction "is" arbitrary: m) (simp_all add: prog_defs)
  then show ?thesis unfolding kafka_option_def word_pairs_nth by (rule run_thn [THEN trans]) (rule run_prog)
qed

section \<open>What leaves parse\_opt\<close>

lemma parseStreamsJson_throws:
  assumes "parseStreamsJson json_parse read_file path = Inl f"
  shows "\<exists>e. f = Throw e"
proof -
  have "\<exists>e. f = Throw e" if "fst (extractStreamInfo P) = Inl f" for P
  proof (cases "list_all Config_Parser.stream_ok (stream_docs (Json P))")
    case True
    with that show ?thesis by (simp add: extractStreamInfo_eq extract_streams_ok prog_simps)
  next
    case False
    with extract_streams_bad [OF False, of P] that show ?thesis by (auto simp: extractStreamInfo_eq prog_defs)
  qed
  with assms show ?thesis
    by (auto simp: parseStreamsJson_def bind_res_def new_ConfigParser_def split: sum.splits option.splits)
qed

text \<open>
  An exception leaves \<open>parse_opt\<close> only from the callbacks of the options or from setting up the
  logger, never from the file of streams: whatever is wrong with that file, the result is the error code.
\<close>

theorem parse_opt_escapes:
  assumes "parse_opt app_parse L json_parse read_file l = Inl f"
  shows "fst (app_parse (MainOpt_default l)) = Inl f \<or>
    (let opt = snd (app_parse (MainOpt_default l)) in
     setUpLogging L (LogLevel opt) (LogFilename opt) (GraylogLoggerAddress opt) = Inl f)"
  using assms
  by (auto simp: parse_opt_def Let_def bind_res_def dest!: parseStreamsJson_throws
      split: prod.splits sum.splits if_splits failure.splits)

theorem parse_opt_escapes_witness:
  "setUpLogging \<lparr>HaveGraylog = True, OpenLog = (\<lambda>_. Some (RuntimeError ''x''))\<rparr> 3 ''/no/such.log'' []
     = Inl (Throw (RuntimeError ''x''))"
  using parse_opt_escapes [of "\<lambda>opt. (Inr CliDone, opt\<lparr>LogFilename := ''/no/such.log'', LogLevel := 3\<rparr>)"
      "\<lparr>HaveGraylog = True, OpenLog = (\<lambda>_. Some (RuntimeError ''x''))\<rparr>" "\<lambda>_. None" "\<lambda>_. None" 0
      "Throw (RuntimeError ''x'')"]
  by (simp add: parse_opt_def MainOpt_default_def setUpLogging_def file_sink_def)

end
