(* ===== verification/Kafka_Consumer.thy ===== *)
theory Kafka_Consumer
  imports Kafka_Producer
begin

text \<open>
  \<open>KafkaW/Consumer.cpp\<close> and \<open>Config.cpp\<close>: subscribing to the command topic at its end, and polling
  it. What the broker and the client library answer is the record \<open>broker\<close>: the metadata (\<open>None\<close> is
  an error), the high watermark of a partition (\<open>None\<close> when the query fails, which leaves the local
  variable uninitialised), whether \<open>assign\<close> is accepted, and whether a consumer can be created.
\<close>

record topic_metadata =
  TopicName :: string
  PartitionIds :: "int list"

record broker =
  br_create :: bool
  br_metadata :: "topic_metadata list option"
  br_high :: "string \<Rightarrow> int \<Rightarrow> int option"
  br_assign :: "(string \<times> int \<times> int) list \<Rightarrow> bool"

text \<open>The consumer: the metadata it has fetched and its assignment (topic, partition, offset).\<close>

record Consumer =
  Metadata :: "topic_metadata list option"
  Assignment :: "(string \<times> int \<times> int) list"

definition new_Consumer :: "'k rdkafka \<Rightarrow> broker \<Rightarrow> BrokerSettings \<Rightarrow> Consumer res" where
  "new_Consumer K B Settings =
     bind_res (apply_settings K Settings) (\<lambda>_.
     if br_create B then Inr \<lparr>Metadata = None, Assignment = []\<rparr>
     else Inl (Throw (RuntimeError ''can not create Kafka consumer'')))"

definition updateMetadata :: "broker \<Rightarrow> (Consumer, unit) prog" where
  "updateMetadata B = (case br_metadata B of
     None \<Rightarrow> raise (MetadataException
       ''Consumer::updateMetadata() - error while retrieving metadata.'')
   | Some md \<Rightarrow> upd_st (\<lambda>c. c\<lparr>Metadata := Some md\<rparr>))"

definition findTopic :: "broker \<Rightarrow> string \<Rightarrow> (Consumer, topic_metadata) prog" where
  "findTopic B Topic =
     thn (updateMetadata B)
     (bnd (get_st Metadata) (\<lambda>md.
      case md of
        None \<Rightarrow> fail Crash
      | Some Topics \<Rightarrow>
         (case find (\<lambda>t. TopicName t = Topic) Topics of
            None \<Rightarrow> raise (RuntimeError ''Config topic does not exist'')
          | Some t \<Rightarrow> ret t)))"

definition getTopicPartitionNumbers :: "broker \<Rightarrow> string \<Rightarrow> (Consumer, int list) prog" where
  "getTopicPartitionNumbers B Topic =
     bnd (findTopic B Topic) (\<lambda>matchedTopic. ret (sort (PartitionIds matchedTopic)))"

text \<open>\<open>TopicPartition->set_offset(High)\<close>; reading \<open>High\<close> when the query failed is undefined.\<close>

fun with_offsets :: "broker \<Rightarrow> string \<Rightarrow> int list \<Rightarrow> (string \<times> int \<times> int) list res" where
  "with_offsets B Topic [] = Inr []"
| "with_offsets B Topic (PartitionID # ids) = (case br_high B Topic PartitionID of
     None \<Rightarrow> Inl Crash
   | Some High \<Rightarrow> bind_res (with_offsets B Topic ids) (\<lambda>tps. Inr ((Topic, PartitionID, High) # tps)))"

definition addTopic :: "broker \<Rightarrow> string \<Rightarrow> (Consumer, unit) prog" where
  "addTopic B Topic =
     bnd (getTopicPartitionNumbers B Topic) (\<lambda>PartitionIDs.
     bnd (of_res (with_offsets B Topic PartitionIDs)) (\<lambda>tps.
     if br_assign B tps then upd_st (\<lambda>c. c\<lparr>Assignment := tps\<rparr>)
     else raise (RuntimeError (''Could not subscribe to '' @ Topic))))"

section \<open>Polling\<close>

datatype PollStatus = Message | Error | EndOfPartition | Empty

record ConsumerMessage =
  MessageData :: string
  Status :: PollStatus

datatype consume_error = CONSUME_NO_ERROR | CONSUME_PARTITION_EOF | CONSUME_OTHER int

text \<open>
  What \<open>consume\<close> returns: its error, the length of the payload, and the memory from the payload
  pointer on, which is longer than the payload when other data follows it.
\<close>

record kafka_message =
  msg_err :: consume_error
  msg_len :: nat
  msg_memory :: string

text \<open>A \<open>std::string\<close> from a \<open>const char *\<close>: up to the first zero byte, wherever it is.\<close>

definition c_string :: "string \<Rightarrow> string" where
  "c_string mem = takeWhile (\<lambda>c. of_char c \<noteq> (0::nat)) mem"

definition consumer_poll :: "kafka_message \<Rightarrow> ConsumerMessage" where
  "consumer_poll KafkaMsg = (case msg_err KafkaMsg of
     CONSUME_NO_ERROR \<Rightarrow>
       (if msg_len KafkaMsg > 0
        then \<lparr>MessageData = c_string (msg_memory KafkaMsg), Status = Message\<rparr>
        else \<lparr>MessageData = [], Status = Empty\<rparr>)
   | CONSUME_PARTITION_EOF \<Rightarrow> \<lparr>MessageData = [], Status = EndOfPartition\<rparr>
   | CONSUME_OTHER _ \<Rightarrow> \<lparr>MessageData = [], Status = Error\<rparr>)"

section \<open>The command listener\<close>

fun is_metadata_exception :: "exn \<Rightarrow> bool" where
  "is_metadata_exception (MetadataException _) = True"
| "is_metadata_exception _ = False"

text \<open>\<open>Listener::Listener\<close> and \<open>Listener::poll\<close>, which runs the callback on a message.\<close>

definition new_Listener :: "broker \<Rightarrow> string \<Rightarrow> (Consumer, unit) prog" where
  "new_Listener B ConfigTopic = try_catch (addTopic B ConfigTopic) is_metadata_exception (\<lambda>_. ret ())"

definition listener_poll :: "(string \<Rightarrow> ('s, unit) prog) \<Rightarrow> kafka_message \<Rightarrow> ('s, unit) prog" where
  "listener_poll cb KafkaMsg =
     (let m = consumer_poll KafkaMsg in
      if Status m = Message then cb (MessageData m) else ret ())"

section \<open>Properties\<close>

lemma with_offsets_Inr:
  "with_offsets B t ids = Inr tps \<longleftrightarrow>
     tps = map (\<lambda>i. (t, i, the (br_high B t i))) ids \<and> (\<forall>i \<in> set ids. br_high B t i \<noteq> None)"
  by (induction ids arbitrary: tps) (auto simp: bind_res_Inr_iff split: option.splits)

lemma with_offsets_ok:
  "\<forall>i \<in> set ids. br_high B t i \<noteq> None \<Longrightarrow>
   with_offsets B t ids = Inr (map (\<lambda>i. (t, i, the (br_high B t i))) ids)"
  using with_offsets_Inr by blast

lemma find_eq_map:
  "find P xs = Some x \<Longrightarrow> x \<in> set xs \<and> P x"
  by (induction xs) (auto split: if_splits)

text \<open>C32: Subscribing to the command topic: when the metadata lists the topic and every partition
  answers the watermark query, the consumer is assigned exactly the partitions of the topic, each
  once in increasing order, each at its end, so that only commands sent after the start are read.
  A missing topic and a refused assignment are runtime errors, which the listener does not catch;
  a failed metadata request is caught and leaves the consumer without assignment.\<close>

theorem new_Listener_result:
  assumes "\<forall>md. br_metadata B = Some md \<longrightarrow>
      (\<forall>m \<in> set md. \<forall>i \<in> set (PartitionIds m). br_high B (TopicName m) i \<noteq> None)"
  shows "new_Listener B ConfigTopic c = (case br_metadata B of
      None \<Rightarrow> (Inr (), c)
    | Some md \<Rightarrow>
       (let c' = c\<lparr>Metadata := Some md\<rparr> in
        case find (\<lambda>t. TopicName t = ConfigTopic) md of
          None \<Rightarrow> (Inl (Throw (RuntimeError ''Config topic does not exist'')), c')
        | Some t \<Rightarrow>
           (let tps = map (\<lambda>i. (ConfigTopic, i, the (br_high B ConfigTopic i))) (sort (PartitionIds t)) in
            if br_assign B tps then (Inr (), c'\<lparr>Assignment := tps\<rparr>)
            else (Inl (Throw (RuntimeError (''Could not subscribe to '' @ ConfigTopic))), c'))))"
proof (cases "br_metadata B")
  case None
  then show ?thesis
    by (simp add: new_Listener_def addTopic_def getTopicPartitionNumbers_def findTopic_def
        updateMetadata_def prog_defs)
next
  case (Some md)
  show ?thesis
  proof (cases "find (\<lambda>t. TopicName t = ConfigTopic) md")
    case None
    with Some show ?thesis
      by (simp add: new_Listener_def addTopic_def getTopicPartitionNumbers_def findTopic_def
          updateMetadata_def prog_defs Let_def)
  next
    case (Some t)
    then have "\<forall>i \<in> set (sort (PartitionIds t)). br_high B ConfigTopic i \<noteq> None"
      using assms \<open>br_metadata B = Some md\<close> find_eq_map [OF Some] by auto
    from with_offsets_ok [OF this] \<open>br_metadata B = Some md\<close> Some show ?thesis
      by (simp add: new_Listener_def addTopic_def getTopicPartitionNumbers_def findTopic_def
          updateMetadata_def prog_defs Let_def)
  qed
qed

lemma new_Listener_result_witness:
  "new_Listener \<lparr>br_create = True, br_metadata = Some [\<lparr>TopicName = ''cmd'', PartitionIds = [2, 0]\<rparr>],
      br_high = (\<lambda>t i. Some (10 + i)), br_assign = (\<lambda>_. True)\<rparr> ''cmd'' \<lparr>Metadata = None, Assignment = []\<rparr>
   = (Inr (), \<lparr>Metadata = Some [\<lparr>TopicName = ''cmd'', PartitionIds = [2, 0]\<rparr>],
               Assignment = [(''cmd'', 0, 10), (''cmd'', 2, 12)]\<rparr>)"
  using new_Listener_result [of "\<lparr>br_create = True,
      br_metadata = Some [\<lparr>TopicName = ''cmd'', PartitionIds = [2, 0]\<rparr>],
      br_high = (\<lambda>t i. Some (10 + i)), br_assign = (\<lambda>_. True)\<rparr>" "''cmd''" "\<lparr>Metadata = None, Assignment = []\<rparr>"]
  by simp

lemma c_string_terminated:
  "\<forall>c \<in> set s. of_char c \<noteq> (0::nat) \<Longrightarrow> of_char z = (0::nat) \<Longrightarrow> c_string (s @ z # rest) = s"
  unfolding c_string_def by (subst takeWhile_append2) auto

text \<open>A command reaches the handler exactly when the poll gave a message with a payload, and
  its text is the payload if that has no zero byte and a zero byte follows it in memory; a payload
  that is not followed by a zero byte is read on into what follows. Errors, the end of a partition
  and empty messages do nothing.\<close>

theorem listener_poll_delivers:
  shows "(msg_err m = CONSUME_NO_ERROR \<and> msg_len m > 0 \<longrightarrow>
            listener_poll cb m = cb (c_string (msg_memory m)))
       \<and> (msg_err m \<noteq> CONSUME_NO_ERROR \<or> msg_len m = 0 \<longrightarrow> listener_poll cb m = ret ())
       \<and> (\<forall>s z rest. (\<forall>c \<in> set s. of_char c \<noteq> (0::nat)) \<and> of_char z = (0::nat) \<longrightarrow>
            c_string (s @ z # rest) = s)
       \<and> (\<forall>s x. (\<forall>c \<in> set (s @ [x]). of_char c \<noteq> (0::nat)) \<longrightarrow> c_string (s @ [x]) = s @ [x])"
  by (auto simp: listener_poll_def consumer_poll_def c_string_terminated Let_def c_string_def
      takeWhile_eq_all_conv split: consume_error.split)

lemma listener_poll_delivers_witness:
  "listener_poll (\<lambda>s. upd_st (\<lambda>t. t @ [s]))
     \<lparr>msg_err = CONSUME_NO_ERROR, msg_len = 2, msg_memory = ''ok'' @ [char_of (0::nat)]\<rparr>
   = upd_st (\<lambda>t. t @ [''ok''])"
  using listener_poll_delivers [of
      "\<lparr>msg_err = CONSUME_NO_ERROR, msg_len = 2, msg_memory = ''ok'' @ [char_of (0::nat)]\<rparr>"
      "\<lambda>s. upd_st (\<lambda>t. t @ [s])"]
  by (simp add: c_string_def)

end
