(* ===== verification/Forwarder_Main.thy ===== *)
theory Forwarder_Main
  imports Stream_Removal Timer Main_Opt Kafka_Consumer
begin

text \<open>
  \<open>Forwarder.cpp\<close>: the object that owns the streams, converters, timers, workers and producers, its
  constructor, the commands that add streams and converters, the run flag and the main loop. Methods
  run one at a time under the locks of the code; the conversion workers are modelled in
  \<open>Conversion_Worker\<close>.
\<close>

section \<open>State\<close>

text \<open>
  The callbacks the two timers get. Each holds a client; the second one also the result of a
  \<open>dynamic_cast\<close> to the monitor client, null for another client.
\<close>

datatype callback = GenerateFake nat | EmitCached "nat option"

datatype ForwardingStatus = NORMAL | STOPPED

record ('q, 'k) Forwarder = "('q, 'k) stream_store" +
  main_opt :: MainOpt
  SchemaItems :: "string \<rightharpoonup> SchemaInfo"
  converter_names :: "string \<rightharpoonup> nat"
  PVUpdateTimer :: "callback Timer option"
  GenerateFakePVUpdateTimer :: "callback Timer option"
  conversion_workers :: "bool list"
  config_listener :: "Consumer option"
  status_producer :: "'k Producer option"
  ForwardingRunFlag :: u32
  forwarding_status :: ForwardingStatus

text \<open>
  The libraries the object works with: librdkafka with its broker, pvAccess, the queues, \<open>json::parse\<close>
  (\<open>None\<close> when it throws) and \<open>json::dump\<close>; what other threads do to the run flag while it is
  being raised; and the generated serialisation of messages about connections.
\<close>

record ('q, 'k) fwd_env =
  RdKafka :: "'k rdkafka"
  Broker :: broker
  PvAccess :: pvaccess
  UpdateQueue :: "('q, nat option) queue_ops"
  EmptyQueue :: 'q
  JsonParse :: "string \<Rightarrow> json option"
  JsonDump :: "json \<Rightarrow> string"
  FlagRaces :: "(u32 \<times> bool) list"
  ConnectionBytes :: "EpicsConnectionInfo \<Rightarrow> u8 list"
  HasCURL :: bool
  PrintDouble :: "u64 \<Rightarrow> string"

definition Forwarder_blank :: "MainOpt \<Rightarrow> ConverterGlobals \<Rightarrow> ('q, 'k) Forwarder" where
  "Forwarder_blank Options g = \<lparr>Paths = Map.empty, conv_store.Converters = Map.empty, Globals = g,
     KafkaSet = new_InstanceSet (GlobalBrokerSettings Options), StreamList = [], Clients = Map.empty,
     InTransit = (\<lambda>p. 0), NextObj = 0, main_opt = Options, SchemaItems = Map.empty,
     converter_names = Map.empty, PVUpdateTimer = None, GenerateFakePVUpdateTimer = None,
     conversion_workers = [], config_listener = None, status_producer = None,
     ForwardingRunFlag = 0, forwarding_status = NORMAL\<rparr>"

section \<open>Adding streams and converters\<close>

text \<open>
  \<open>createTopicURI\<close>. The parts of the first broker are put into the address before it is parsed.
\<close>

definition createTopicURI :: "MainOpt \<Rightarrow> ConverterSettings \<Rightarrow> URI res" where
  "createTopicURI Options ConverterInfo =
     (let BrokerURI = (if Brokers (MainSettings Options) \<noteq> [] then Brokers (MainSettings Options) ! 0 else URI_default);
          TopicURI0 = (if HostPort BrokerURI \<noteq> [] then URI_default\<lparr>HostPort := HostPort BrokerURI\<rparr> else URI_default);
          TopicURI = (if Port BrokerURI \<noteq> 0 then TopicURI0\<lparr>Port := Port BrokerURI\<rparr> else TopicURI0) in
      case try_catch (parse (ConverterTopic ConverterInfo)) is_runtime_error
             (\<lambda>e. raise (MappingAddException (''Invalid topic '' @ ConverterTopic ConverterInfo))) TopicURI of
        (Inl e, u) \<Rightarrow> Inl e
      | (Inr x, u) \<Rightarrow> Inr u)"

text \<open>A new converter object; the last shared pointer is held by the caller.\<close>

definition make_converter :: "string \<Rightarrow> (('q, 'k) Forwarder, nat) prog" where
  "make_converter sch =
     bnd (get_st (\<lambda>s. (Converter_create (SchemaItems s) sch, NextObj s))) (\<lambda>(c, i). case c of
       None \<Rightarrow> raise (MappingAddException ''Cannot create a converter'')
     | Some c \<Rightarrow>
         thn (upd_st (\<lambda>s. s\<lparr>conv_store.Converters := (conv_store.Converters s)(i \<mapsto> c), NextObj := Suc i\<rparr>))
         (ret i))"

text \<open>
  The converter for some settings: by its name a weak pointer may be known, which can be locked while
  a path has the converter.
\<close>

definition find_converter :: "ConverterSettings \<Rightarrow> (('q, 'k) Forwarder, nat) prog" where
  "find_converter ConverterInfo =
     (if ConverterName ConverterInfo = [] then make_converter (Schema ConverterInfo)
      else bnd (get_st (\<lambda>s. case converter_names s (ConverterName ConverterInfo) of
                  None \<Rightarrow> None
                | Some i \<Rightarrow> (if uses_converter s i then Some i else None))) (\<lambda>found. case found of
             Some i \<Rightarrow> ret i
           | None \<Rightarrow>
               bnd (make_converter (Schema ConverterInfo)) (\<lambda>i.
               thn (upd_st (\<lambda>s. s\<lparr>converter_names := (converter_names s)(ConverterName ConverterInfo \<mapsto> i)\<rparr>))
               (ret i))))"

text \<open>When the caller's shared pointer to converter \<open>i\<close> goes and no path has it, the object goes.\<close>

definition drop_converter :: "nat \<Rightarrow> (('q, 'k) Forwarder, unit) prog" where
  "drop_converter i = upd_st (\<lambda>s. if uses_converter s i then s
     else s\<lparr>conv_store.Converters := (conv_store.Converters s)(i := None)\<rparr>)"

definition make_path :: "nat \<Rightarrow> ProducerTopic \<Rightarrow> (('q, 'k) Forwarder, nat) prog" where
  "make_path i topic =
     bnd (get_st NextObj) (\<lambda>p.
     thn (upd_st (\<lambda>s. s\<lparr>Paths := (Paths s)(p \<mapsto> \<lparr>path_converter = i, kafka_output = topic\<rparr>),
            InTransit := (InTransit s)(p := 0), NextObj := Suc p\<rparr>))
     (ret p))"

text \<open>\<open>Stream->addConverter(std::move(cp))\<close>, where \<open>cp\<close> is destroyed if the stream did not take it.\<close>

definition add_path :: "nat \<Rightarrow> nat \<Rightarrow> (('q, 'k) Forwarder, unit) prog" where
  "add_path sid p =
     bnd (get_st (\<lambda>s. find (\<lambda>st. stream_id st = sid) (StreamList s))) (\<lambda>st.
     bnd (of_res (deref st)) (\<lambda>st.
     bnd (get_st (\<lambda>s. addConverter s p (ConversionPaths st))) (\<lambda>r.
     bnd (of_res r) (\<lambda>(x, ps).
     thn (upd_st (\<lambda>s. s\<lparr>StreamList := map (\<lambda>st. if stream_id st = sid then st\<lparr>ConversionPaths := ps\<rparr> else st)
                          (StreamList s)\<rparr>))
     (if x = 0 then ret () else delete_ConversionPath p)))))"

definition pushConverterToStream ::
  "('q, 'k) fwd_env \<Rightarrow> nat \<Rightarrow> ConverterSettings \<Rightarrow> (('q, 'k) Forwarder, unit) prog" where
  "pushConverterToStream env sid ConverterInfo =
     bnd (get_st (\<lambda>s. (SchemaItems s (Schema ConverterInfo), main_opt s))) (\<lambda>(r1, Options).
     if r1 = None
     then raise (MappingAddException (''Cannot handle flatbuffer schema id '' @ Schema ConverterInfo))
     else bnd (of_res (createTopicURI Options ConverterInfo)) (\<lambda>TopicURI.
          bnd (find_converter ConverterInfo) (\<lambda>i.
          bnd (try_catch (on_kafka_set (createProducerTopic (RdKafka env) TopicURI)) (\<lambda>_. True)
                 (\<lambda>e. thn (drop_converter i) (raise e))) (\<lambda>topic.
          bnd (make_path i topic) (\<lambda>p. add_path sid p)))))"

text \<open>\<open>addStream<T>\<close>, for the two client classes.\<close>

definition make_client ::
  "('q, 'k) fwd_env \<Rightarrow> bool \<Rightarrow> string \<Rightarrow> string \<Rightarrow> 'q EpicsClient res" where
  "make_client env random provider name =
     (if random then Inr (RandomClient (new_EpicsClientRandom (EmptyQueue env) name))
      else bind_res (new_EpicsClientMonitor (PvAccess env) (EmptyQueue env) provider name)
             (\<lambda>c. Inr (MonitorClient c)))"

definition addStream ::
  "('q, 'k) fwd_env \<Rightarrow> bool \<Rightarrow> string \<Rightarrow> string \<Rightarrow> (('q, 'k) Forwarder, Stream) prog" where
  "addStream env random provider name =
     bnd (get_st (\<lambda>s. (getStreamByChannelName s name, NextObj s))) (\<lambda>(FoundStream, i).
     if FoundStream \<noteq> None then raise (MappingAddException ''Stream already exists'')
     else bnd (of_res (make_client env random provider name)) (\<lambda>c.
          thn (upd_st (\<lambda>s. s\<lparr>Clients := (Clients s)(i \<mapsto> c), NextObj := Suc i\<rparr>))
          (thn (streams_add (new_Stream i provider name (Some i)))
          (ret (new_Stream i provider name (Some i))))))"

definition register_callback ::
  "callback \<Rightarrow> callback Timer option \<Rightarrow> callback Timer option" where
  "register_callback c t = map_option (addCallback c) t"

text \<open>
  The second half of the \<open>try\<close> block of \<open>addMapping\<close>: the producer for the connection status goes to the
  topic of the first converter, then each converter is added.
\<close>

definition set_status_producer ::
  "('q, 'k) fwd_env \<Rightarrow> Stream \<Rightarrow> ConverterSettings list \<Rightarrow> (('q, 'k) Forwarder, unit) prog" where
  "set_status_producer env st cs = (case cs of
     [] \<Rightarrow> ret ()
   | c # _ \<Rightarrow>
       bnd (of_res (new_URI (ConverterTopic c))) (\<lambda>u.
       bnd (on_kafka_set (createProducerTopic (RdKafka env) u)) (\<lambda>topic.
       on_client (Client st) (client_setProducer topic))))"

definition map_converters ::
  "('q, 'k) fwd_env \<Rightarrow> MainOpt \<Rightarrow> Stream \<Rightarrow> ConverterSettings list \<Rightarrow> (('q, 'k) Forwarder, unit) prog" where
  "map_converters env Options st cs =
     thn (set_status_producer env st cs)
     (thn (on_client (Client st) (client_setServiceID (ConfigSettings.ServiceID (MainSettings Options))))
     (for_each (pushConverterToStream env (stream_id st)) cs))"

definition addMapping ::
  "('q, 'k) fwd_env \<Rightarrow> StreamSettings \<Rightarrow> (('q, 'k) Forwarder, unit) prog" where
  "addMapping env StreamInfo =
     try_catch
       (bnd (get_st (\<lambda>s. (GenerateFakePVUpdateTimer s \<noteq> None, PVUpdateTimer s \<noteq> None, main_opt s))) (\<lambda>(fake, periodic, Options).
        bnd (addStream env fake (EpicsProtocol StreamInfo) (StreamName StreamInfo)) (\<lambda>st.
        thn (if fake
             then upd_st (\<lambda>s. s\<lparr>GenerateFakePVUpdateTimer :=
                    register_callback (GenerateFake (the (Client st))) (GenerateFakePVUpdateTimer s)\<rparr>)
             else ret ())
        (thn (if periodic
              then upd_st (\<lambda>s. s\<lparr>PVUpdateTimer :=
                     register_callback (EmitCached (if fake then None else Client st)) (PVUpdateTimer s)\<rparr>)
              else ret ())
        (map_converters env Options st (StreamSettings.Converters StreamInfo))))))
       is_runtime_error
       (\<lambda>e. raise (Nested (MappingAddException ''Cannot add stream'') e))"

section \<open>Construction\<close>

definition createConfigListener :: "('q, 'k) fwd_env \<Rightarrow> (('q, 'k) Forwarder, unit) prog" where
  "createConfigListener env =
     bnd (get_st (\<lambda>s. BrokerConfig (MainSettings (main_opt s)))) (\<lambda>u.
     bnd (of_res (new_Consumer (RdKafka env) (Broker env)
            (BrokerSettings_default\<lparr>Address := HostPort u, PollTimeoutMS := 0\<rparr>))) (\<lambda>c.
     case new_Listener (Broker env) (Topic u) c of
       (Inl e, c') \<Rightarrow> fail e
     | (Inr x, c') \<Rightarrow> upd_st (\<lambda>s. s\<lparr>config_listener := Some c'\<rparr>)))"

definition createPVUpdateTimerIfRequired :: "(('q, 'k) Forwarder, unit) prog" where
  "createPVUpdateTimerIfRequired = upd_st (\<lambda>s.
     if PeriodMS (main_opt s) > 0 then s\<lparr>PVUpdateTimer := Some new_Timer\<rparr> else s)"

definition createFakePVUpdateTimerIfRequired :: "(('q, 'k) Forwarder, unit) prog" where
  "createFakePVUpdateTimerIfRequired = upd_st (\<lambda>s.
     if FakePVPeriodMS (main_opt s) > 0 then s\<lparr>GenerateFakePVUpdateTimer := Some new_Timer\<rparr> else s)"

definition create_status_producer :: "('q, 'k) fwd_env \<Rightarrow> (('q, 'k) Forwarder, unit) prog" where
  "create_status_producer env =
     bnd (get_st (\<lambda>s. HostPort (StatusReportURI (MainSettings (main_opt s))))) (\<lambda>h.
     if h = [] then ret ()
     else bnd (on_kafka_set (on_instance_count
                 (new_Producer (RdKafka env) (BrokerSettings_default\<lparr>Address := h\<rparr>)))) (\<lambda>p.
          upd_st (\<lambda>s. s\<lparr>status_producer := Some p\<rparr>)))"

definition new_Forwarder :: "('q, 'k) fwd_env \<Rightarrow> (('q, 'k) Forwarder, unit) prog" where
  "new_Forwarder env =
     thn (upd_st (\<lambda>s. s\<lparr>SchemaItems := registerSchemas (SchemaItems s)\<rparr>))
     (thn (upd_st (\<lambda>s. s\<lparr>conversion_workers :=
             replicate (unat (ConversionThreads (MainSettings (main_opt s)))) False\<rparr>))
     (thn (createConfigListener env)
     (thn createPVUpdateTimerIfRequired
     (thn createFakePVUpdateTimerIfRequired
     (bnd (get_st (\<lambda>s. StreamsInfo (MainSettings (main_opt s)))) (\<lambda>ss.
      thn (for_each (\<lambda>st. try_catch (addMapping env st) (\<lambda>_. True) (\<lambda>_. ret ())) ss)
      (create_status_producer env)))))))"

end
