(* ===== verification/Stream_Growth.thy ===== *)
theory Stream_Growth
  imports Stream_Removal
begin

text \<open>
  Adding objects to the store: converters, producers, conversion paths, clients and streams, each with
  the lemma that the invariant \<open>store_ok\<close> is kept.
\<close>

section \<open>New objects\<close>

text \<open>
  From \<open>s\<close> to \<open>s'\<close> objects were added and none that a path uses was changed.
\<close>

definition grows :: "('q, 'k, 'z) stream_store_scheme \<Rightarrow> ('q, 'k, 'z) stream_store_scheme \<Rightarrow> bool" where
  "grows s s' \<longleftrightarrow> StreamList s' = StreamList s \<and> NextObj s \<le> NextObj s' \<and> Clients s' = Clients s
     \<and> (\<forall>p P. Paths s p = Some P \<longrightarrow> Paths s' p = Some P)
     \<and> (\<forall>p. path_ok s p \<longrightarrow> path_ok s' p \<and> output_of s' p = output_of s p)"

lemma grows_refl [simp]: "grows s s"
  by (simp add: grows_def)

lemma grows_trans: "grows s t \<Longrightarrow> grows t u \<Longrightarrow> grows s u"
  unfolding grows_def by (metis le_trans)

lemma streams_ok_grows:
  assumes "streams_ok s" "grows s s'" "\<forall>p P. Paths s' p = Some P \<longrightarrow> p < NextObj s'"
  shows "streams_ok s'"
proof -
  have g: "StreamList s' = StreamList s" "Clients s' = Clients s"
      "\<And>p. path_ok s p \<Longrightarrow> path_ok s' p \<and> output_of s' p = output_of s p"
    using assms(2) unfolding grows_def by blast+
  have "stream_ok s' st" if "st \<in> set (StreamList s)" for st
  proof -
    have ok: "stream_ok s st" using assms(1) that by (simp add: streams_ok_def)
    then have p: "\<forall>p \<in> set (ConversionPaths st). path_ok s' p \<and> output_of s' p = output_of s p"
      using g(3) unfolding stream_ok_def by blast
    then have "map (output_of s') (ConversionPaths st) = map (output_of s) (ConversionPaths st)" by simp
    then show ?thesis using ok p g(2) unfolding stream_ok_def by metis
  qed
  then show ?thesis using assms(1,3) by (simp add: streams_ok_def g(1))
qed

lemma store_ok_grows:
  assumes "store_ok pending s" "grows s s'" "\<forall>p P. Paths s' p = Some P \<longrightarrow> path_ok s' p"
    and "\<forall>i. Converters s' i \<noteq> None \<longrightarrow> i < NextObj s'" "instances_ok pending (KafkaSet s')"
  shows "store_ok pending s'"
proof -
  have g: "StreamList s' = StreamList s" "Clients s' = Clients s" "NextObj s \<le> NextObj s'"
    using assms(2) unfolding grows_def by blast+
  have "\<forall>p P. Paths s' p = Some P \<longrightarrow> p < NextObj s'" using assms(3) unfolding path_ok_def by blast
  then have "streams_ok s'"
    using streams_ok_grows [OF _ assms(2)] assms(1) unfolding store_ok_def by blast
  moreover have "\<forall>c. Clients s' c \<noteq> None \<longrightarrow> c < NextObj s'"
    using assms(1) g unfolding store_ok_def by (metis less_le_trans)
  moreover have "\<forall>st \<in> set (StreamList s'). stream_id st < NextObj s'"
    using assms(1) g unfolding store_ok_def by (metis less_le_trans)
  ultimately show ?thesis using assms(3,4,5) by (simp add: store_ok_def)
qed

lemma store_okD:
  assumes "store_ok pending s"
  shows "streams_ok s" "\<And>p P. Paths s p = Some P \<Longrightarrow> path_ok s p" "\<And>c. Clients s c \<noteq> None \<Longrightarrow> c < NextObj s"
    "\<And>i. Converters s i \<noteq> None \<Longrightarrow> i < NextObj s" "\<And>st. st \<in> set (StreamList s) \<Longrightarrow> stream_id st < NextObj s"
    "instances_ok pending (KafkaSet s)"
  using assms unfolding store_ok_def by blast+

text \<open>The fields of the forwarder that no object of the store depends on.\<close>

lemma store_ok_cong:
  assumes "Paths s' = Paths s" "Converters s' = Converters s" "KafkaSet s' = KafkaSet s"
    and "StreamList s' = StreamList s" "Clients s' = Clients s" "NextObj s' = NextObj s"
  shows "path_ok s' = path_ok s" "output_of s' = output_of s" "streams_ok s' = streams_ok s"
    "store_ok pending s' = store_ok pending s"
proof -
  show p: "path_ok s' = path_ok s" and o: "output_of s' = output_of s"
    using assms by (simp_all add: path_ok_def output_of_def fun_eq_iff)
  have "stream_ok s' = stream_ok s" using assms by (simp add: stream_ok_def p o fun_eq_iff)
  then show st: "streams_ok s' = streams_ok s" using assms by (simp add: streams_ok_def)
  show "store_ok pending s' = store_ok pending s" using assms st by (simp add: store_ok_def p)
qed

lemma stream_path_ok:
  "streams_ok s \<Longrightarrow> st \<in> set (StreamList s) \<Longrightarrow> p \<in> set (ConversionPaths st) \<Longrightarrow> path_ok s p"
  by (simp add: streams_ok_def stream_ok_def)

lemma stream_path_bound:
  "streams_ok s \<Longrightarrow> p \<in> set (concat (map ConversionPaths (StreamList s))) \<Longrightarrow> p < NextObj s"
  using stream_path_ok unfolding path_ok_def by fastforce

section \<open>Converters\<close>

lemma converter_added:
  assumes "store_ok pending s" "s' = s\<lparr>Converters := (Converters s)(NextObj s \<mapsto> c), NextObj := Suc (NextObj s)\<rparr>"
  shows "grows s s' \<and> store_ok pending s'"
proof -
  note ok = store_okD [OF assms(1)]
  have path: "path_ok s' p \<and> output_of s' p = output_of s p" if p: "path_ok s p" for p
  proof -
    from p obtain P where P: "Paths s p = Some P" "Converters s (path_converter P) \<noteq> None"
      unfolding path_ok_def by blast
    then have "path_converter P < NextObj s" by (intro ok(4))
    with p P show ?thesis by (auto simp: path_ok_def output_of_def assms(2))
  qed
  then have g: "grows s s'" by (simp add: grows_def assms(2))
  moreover have "store_ok pending s'"
  proof (rule store_ok_grows [OF assms(1) g])
    show "\<forall>p P. Paths s' p = Some P \<longrightarrow> path_ok s' p" using path ok(2) by (simp add: assms(2))
    show "\<forall>i. Converters s' i \<noteq> None \<longrightarrow> i < NextObj s'" using ok(4) by (auto simp: assms(2) less_Suc_eq)
    show "instances_ok pending (KafkaSet s')" using ok(6) by (simp add: assms(2))
  qed
  ultimately show ?thesis by blast
qed

lemma converter_dropped:
  assumes "store_ok pending s" "\<not> uses_converter s i"
    and "s' = s\<lparr>Converters := (Converters s)(i := None)\<rparr>"
  shows "grows s s' \<and> store_ok pending s'"
proof -
  note ok = store_okD [OF assms(1)]
  have path: "path_ok s' p \<and> output_of s' p = output_of s p" if p: "path_ok s p" for p
  proof -
    from p obtain P where P: "p < NextObj s" "Paths s p = Some P" unfolding path_ok_def by blast
    then have "path_converter P \<noteq> i" using assms(2) by (auto simp: uses_converter_iff)
    with p P show ?thesis by (auto simp: path_ok_def output_of_def assms(3))
  qed
  then have g: "grows s s'" by (simp add: grows_def assms(3))
  moreover have "store_ok pending s'"
  proof (rule store_ok_grows [OF assms(1) g])
    show "\<forall>p P. Paths s' p = Some P \<longrightarrow> path_ok s' p" using path ok(2) by (simp add: assms(3))
    show "\<forall>i. Converters s' i \<noteq> None \<longrightarrow> i < NextObj s'" using ok(4) by (auto simp: assms(3))
    show "instances_ok pending (KafkaSet s')" using ok(6) by (simp add: assms(3))
  qed
  ultimately show ?thesis by blast
qed

lemma used_converter: "store_ok pending s \<Longrightarrow> uses_converter s i \<Longrightarrow> Converters s i \<noteq> None"
  unfolding uses_converter_iff by (metis option.inject path_ok_def store_okD(2))

section \<open>Producers, paths and streams\<close>

lemma producers_added:
  assumes "store_ok pending s" "instances_ok pending ks"
    and "\<forall>i p. Producers (KafkaSet s) i = Some p \<longrightarrow> Producers ks i \<noteq> None" "s' = s\<lparr>KafkaSet := ks\<rparr>"
  shows "grows s s' \<and> store_ok pending s'"
proof -
  note ok = store_okD [OF assms(1)]
  have path: "path_ok s' p \<and> output_of s' p = output_of s p" if "path_ok s p" for p
    using that assms(3) unfolding path_ok_def assms(4) by (auto simp: output_of_def)
  then have g: "grows s s'" by (simp add: grows_def assms(4))
  moreover have "store_ok pending s'"
  proof (rule store_ok_grows [OF assms(1) g])
    show "\<forall>p P. Paths s' p = Some P \<longrightarrow> path_ok s' p" using path ok(2) by (simp add: assms(4))
    show "\<forall>i. Converters s' i \<noteq> None \<longrightarrow> i < NextObj s'" using ok(4) by (simp add: assms(4))
    show "instances_ok pending (KafkaSet s')" using assms(2) by (simp add: assms(4))
  qed
  ultimately show ?thesis by blast
qed

lemma path_added:
  assumes "store_ok pending s" "Converters s i \<noteq> None" "Producers (KafkaSet s) (KafkaProducer topic) \<noteq> None"
    and "s' = s\<lparr>Paths := (Paths s)(NextObj s \<mapsto> \<lparr>path_converter = i, kafka_output = topic\<rparr>),
                InTransit := (InTransit s)(NextObj s := 0), NextObj := Suc (NextObj s)\<rparr>"
  shows "grows s s' \<and> store_ok pending s' \<and> path_ok s' (NextObj s)"
proof -
  note ok = store_okD [OF assms(1)]
  have path: "path_ok s' p \<and> output_of s' p = output_of s p" if "path_ok s p" for p
    using that by (auto simp: path_ok_def output_of_def assms(4))
  have fresh: "Paths s (NextObj s) = None"
    using ok(2) unfolding path_ok_def by (metis less_irrefl option.exhaust)
  have new: "path_ok s' (NextObj s)" using assms(2,3) by (simp add: path_ok_def assms(4))
  have g: "grows s s'" using path fresh by (auto simp: grows_def assms(4))
  moreover have "store_ok pending s'"
  proof (rule store_ok_grows [OF assms(1) g])
    show "\<forall>p P. Paths s' p = Some P \<longrightarrow> path_ok s' p"
      using path ok(2) new by (auto simp: assms(4) split: if_splits)
    show "\<forall>i. Converters s' i \<noteq> None \<longrightarrow> i < NextObj s'" using ok(4) by (auto simp: assms(4) less_Suc_eq)
    show "instances_ok pending (KafkaSet s')" using ok(6) by (simp add: assms(4))
  qed
  ultimately show ?thesis using new by blast
qed

text \<open>A new stream with a new client.\<close>

lemma stream_added:
  assumes "store_ok pending s" "\<forall>st \<in> set (StreamList s). stream_channel st \<noteq> name"
    and "s' = s\<lparr>Clients := (Clients s)(NextObj s \<mapsto> c), NextObj := Suc (NextObj s),
                StreamList := StreamList s @ [new_Stream (NextObj s) provider name (Some (NextObj s))]\<rparr>"
  shows "store_ok pending s'"
proof -
  note ok = store_okD [OF assms(1)]
  have path: "path_ok s' p \<and> output_of s' p = output_of s p" if "path_ok s p" for p
    using that by (auto simp: path_ok_def output_of_def assms(3))
  have old: "stream_ok s' st" if st: "st \<in> set (StreamList s)" for st
  proof -
    have o: "stream_ok s st" using ok(1) st by (simp add: streams_ok_def)
    then have p: "\<forall>p \<in> set (ConversionPaths st). path_ok s' p \<and> output_of s' p = output_of s p"
      using path unfolding stream_ok_def by blast
    then have "map (output_of s') (ConversionPaths st) = map (output_of s) (ConversionPaths st)" by simp
    moreover obtain d where "Client st = Some d" "Clients s d \<noteq> None" using o unfolding stream_ok_def by blast
    then have "\<exists>d. Client st = Some d \<and> Clients s' d \<noteq> None" by (auto simp: assms(3))
    ultimately show ?thesis using o p unfolding stream_ok_def by metis
  qed
  have new: "stream_ok s' (new_Stream (NextObj s) provider name (Some (NextObj s)))"
    by (simp add: stream_ok_def new_Stream_def assms(3))
  have ids: "NextObj s \<notin> stream_id ` set (StreamList s)" using ok(5) by fastforce
  have "Some (NextObj s) \<notin> Client ` set (StreamList s)"
  proof
    assume "Some (NextObj s) \<in> Client ` set (StreamList s)"
    then obtain st where "st \<in> set (StreamList s)" "Client st = Some (NextObj s)" by force
    then have "Clients s (NextObj s) \<noteq> None" using ok(1) unfolding streams_ok_def stream_ok_def by fastforce
    then show False using ok(3) by blast
  qed
  then have "streams_ok s'"
    using ok(1,2) old new ids assms(2) unfolding streams_ok_def
    by (auto simp: assms(3) new_Stream_def less_Suc_eq path_ok_def)
  then show ?thesis
    using ok path unfolding store_ok_def by (auto simp: assms(3) new_Stream_def less_Suc_eq)
qed

text \<open>A path that no stream has is given to a stream.\<close>

lemma path_given:
  assumes "store_ok pending s" "StreamList s = ss @ [st]" "path_ok s p"
    and "p \<notin> set (concat (map ConversionPaths (StreamList s)))"
    and "output_of s p \<notin> output_of s ` set (ConversionPaths st)"
    and "s' = s\<lparr>StreamList := ss @ [st\<lparr>ConversionPaths := ConversionPaths st @ [p]\<rparr>]\<rparr>"
  shows "store_ok pending s'"
proof -
  note ok = store_okD [OF assms(1)]
  let ?st = "st\<lparr>ConversionPaths := ConversionPaths st @ [p]\<rparr>"
  have "stream_ok s ?st"
    using ok(1) assms(2,3,5) by (auto simp: streams_ok_def stream_ok_def)
  then have "streams_ok s'"
    using ok(1) assms(2,4) unfolding streams_ok_def by (auto simp: assms(6))
  then show ?thesis using ok assms(2) unfolding store_ok_def by (auto simp: assms(6))
qed

section \<open>Looking for an equal path\<close>

lemma same_output_iff:
  assumes "path_ok s p" "path_ok s q"
  shows "same_output s p q = Inr (output_of s p = output_of s q)"
proof -
  obtain P Q c d where "Paths s p = Some P" "Paths s q = Some Q" "Converters s (path_converter P) = Some c"
      "Converters s (path_converter Q) = Some d"
    using assms unfolding path_ok_def by blast
  then show ?thesis
    by (auto simp: same_output_def getKafkaTopicName_def getSchemaName_def output_of_def deref_def)
qed

lemma find_output_iff:
  "path_ok s p \<Longrightarrow> \<forall>q \<in> set ps. path_ok s q \<Longrightarrow>
   find_output s p ps = Inr (output_of s p \<in> output_of s ` set ps)"
  by (induction ps) (auto simp: same_output_iff)

text \<open>The topics a stream is forwarded to.\<close>

definition topics_of :: "('q, 'k, 'z) stream_store_scheme \<Rightarrow> Stream \<Rightarrow> string set" where
  "topics_of s st = {Name (kafka_output P) | p P. p \<in> set (ConversionPaths st) \<and> Paths s p = Some P}"

lemma topics_of_output:
  assumes "path_ok s p" "Paths s p = Some P" "output_of s p \<in> output_of s ` set (ConversionPaths st)"
    and "\<forall>q \<in> set (ConversionPaths st). path_ok s q"
  shows "Name (kafka_output P) \<in> topics_of s st"
proof -
  obtain q where q: "q \<in> set (ConversionPaths st)" "output_of s p = output_of s q" using assms(3) by blast
  obtain Q where Q: "Paths s q = Some Q" using assms(4) q(1) unfolding path_ok_def by blast
  have "Name (kafka_output P) = Name (kafka_output Q)"
    using same_output_iff [OF assms(1)] assms(1,2,4) q Q
    by (auto simp: output_of_def path_ok_def)
  with q(1) Q show ?thesis unfolding topics_of_def by blast
qed

lemma topics_of_grows: "grows s s' \<Longrightarrow> topics_of s st \<subseteq> topics_of s' st"
  unfolding topics_of_def grows_def by blast

end
