(* ===== verification/Forwarder_Objects.thy ===== *)
theory Forwarder_Objects
  imports Forwarder_Main Stream_Growth
begin

text \<open>
  The objects of the forwarder while streams and converters are added: \<open>addMapping\<close> keeps the invariant
  \<open>store_ok\<close> on every path through it, never crashes and, when it returns, has added one stream with a
  conversion path for every converter of the settings.
\<close>

section \<open>While a stream is being added\<close>

text \<open>
  The stream \<open>st0\<close> has been put at the end of the list \<open>ss\<close> and is already forwarded to the topics \<open>T\<close>;
  the paths of the other streams have the outputs \<open>out\<close> they had before.
\<close>

definition adding ::
  "('k \<Rightarrow> nat multiset) \<Rightarrow> MainOpt \<Rightarrow> Stream list \<Rightarrow> (nat \<Rightarrow> (string \<times> string) option) \<Rightarrow>
   Stream \<Rightarrow> string set \<Rightarrow> ('q, 'k) Forwarder \<Rightarrow> bool" where
  "adding pending Options ss out st0 T s \<longleftrightarrow> store_ok pending s \<and> main_opt s = Options
     \<and> (\<exists>ps. StreamList s = ss @ [st0\<lparr>ConversionPaths := ps\<rparr>]
          \<and> T \<subseteq> topics_of s (st0\<lparr>ConversionPaths := ps\<rparr>))
     \<and> (\<forall>p \<in> set (concat (map ConversionPaths ss)). output_of s p = out p)
     \<and> Client st0 = Some (stream_id st0)"

lemma addingI:
  "store_ok pending s \<Longrightarrow> main_opt s = Options \<Longrightarrow> StreamList s = ss @ [st0\<lparr>ConversionPaths := ps\<rparr>] \<Longrightarrow>
   T \<subseteq> topics_of s (st0\<lparr>ConversionPaths := ps\<rparr>) \<Longrightarrow>
   \<forall>p \<in> set (concat (map ConversionPaths ss)). output_of s p = out p \<Longrightarrow>
   Client st0 = Some (stream_id st0) \<Longrightarrow> adding pending Options ss out st0 T s"
  unfolding adding_def by blast

lemma adding_other_path:
  assumes "adding pending Options ss out st0 T s" "p \<in> set (concat (map ConversionPaths ss))"
  shows "path_ok s p" "p \<in> set (concat (map ConversionPaths (StreamList s)))"
proof -
  show in_list: "p \<in> set (concat (map ConversionPaths (StreamList s)))"
    using assms unfolding adding_def by auto
  have "streams_ok s" using assms(1) by (simp add: adding_def store_ok_def)
  with in_list show "path_ok s p" by (auto intro: stream_path_ok)
qed

lemma adding_outputs:
  assumes "adding pending Options ss out st0 T s"
    and "\<And>p. path_ok s p \<Longrightarrow> p \<in> set (concat (map ConversionPaths (StreamList s))) \<Longrightarrow> output_of s' p = output_of s p"
  shows "\<forall>p \<in> set (concat (map ConversionPaths ss)). output_of s' p = out p"
proof
  fix p assume p: "p \<in> set (concat (map ConversionPaths ss))"
  have "output_of s' p = output_of s p" by (rule assms(2) [OF adding_other_path [OF assms(1) p]])
  then show "output_of s' p = out p" using assms(1) p unfolding adding_def by metis
qed

text \<open>The operations on the store leave the other fields of the forwarder alone.\<close>

lemma frame_forwarder:
  fixes s s' :: "('q, 'k) Forwarder"
  assumes "frame X Y s s'"
  shows "main_opt s' = main_opt s" "SchemaItems s' = SchemaItems s" "converter_names s' = converter_names s"
    "PVUpdateTimer s' = PVUpdateTimer s" "GenerateFakePVUpdateTimer s' = GenerateFakePVUpdateTimer s"
    "conversion_workers s' = conversion_workers s" "config_listener s' = config_listener s"
    "status_producer s' = status_producer s" "ForwardingRunFlag s' = ForwardingRunFlag s"
    "forwarding_status s' = forwarding_status s"
  using frameD(12) [OF assms] by (cases s, cases s', simp)+

lemma adding_grows:
  assumes "adding pending Options ss out st0 T s" "grows s s'" "store_ok pending s'" "main_opt s' = main_opt s"
  shows "adding pending Options ss out st0 T s'"
proof -
  have list: "StreamList s' = StreamList s" using assms(2) by (simp add: grows_def)
  obtain ps where ps: "StreamList s = ss @ [st0\<lparr>ConversionPaths := ps\<rparr>]"
      "T \<subseteq> topics_of s (st0\<lparr>ConversionPaths := ps\<rparr>)"
    using assms(1) unfolding adding_def by blast
  then have "T \<subseteq> topics_of s' (st0\<lparr>ConversionPaths := ps\<rparr>)" using topics_of_grows [OF assms(2)] by blast
  moreover have "\<forall>p \<in> set (concat (map ConversionPaths ss)). output_of s' p = out p"
    by (rule adding_outputs [OF assms(1)]) (use assms(2) in \<open>simp add: grows_def\<close>)
  ultimately show ?thesis using assms(1,3,4) ps(1) list unfolding adding_def by metis
qed

lemma adding_frame:
  assumes "adding pending Options ss out st0 T s" "frame {} Y s s'" "main_opt s' = main_opt s"
  shows "adding pending Options ss out st0 T s'"
proof -
  obtain ps where ps: "StreamList s = ss @ [st0\<lparr>ConversionPaths := ps\<rparr>]"
      "T \<subseteq> topics_of s (st0\<lparr>ConversionPaths := ps\<rparr>)"
    using assms(1) unfolding adding_def by blast
  have "Paths s' = Paths s" using frameD(8) [OF assms(2)] by auto
  then have "topics_of s' = topics_of s" by (simp add: topics_of_def fun_eq_iff)
  moreover have "store_ok pending s'" using assms(1) store_ok_frame [OF _ assms(2)] by (simp add: adding_def)
  moreover have "\<forall>p \<in> set (concat (map ConversionPaths ss)). output_of s' p = out p"
    by (rule adding_outputs [OF assms(1)]) (simp add: frame_path [OF assms(2)])
  ultimately show ?thesis using assms(1,3) ps frameD(1) [OF assms(2)] unfolding adding_def by metis
qed

lemma addingD:
  assumes "adding pending Options ss out st0 T s"
  shows "store_ok pending s" "main_opt s = Options"
  using assms by (simp_all add: adding_def)

section \<open>Converters\<close>

lemma make_converter_ok:
  assumes "adding pending Options ss out st0 T s" "make_converter sch s = (r, s')"
  shows "adding pending Options ss out st0 T s' \<and> (case r of
      Inr i \<Rightarrow> conv_store.Converters s' i \<noteq> None | Inl f \<Rightarrow> \<exists>e. f = Throw e \<and> is_runtime_error e)"
proof (cases "Converter_create (SchemaItems s) sch")
  case None
  with assms show ?thesis by (auto simp: make_converter_def prog_defs)
next
  case (Some c)
  then have s': "r = Inr (NextObj s)" "s' = s\<lparr>conv_store.Converters := (conv_store.Converters s)(NextObj s \<mapsto> c),
        NextObj := Suc (NextObj s)\<rparr>"
    using assms(2) by (auto simp: make_converter_def prog_defs)
  from converter_added [OF addingD(1) [OF assms(1)] s'(2)]
  have "adding pending Options ss out st0 T s'" using adding_grows [OF assms(1)] by (simp add: s'(2))
  then show ?thesis by (simp add: s')
qed

lemma adding_cong:
  assumes "Paths s' = Paths s" "conv_store.Converters s' = conv_store.Converters s" "KafkaSet s' = KafkaSet s"
    and "StreamList s' = StreamList s" "Clients s' = Clients s" "NextObj s' = NextObj s" "main_opt s' = main_opt s"
  shows "adding pending Options ss out st0 T s' = adding pending Options ss out st0 T s"
proof -
  note cong = store_ok_cong [OF assms(1-6)]
  have "topics_of s' = topics_of s" by (simp add: topics_of_def fun_eq_iff assms(1))
  then show ?thesis by (simp add: adding_def cong assms(4,7))
qed

lemma adding_names:
  "adding pending Options ss out st0 T (s\<lparr>converter_names := n\<rparr>) = adding pending Options ss out st0 T s"
  by (rule adding_cong) simp_all

lemma find_converter_ok:
  assumes "adding pending Options ss out st0 T s" "find_converter ci s = (r, s')"
  shows "adding pending Options ss out st0 T s' \<and> (case r of
      Inr i \<Rightarrow> conv_store.Converters s' i \<noteq> None | Inl f \<Rightarrow> \<exists>e. f = Throw e \<and> is_runtime_error e)"
proof (cases "ConverterName ci = []")
  case True
  with assms(2) show ?thesis by (intro make_converter_ok [OF assms(1)]) (simp add: find_converter_def)
next
  case False
  let ?found = "case converter_names s (ConverterName ci) of
      None \<Rightarrow> None | Some i \<Rightarrow> (if uses_converter s i then Some i else None)"
  show ?thesis
  proof (cases ?found)
    case None
    obtain r1 s1 where m: "make_converter (Schema ci) s = (r1, s1)" by fastforce
    note mok = make_converter_ok [OF assms(1) m]
    show ?thesis
    proof (cases r1)
      case (Inl f)
      with False None m assms(2) have "r = Inl f" "s' = s1" by (auto simp: find_converter_def prog_defs)
      with mok Inl show ?thesis by simp
    next
      case (Inr i)
      with False None m assms(2) have "r = Inr i"
          "s' = s1\<lparr>converter_names := (converter_names s1)(ConverterName ci \<mapsto> i)\<rparr>"
        by (auto simp: find_converter_def prog_defs)
      with mok Inr show ?thesis by (simp add: adding_names)
    qed
  next
    case (Some i)
    with False assms(2) have "r = Inr i" "s' = s" by (auto simp: find_converter_def prog_defs)
    moreover have "uses_converter s i" using Some by (auto split: option.splits if_splits)
    ultimately show ?thesis using used_converter [OF addingD(1)] assms(1) by auto
  qed
qed

section \<open>Topics and paths\<close>

lemma create_topic_ok:
  assumes "rd_client K pending" "adding pending Options ss out st0 T s" "on_kafka_set (createProducerTopic K u) s = (r, s')"
  shows "adding pending Options ss out st0 T s' \<and> conv_store.Converters s' = conv_store.Converters s
     \<and> (case r of
          Inr t \<Rightarrow> Name t = Topic u \<and> Producers (KafkaSet s') (KafkaProducer t) \<noteq> None
        | Inl f \<Rightarrow> \<exists>e. f = Throw e \<and> is_runtime_error e)"
proof -
  obtain ks where run: "createProducerTopic K u (KafkaSet s) = (r, ks)" and s': "s' = s\<lparr>KafkaSet := ks\<rparr>"
    using assms(3) by (auto simp: on_kafka_set_def split: prod.splits)
  note ok = rd_client.createProducerTopic_ok [OF assms(1) store_okD(6) [OF addingD(1) [OF assms(2)]] run]
  have "grows s s' \<and> store_ok pending s'"
    by (rule producers_added [OF addingD(1) [OF assms(2)] _ _ s']) (use ok in auto)
  then have "adding pending Options ss out st0 T s'" using adding_grows [OF assms(2)] by (simp add: s')
  moreover have "Producers ks (KafkaProducer t) \<noteq> None" if "r = Inr t" for t
    using ok that by (auto simp: brokerAddress_def deref_def split: option.splits)
  ultimately show ?thesis using ok by (auto simp: s' split: sum.splits)
qed

lemma drop_converter_ok:
  assumes "adding pending Options ss out st0 T s"
  shows "\<exists>s'. drop_converter i s = (Inr (), s') \<and> adding pending Options ss out st0 T s'"
proof (cases "uses_converter s i")
  case True
  with assms show ?thesis by (simp add: drop_converter_def prog_defs)
next
  case False
  let ?s = "s\<lparr>conv_store.Converters := (conv_store.Converters s)(i := None)\<rparr>"
  have "adding pending Options ss out st0 T ?s"
    using adding_grows [OF assms] converter_dropped [OF addingD(1) [OF assms] False refl] by simp
  with False show ?thesis by (simp add: drop_converter_def prog_defs)
qed

lemma make_path_ok:
  assumes "adding pending Options ss out st0 T s" "conv_store.Converters s i \<noteq> None"
    and "Producers (KafkaSet s) (KafkaProducer topic) \<noteq> None"
  shows "\<exists>s' p P. make_path i topic s = (Inr p, s') \<and> adding pending Options ss out st0 T s' \<and> path_ok s' p
     \<and> Paths s' p = Some P \<and> kafka_output P = topic \<and> InTransit s' p = 0
     \<and> p \<notin> set (concat (map ConversionPaths (StreamList s')))"
proof -
  let ?P = "\<lparr>path_converter = i, kafka_output = topic\<rparr>"
  define s' where "s' = s\<lparr>Paths := (Paths s)(NextObj s \<mapsto> ?P), InTransit := (InTransit s)(NextObj s := 0),
     NextObj := Suc (NextObj s)\<rparr>"
  note ok = addingD(1) [OF assms(1)]
  have "grows s s' \<and> store_ok pending s' \<and> path_ok s' (NextObj s)"
    by (rule path_added [OF ok assms(2,3) s'_def])
  then have "adding pending Options ss out st0 T s'" "path_ok s' (NextObj s)"
    using adding_grows [OF assms(1)] by (simp_all add: s'_def)
  moreover have "NextObj s \<notin> set (concat (map ConversionPaths (StreamList s)))"
    using stream_path_bound [OF store_okD(1) [OF ok]] by blast
  moreover have "make_path i topic s = (Inr (NextObj s), s')" by (simp add: make_path_def prog_defs s'_def)
  ultimately show ?thesis by (intro exI [of _ s'] exI [of _ "NextObj s"] exI [of _ ?P]) (simp add: s'_def)
qed

text \<open>The stream that is being added is the only one with its identity.\<close>

lemma adding_last:
  assumes "adding pending Options ss out st0 T s" "StreamList s = ss @ [st0\<lparr>ConversionPaths := ps\<rparr>]"
  shows "find (\<lambda>st. stream_id st = stream_id st0) (StreamList s) = Some (st0\<lparr>ConversionPaths := ps\<rparr>)
     \<and> map (\<lambda>st. if stream_id st = stream_id st0 then st\<lparr>ConversionPaths := qs\<rparr> else st) (StreamList s) =
       ss @ [st0\<lparr>ConversionPaths := qs\<rparr>]"
proof -
  have "distinct (map stream_id (StreamList s))"
    using store_okD(1) [OF addingD(1) [OF assms(1)]] by (simp add: streams_ok_def)
  then have "stream_id st0 \<notin> stream_id ` set ss" using assms(2) by simp
  then have fresh: "\<forall>st \<in> set ss. stream_id st \<noteq> stream_id st0" by (metis imageI)
  then have "find (\<lambda>st. stream_id st = stream_id st0) ss = None" by (simp add: find_None_iff)
  then have "find (\<lambda>st. stream_id st = stream_id st0) (ss @ [st0\<lparr>ConversionPaths := ps\<rparr>])
      = Some (st0\<lparr>ConversionPaths := ps\<rparr>)"
    by (induction ss) (auto split: if_splits)
  moreover have "map (\<lambda>st. if stream_id st = stream_id st0 then st\<lparr>ConversionPaths := qs\<rparr> else st) ss = ss"
    using fresh by (simp add: map_idI)
  ultimately show ?thesis using assms(2) by simp
qed

lemma add_path_ok:
  assumes "adding pending Options ss out st0 T s" "path_ok s p" "Paths s p = Some P" "InTransit s p = 0"
    and "p \<notin> set (concat (map ConversionPaths (StreamList s)))"
  shows "\<exists>s'. add_path (stream_id st0) p s = (Inr (), s')
     \<and> adding pending Options ss out st0 (insert (Name (kafka_output P)) T) s'"
proof -
  obtain ps where ps: "StreamList s = ss @ [st0\<lparr>ConversionPaths := ps\<rparr>]"
      "T \<subseteq> topics_of s (st0\<lparr>ConversionPaths := ps\<rparr>)"
    using assms(1) unfolding adding_def by blast
  let ?st = "st0\<lparr>ConversionPaths := ps\<rparr>"
  note ok = addingD(1) [OF assms(1)] and last = adding_last [OF assms(1) ps(1)]
  have oks: "\<forall>q \<in> set (ConversionPaths ?st). path_ok s q"
  proof
    fix q assume q: "q \<in> set (ConversionPaths ?st)"
    have "?st \<in> set (StreamList s)" using ps(1) by simp
    then show "path_ok s q" using stream_path_ok [OF store_okD(1) [OF ok]] q by blast
  qed
  have found: "find_output s p ps = Inr (output_of s p \<in> output_of s ` set ps)"
    using find_output_iff [OF assms(2), of ps] oks by simp
  show ?thesis
  proof (cases "output_of s p \<in> output_of s ` set ps")
    case False
    let ?s = "s\<lparr>StreamList := ss @ [st0\<lparr>ConversionPaths := ps @ [p]\<rparr>]\<rparr>"
    have "store_ok pending ?s"
      using path_given [OF ok ps(1) assms(2,5), of ?s] False by simp
    moreover have "insert (Name (kafka_output P)) T \<subseteq> topics_of ?s (st0\<lparr>ConversionPaths := ps @ [p]\<rparr>)"
    proof -
      have "topics_of s ?st \<subseteq> topics_of ?s (st0\<lparr>ConversionPaths := ps @ [p]\<rparr>)"
        unfolding topics_of_def by auto
      moreover have "Name (kafka_output P) \<in> topics_of ?s (st0\<lparr>ConversionPaths := ps @ [p]\<rparr>)"
        using assms(3) unfolding topics_of_def by auto
      ultimately show ?thesis using ps(2) by blast
    qed
    moreover have "\<forall>p \<in> set (concat (map ConversionPaths ss)). output_of ?s p = out p"
      by (rule adding_outputs [OF assms(1)]) simp
    ultimately have "adding pending Options ss out st0 (insert (Name (kafka_output P)) T) ?s"
      using assms(1) unfolding adding_def by auto
    moreover have "add_path (stream_id st0) p s = (Inr (), ?s)"
      using last found False by (simp add: add_path_def addConverter_def prog_defs deref_def)
    ultimately show ?thesis by blast
  next
    case True
    have "Name (kafka_output P) \<in> topics_of s ?st"
      using topics_of_output [OF assms(2,3) _ oks] True by simp
    moreover have "s\<lparr>StreamList := ss @ [?st]\<rparr> = s" using ps(1) by simp
    then have "add_path (stream_id st0) p s = delete_ConversionPath p s"
      using last found True by (simp add: add_path_def addConverter_def prog_defs deref_def)
    moreover obtain s' where s': "delete_ConversionPath p s = (Inr (), s')" "Paths s' = (Paths s)(p := None)"
      using delete_ConversionPath_run [OF assms(4,3)] by blast
    moreover have f: "frame {p} {} s s'" using delete_ConversionPath_frame [of p s] by (simp add: s'(1))
    have "topics_of s ?st \<subseteq> topics_of s' ?st"
      using assms(5) ps(1) s'(2) unfolding topics_of_def by auto
    moreover have "streams_ok s'"
      using streams_ok_removed [OF store_okD(1) [OF ok], of "{p}" "{}" "\<lambda>_. True" s'] f assms(5) by auto
    then have "store_ok pending s'"
      using store_ok_frame_removed [OF ok, of "{p}" "{}" "\<lambda>_. True" s'] f by simp
    moreover have "\<forall>p \<in> set (concat (map ConversionPaths ss)). output_of s' p = out p"
    proof (rule adding_outputs [OF assms(1)])
      fix q assume q: "path_ok s q" "q \<in> set (concat (map ConversionPaths (StreamList s)))"
      then have "q \<notin> {p}" using assms(5) by blast
      then show "output_of s' q = output_of s q" using frame_path [OF f _ q(1)] by blast
    qed
    moreover have "main_opt s' = main_opt s" by (rule frame_forwarder(1) [OF f])
    moreover have "main_opt s = Options" "Client st0 = Some (stream_id st0)"
      using assms(1) by (simp_all add: adding_def)
    moreover have "StreamList s' = ss @ [?st]" using frameD(1) [OF f] ps(1) by simp
    moreover note ps(2)
    ultimately have "adding pending Options ss out st0 (insert (Name (kafka_output P)) T) s'"
      by (intro addingI [where ps = ps]) auto
    with \<open>add_path (stream_id st0) p s = delete_ConversionPath p s\<close> s'(1) show ?thesis by simp
  qed
qed

section \<open>Converters of a stream\<close>

lemma parse_throws: "parse t u = (Inl f, u') \<Longrightarrow> \<exists>e. f = Throw e"
  by (auto simp: parse_def stoi_digits_def prog_defs Let_def split: option.splits if_splits sum.splits prod.splits)

lemma createTopicURI_throws: "createTopicURI Options ci = Inl f \<Longrightarrow> \<exists>e. f = Throw e"
  by (auto simp: createTopicURI_def Let_def try_catch_def raise_def fail_def
      split: prod.splits sum.splits failure.splits if_splits dest: parse_throws)

lemma pushConverterToStream_ok:
  assumes "rd_client (RdKafka env) pending" "adding pending Options ss out st0 T s"
    and "pushConverterToStream env (stream_id st0) ci s = (r, s')"
  shows "case r of
      Inr x \<Rightarrow> \<exists>u. createTopicURI Options ci = Inr u \<and> adding pending Options ss out st0 (insert (Topic u) T) s'
    | Inl f \<Rightarrow> (\<exists>e. f = Throw e) \<and> adding pending Options ss out st0 T s'"
proof -
  note opts = addingD(2) [OF assms(2)]
  consider (schema) "SchemaItems s (Schema ci) = None"
    | (topic) f where "SchemaItems s (Schema ci) \<noteq> None" "createTopicURI Options ci = Inl f"
    | (found) u where "SchemaItems s (Schema ci) \<noteq> None" "createTopicURI Options ci = Inr u"
    by (cases "createTopicURI Options ci") auto
  then show ?thesis
  proof cases
    case schema
    with assms(2,3) show ?thesis by (auto simp: pushConverterToStream_def prog_defs)
  next
    case topic
    with assms(2,3) show ?thesis
      by (auto simp: pushConverterToStream_def prog_defs opts dest: createTopicURI_throws)
  next
    case found
    obtain rc s1 where rc: "find_converter ci s = (rc, s1)" by fastforce
    note conv = find_converter_ok [OF assms(2) rc]
    show ?thesis
    proof (cases rc)
      case (Inl f)
      with found rc assms(3) have "r = Inl f" "s' = s1" by (auto simp: pushConverterToStream_def prog_defs opts)
      with conv Inl show ?thesis by auto
    next
      case (Inr i)
      obtain rt s2 where rt: "on_kafka_set (createProducerTopic (RdKafka env) u) s1 = (rt, s2)" by fastforce
      have ad1: "adding pending Options ss out st0 T s1" "conv_store.Converters s1 i \<noteq> None" using conv Inr by auto
      note topic = create_topic_ok [OF assms(1) ad1(1) rt]
      show ?thesis
      proof (cases rt)
        case (Inl f)
        then obtain e where e: "rt = Inl (Throw e)" using topic by auto
        obtain s3 where "drop_converter i s2 = (Inr (), s3)" "adding pending Options ss out st0 T s3"
          using drop_converter_ok topic by blast
        with found rc Inr rt e assms(3) show ?thesis
          by (auto simp: pushConverterToStream_def prog_defs opts)
      next
        case t: (Inr t)
        have ad2: "adding pending Options ss out st0 T s2" "conv_store.Converters s2 i \<noteq> None"
            "Producers (KafkaSet s2) (KafkaProducer t) \<noteq> None" and name: "Name t = Topic u"
          using topic t ad1(2) by auto
        obtain s3 p P where s3: "make_path i t s2 = (Inr p, s3)" "adding pending Options ss out st0 T s3"
            "path_ok s3 p" "Paths s3 p = Some P" "kafka_output P = t" "InTransit s3 p = 0"
            "p \<notin> set (concat (map ConversionPaths (StreamList s3)))"
          using make_path_ok [OF ad2] by blast
        obtain s4 where s4: "add_path (stream_id st0) p s3 = (Inr (), s4)"
            "adding pending Options ss out st0 (insert (Name (kafka_output P)) T) s4"
          using add_path_ok [OF s3(2,3,4,6,7)] by blast
        have "pushConverterToStream env (stream_id st0) ci s = (Inr (), s4)"
          using found rc Inr rt t s3(1) s4(1) by (simp add: pushConverterToStream_def prog_defs opts)
        then show ?thesis using assms(3) s4(2) found(2) by (auto simp: s3(5) name)
      qed
    qed
  qed
qed

definition topics_wanted :: "MainOpt \<Rightarrow> ConverterSettings list \<Rightarrow> string set" where
  "topics_wanted Options cs = {Topic u | c u. c \<in> set cs \<and> createTopicURI Options c = Inr u}"

lemma pushConverters_ok:
  assumes "rd_client (RdKafka env) pending" "adding pending Options ss out st0 T s"
    and "for_each (pushConverterToStream env (stream_id st0)) cs s = (r, s')"
  shows "case r of
      Inr x \<Rightarrow> (\<forall>c \<in> set cs. \<exists>u. createTopicURI Options c = Inr u)
         \<and> adding pending Options ss out st0 (T \<union> topics_wanted Options cs) s'
    | Inl f \<Rightarrow> (\<exists>e. f = Throw e) \<and> (\<exists>T. adding pending Options ss out st0 T s')"
  using assms(2,3)
proof (induction cs arbitrary: T s)
  case Nil
  then show ?case by (auto simp: prog_defs topics_wanted_def)
next
  case (Cons c cs)
  obtain r1 s1 where r1: "pushConverterToStream env (stream_id st0) c s = (r1, s1)" by fastforce
  note push = pushConverterToStream_ok [OF assms(1) Cons.prems(1) r1]
  show ?case
  proof (cases r1)
    case (Inl f)
    with r1 Cons.prems(2) have "r = Inl f" "s' = s1" by (auto simp: prog_defs)
    with push Inl show ?thesis by auto
  next
    case (Inr x)
    then obtain u where u: "createTopicURI Options c = Inr u" "adding pending Options ss out st0 (insert (Topic u) T) s1"
      using push by auto
    have "for_each (pushConverterToStream env (stream_id st0)) cs s1 = (r, s')"
      using r1 Inr Cons.prems(2) by (simp add: prog_defs)
    note rest = Cons.IH [OF u(2) this]
    have "insert (Topic u) T \<union> topics_wanted Options cs = T \<union> topics_wanted Options (c # cs)"
      using u(1) by (auto simp: topics_wanted_def)
    with rest u(1) show ?thesis by (auto split: sum.splits)
  qed
qed

end
