(* ===== verification/Forwarder_Mapping.thy ===== *)
theory Forwarder_Mapping
  imports Forwarder_Objects
begin

text \<open>
  \<open>Forwarder::addMapping\<close>: what it leaves when it returns and when it throws, in the middle of the work too.
\<close>

section \<open>The new stream\<close>

lemma make_client_throws:
  "make_client env random provider name = Inl f \<Longrightarrow> \<exists>e. f = Throw e \<and> is_runtime_error e"
  by (auto simp: make_client_def new_EpicsClientMonitor_def impl_init_def prog_defs
      split: if_splits prod.splits sum.splits)

lemma addStream_ok:
  assumes "store_ok pending s" "addStream env random provider name s = (r, s')"
  shows "case r of
      Inr st \<Rightarrow> st = new_Stream (NextObj s) provider name (Some (NextObj s))
         \<and> (\<forall>x \<in> set (StreamList s). stream_channel x \<noteq> name)
         \<and> adding pending (main_opt s) (StreamList s) (output_of s) st {} s'
         \<and> PVUpdateTimer s' = PVUpdateTimer s \<and> GenerateFakePVUpdateTimer s' = GenerateFakePVUpdateTimer s
    | Inl f \<Rightarrow> (\<exists>e. f = Throw e \<and> is_runtime_error e) \<and> s' = s"
proof (cases "getStreamByChannelName s name")
  case (Some st)
  with assms(2) show ?thesis by (auto simp: addStream_def prog_defs)
next
  case None
  then have new: "\<forall>x \<in> set (StreamList s). stream_channel x \<noteq> name"
    by (simp add: getStreamByChannelName_def find_None_iff)
  show ?thesis
  proof (cases "make_client env random provider name")
    case (Inl f)
    with None assms(2) make_client_throws [OF Inl] show ?thesis by (auto simp: addStream_def prog_defs)
  next
    case (Inr c)
    let ?st = "new_Stream (NextObj s) provider name (Some (NextObj s))"
    have r: "r = Inr ?st" and s': "s' = s\<lparr>Clients := (Clients s)(NextObj s \<mapsto> c), NextObj := Suc (NextObj s),
        StreamList := StreamList s @ [?st]\<rparr>"
      using None Inr assms(2) by (auto simp: addStream_def streams_add_def prog_defs)
    have "store_ok pending s'" by (rule stream_added [OF assms(1) new s'])
    moreover have "output_of s' = output_of s" by (simp add: s' output_of_def fun_eq_iff)
    ultimately have "adding pending (main_opt s) (StreamList s) (output_of s) ?st {} s'"
      by (intro addingI [where ps = "[]"]) (simp_all add: s' new_Stream_def)
    with r new show ?thesis by (simp add: s')
  qed
qed

lemma client_settings_return:
  "\<exists>c'. client_setServiceID n c = (Inr (), c')" "\<exists>c'. client_setProducer t c = (Inr (), c')"
  by (cases c; simp add: setServiceID_def setProducer_def prog_defs)+

lemma on_client_adding:
  assumes "adding pending Options ss out st0 T s" "\<And>c. \<exists>c'. m c = (Inr (), c')"
  shows "\<exists>s'. on_client (Client st0) m s = (Inr (), s') \<and> adding pending Options ss out st0 T s'"
proof -
  obtain ps where "StreamList s = ss @ [st0\<lparr>ConversionPaths := ps\<rparr>]" using assms(1) unfolding adding_def by blast
  then have "Stream_Set.stream_ok s (st0\<lparr>ConversionPaths := ps\<rparr>)"
    using store_okD(1) [OF addingD(1) [OF assms(1)]] by (simp add: streams_ok_def)
  then obtain c cl where c: "Client st0 = Some c" "Clients s c = Some cl" by (auto simp: Stream_Set.stream_ok_def)
  obtain cl' where cl': "m cl = (Inr (), cl')" using assms(2) by blast
  let ?s = "s\<lparr>Clients := (Clients s)(c \<mapsto> cl')\<rparr>"
  have run: "on_client (Client st0) m s = (Inr (), ?s)" using c cl' by (simp add: on_client_def)
  then have "frame {} {Client st0} s ?s" using on_client_frame [of "{}" "Client st0" s m] by simp
  then have "adding pending Options ss out st0 T ?s" by (rule adding_frame [OF assms(1)]) simp
  with run show ?thesis by blast
qed

section \<open>The rest of the mapping\<close>

lemma new_URI_throws: "new_URI t = Inl f \<Longrightarrow> \<exists>e. f = Throw e"
  by (auto simp: new_URI_def split: prod.splits sum.splits dest: parse_throws)

lemma set_status_producer_ok:
  assumes "rd_client (RdKafka env) pending" "adding pending Options ss out st0 T s"
    and "set_status_producer env st0 cs s = (r, s')"
  shows "adding pending Options ss out st0 T s' \<and> (\<forall>f. r = Inl f \<longrightarrow> (\<exists>e. f = Throw e))"
proof (cases cs)
  case Nil
  with assms(2,3) show ?thesis by (auto simp: set_status_producer_def prog_defs)
next
  case (Cons c cs')
  show ?thesis
  proof (cases "new_URI (ConverterTopic c)")
    case (Inl f)
    with Cons assms(2,3) show ?thesis by (auto simp: set_status_producer_def prog_defs dest: new_URI_throws)
  next
    case (Inr u)
    obtain rt s1 where rt: "on_kafka_set (createProducerTopic (RdKafka env) u) s = (rt, s1)" by fastforce
    note topic = create_topic_ok [OF assms(1,2) rt]
    show ?thesis
    proof (cases rt)
      case (Inl f)
      with Cons Inr rt assms(3) have "r = Inl f" "s' = s1" by (auto simp: set_status_producer_def prog_defs)
      with topic Inl show ?thesis by auto
    next
      case t: (Inr t)
      obtain s2 where "on_client (Client st0) (client_setProducer t) s1 = (Inr (), s2)"
          "adding pending Options ss out st0 T s2"
        using on_client_adding [of pending Options ss out st0 T s1 "client_setProducer t"] topic
          client_settings_return(2) by blast
      with Cons Inr rt t assms(3) show ?thesis by (auto simp: set_status_producer_def prog_defs)
    qed
  qed
qed

lemma map_converters_ok:
  assumes "rd_client (RdKafka env) pending" "adding pending Options ss out st0 {} s"
    and "map_converters env Options st0 cs s = (r, s')"
  shows "case r of
      Inr x \<Rightarrow> (\<forall>c \<in> set cs. \<exists>u. createTopicURI Options c = Inr u)
         \<and> adding pending Options ss out st0 (topics_wanted Options cs) s'
    | Inl f \<Rightarrow> (\<exists>e. f = Throw e) \<and> (\<exists>T. adding pending Options ss out st0 T s')"
proof -
  obtain r1 s1 where r1: "set_status_producer env st0 cs s = (r1, s1)" by fastforce
  note ok1 = set_status_producer_ok [OF assms(1,2) r1]
  show ?thesis
  proof (cases r1)
    case (Inl f)
    with r1 assms(3) have "r = Inl f" "s' = s1" by (auto simp: map_converters_def prog_defs)
    with ok1 Inl show ?thesis by auto
  next
    case (Inr x)
    let ?id = "client_setServiceID (ConfigSettings.ServiceID (MainSettings Options))"
    obtain s2 where s2: "on_client (Client st0) ?id s1 = (Inr (), s2)" "adding pending Options ss out st0 {} s2"
      using on_client_adding [of pending Options ss out st0 "{}" s1 ?id] ok1 client_settings_return(1) by blast
    have "for_each (pushConverterToStream env (stream_id st0)) cs s2 = (r, s')"
      using r1 Inr s2(1) assms(3) by (simp add: map_converters_def prog_defs)
    from pushConverters_ok [OF assms(1) s2(2) this, unfolded Un_empty_left] show ?thesis .
  qed
qed

text \<open>The callbacks of the timers are no objects of the store.\<close>

definition with_callbacks ::
  "bool \<Rightarrow> bool \<Rightarrow> Stream \<Rightarrow> ('q, 'k) Forwarder \<Rightarrow> ('q, 'k) Forwarder" where
  "with_callbacks fake periodic st s = (let
     s1 = (if fake then s\<lparr>GenerateFakePVUpdateTimer :=
             register_callback (GenerateFake (the (Client st))) (GenerateFakePVUpdateTimer s)\<rparr> else s) in
     if periodic then s1\<lparr>PVUpdateTimer :=
             register_callback (EmitCached (if fake then None else Client st)) (PVUpdateTimer s1)\<rparr> else s1)"

lemma adding_callbacks:
  "adding pending Options ss out st0 T (with_callbacks fake periodic st s) = adding pending Options ss out st0 T s"
  by (rule adding_cong) (simp_all add: with_callbacks_def Let_def)

lemma addMapping_run:
  "addMapping env si s =
     (case addStream env (GenerateFakePVUpdateTimer s \<noteq> None) (EpicsProtocol si) (StreamName si) s of
        (Inl f, s1) \<Rightarrow> try_catch (fail f) is_runtime_error
                        (\<lambda>e. raise (Nested (MappingAddException ''Cannot add stream'') e)) s1
      | (Inr st, s1) \<Rightarrow>
          try_catch (map_converters env (main_opt s) st (StreamSettings.Converters si)) is_runtime_error
            (\<lambda>e. raise (Nested (MappingAddException ''Cannot add stream'') e))
            (with_callbacks (GenerateFakePVUpdateTimer s \<noteq> None) (PVUpdateTimer s \<noteq> None) st s1))"
  by (auto simp: addMapping_def prog_defs with_callbacks_def Let_def split: prod.splits sum.splits)

text \<open>The outcome of \<open>addMapping\<close>: the new stream is at the end of the list, or nothing was done.\<close>

lemma addMapping_ok:
  assumes "rd_client (RdKafka env) pending" "store_ok pending s" "addMapping env si s = (r, s')"
  shows "(s' = s \<or> (\<exists>st T. st = new_Stream (NextObj s) (EpicsProtocol si) (StreamName si) (Some (NextObj s))
            \<and> (\<forall>x \<in> set (StreamList s). stream_channel x \<noteq> StreamName si)
            \<and> adding pending (main_opt s) (StreamList s) (output_of s) st T s'
            \<and> (r = Inr () \<longrightarrow> T = topics_wanted (main_opt s) (StreamSettings.Converters si)
                 \<and> (\<forall>c \<in> set (StreamSettings.Converters si). \<exists>u. createTopicURI (main_opt s) c = Inr u))))
       \<and> (r = Inr () \<longrightarrow> s' \<noteq> s)
       \<and> (\<forall>f. r = Inl f \<longrightarrow> (\<exists>e. f = Throw e \<and> (is_runtime_error e \<longrightarrow>
             (\<exists>e'. e = Nested (MappingAddException ''Cannot add stream'') e' \<and> is_runtime_error e'))))"
proof -
  let ?fake = "GenerateFakePVUpdateTimer s \<noteq> None" and ?per = "PVUpdateTimer s \<noteq> None"
  obtain r1 s1 where r1: "addStream env ?fake (EpicsProtocol si) (StreamName si) s = (r1, s1)" by fastforce
  note add = addStream_ok [OF assms(2) r1]
  show ?thesis
  proof (cases r1)
    case (Inl f)
    with add r1 assms(3) show ?thesis by (auto simp: addMapping_run prog_defs)
  next
    case (Inr st)
    let ?s2 = "with_callbacks ?fake ?per st s1"
    obtain r2 s3 where r2: "map_converters env (main_opt s) st (StreamSettings.Converters si) ?s2 = (r2, s3)" by fastforce
    have ad: "adding pending (main_opt s) (StreamList s) (output_of s) st {} ?s2"
      unfolding adding_callbacks using add [unfolded Inr, simplified sum.case] by (elim conjE)
    note conv = map_converters_ok [OF assms(1) ad r2]
    then obtain T where T: "adding pending (main_opt s) (StreamList s) (output_of s) st T s3"
        "r2 = Inr () \<longrightarrow> T = topics_wanted (main_opt s) (StreamSettings.Converters si)"
      by (cases r2) auto
    then have "StreamList s3 \<noteq> StreamList s" by (auto simp: adding_def)
    then have new: "s3 \<noteq> s" by auto
    have s': "s' = s3" "r = Inr () \<longrightarrow> r2 = Inr ()"
      using r1 r2 Inr assms(3)
      by (auto simp: addMapping_run prog_defs split: sum.splits failure.splits if_splits)
    moreover have "\<exists>e. f = Throw e \<and> (is_runtime_error e \<longrightarrow>
             (\<exists>e'. e = Nested (MappingAddException ''Cannot add stream'') e' \<and> is_runtime_error e'))" if "r = Inl f" for f
      using r1 r2 Inr assms(3) conv that
      by (auto simp: addMapping_run prog_defs split: sum.splits failure.splits if_splits)
    ultimately show ?thesis using T add Inr conv new by auto
  qed
qed

lemma addMapping_outcome:
  assumes "rd_client (RdKafka env) pending" "store_ok pending s"
  shows "store_ok pending (snd (addMapping env si s)) \<and> (\<forall>f. fst (addMapping env si s) = Inl f \<longrightarrow> f \<in> thrown)"
proof -
  obtain r s' where r: "addMapping env si s = (r, s')" by fastforce
  note out = addMapping_ok [OF assms r]
  then have "store_ok pending s'" using assms(2) addingD(1) by blast
  with out r show ?thesis by auto
qed

lemma addMapping_fails:
  "rd_client (RdKafka env) pending \<Longrightarrow> fails_only thrown (store_ok pending) (addMapping env si)"
  by (rule fails_onlyI) (rule addMapping_outcome)

section \<open>Properties\<close>

text \<open>C11: When \<open>Forwarder::addMapping\<close> returns, no stream had the channel before, and the list of streams
  is the old one with one stream more at its end, for that channel and protocol, which has a
  conversion path to the topic of every converter of the settings; the paths of the other streams
  still lead to the same topics with the same schemas.\<close>

theorem addMapping_adds_stream:
  assumes "rd_client (RdKafka env) pending" "store_ok pending s" "addMapping env si s = (Inr (), s')"
  shows "\<exists>st. StreamList s' = StreamList s @ [st] \<and> stream_channel st = StreamName si
     \<and> provider_type st = EpicsProtocol si \<and> (\<forall>x \<in> set (StreamList s). stream_channel x \<noteq> StreamName si)
     \<and> (\<forall>c \<in> set (StreamSettings.Converters si). \<exists>u. createTopicURI (main_opt s) c = Inr u \<and> Topic u \<in> topics_of s' st)
     \<and> (\<forall>x \<in> set (StreamList s). \<forall>p \<in> set (ConversionPaths x). output_of s' p = output_of s p)"
proof -
  let ?st = "new_Stream (NextObj s) (EpicsProtocol si) (StreamName si) (Some (NextObj s))"
    and ?T = "topics_wanted (main_opt s) (StreamSettings.Converters si)"
  from addMapping_ok [OF assms] have out: "\<forall>x \<in> set (StreamList s). stream_channel x \<noteq> StreamName si"
      "adding pending (main_opt s) (StreamList s) (output_of s) ?st ?T s'"
      "\<forall>c \<in> set (StreamSettings.Converters si). \<exists>u. createTopicURI (main_opt s) c = Inr u"
    by auto
  then obtain ps where ps: "StreamList s' = StreamList s @ [?st\<lparr>ConversionPaths := ps\<rparr>]"
      "?T \<subseteq> topics_of s' (?st\<lparr>ConversionPaths := ps\<rparr>)"
      "\<forall>p \<in> set (concat (map ConversionPaths (StreamList s))). output_of s' p = output_of s p"
    unfolding adding_def by blast
  have "\<exists>u. createTopicURI (main_opt s) c = Inr u \<and> Topic u \<in> topics_of s' (?st\<lparr>ConversionPaths := ps\<rparr>)"
    if "c \<in> set (StreamSettings.Converters si)" for c
    using out(3) ps(2) that unfolding topics_wanted_def by blast
  then show ?thesis using out(1) ps by (auto simp: new_Stream_def)
qed

text \<open>C17: When \<open>Forwarder::addMapping\<close> throws, every runtime error has been wrapped as a
  \<open>MappingAddException\<close> and the objects still satisfy their invariant. A stream for a channel that
  is in use changes nothing. Any other failure either changes nothing in the list of streams or leaves
  the new stream registered, without the converters not yet added.\<close>

theorem addMapping_failure:
  assumes "rd_client (RdKafka env) pending" "store_ok pending s" "addMapping env si s = (Inl f, s')"
  shows "(\<exists>e. f = Throw e \<and> (is_runtime_error e \<longrightarrow> (\<exists>e'. e = Nested (MappingAddException ''Cannot add stream'') e')))
     \<and> store_ok pending s'
     \<and> (StreamName si \<in> stream_channel ` set (StreamList s) \<longrightarrow> s' = s \<and>
          f = Throw (Nested (MappingAddException ''Cannot add stream'') (MappingAddException ''Stream already exists'')))
     \<and> (StreamList s' = StreamList s \<or>
          (\<exists>st. StreamList s' = StreamList s @ [st] \<and> stream_channel st = StreamName si))"
proof -
  note out = addMapping_ok [OF assms]
  have "s' = s \<and> f = Throw (Nested (MappingAddException ''Cannot add stream'') (MappingAddException ''Stream already exists''))"
    if dup: "StreamName si \<in> stream_channel ` set (StreamList s)"
  proof -
    have "getStreamByChannelName s (StreamName si) \<noteq> None"
      using dup by (auto simp: getStreamByChannelName_def find_None_iff)
    then show ?thesis using assms(3) by (auto simp: addMapping_run addStream_def prog_defs)
  qed
  moreover have "StreamList s' = StreamList s \<or> (\<exists>st. StreamList s' = StreamList s @ [st] \<and> stream_channel st = StreamName si)"
    using out unfolding adding_def by (fastforce simp: new_Stream_def)
  moreover have "store_ok pending s'" using addMapping_outcome [OF assms(1,2), of si] assms(3) by simp
  ultimately show ?thesis using out by auto
qed


section \<open>Examples\<close>

definition example_env :: "(nat option list, nat list) fwd_env" where
  "example_env = \<lparr>RdKafka = list_client 9,
     Broker = \<lparr>br_create = True, br_metadata = Some [\<lparr>TopicName = ''cmd'', PartitionIds = [0]\<rparr>],
               br_high = (\<lambda>t i. Some 0), br_assign = (\<lambda>_. True)\<rparr>,
     PvAccess = \<lparr>pa_provider = \<lambda>_. True, pa_channel = \<lambda>_. True, pa_monitor = \<lambda>_. True\<rparr>,
     UpdateQueue = growing_queue, EmptyQueue = [],
     JsonParse = (\<lambda>t. if t = ''exit'' then Some (JObject [(''cmd'', JString ''exit'')]) else None),
     JsonDump = (\<lambda>j. ''exit''), FlagRaces = [], ConnectionBytes = (\<lambda>_. [7]), HasCURL = True, PrintDouble = (\<lambda>_. ''0'')\<rparr>"

definition example_forwarder :: "(nat option list, nat list) Forwarder" where
  "example_forwarder = (Forwarder_blank (MainOpt_default 3) \<lparr>GlobalSeverityMap = Map.empty, SequenceNumber = 0\<rparr>)
     \<lparr>SchemaItems := registerSchemas Map.empty\<rparr>"

definition example_mapping :: "string \<Rightarrow> StreamSettings" where
  "example_mapping sch = \<lparr>StreamName = ''pv'', EpicsProtocol = ''pva'',
     Converters = [\<lparr>Schema = sch, ConverterTopic = ''//h/t'', ConverterName = []\<rparr>]\<rparr>"

lemma example_forwarder_ok: "store_ok mset example_forwarder"
  by (simp add: store_ok_def streams_ok_def example_forwarder_def Forwarder_blank_def new_InstanceSet_ok)

lemma example_env_ok: "rd_client (RdKafka example_env) mset"
  by (simp add: example_env_def lc.rd_client_axioms)

lemma example_topic: "parse ''//h/t'' URI_default = (Inr (), URI_default\<lparr>HostPort := ''h'', Topic := ''t''\<rparr>)"
  by code_simp

lemma example_createTopicURI:
  "createTopicURI (MainOpt_default l) \<lparr>Schema = sch, ConverterTopic = ''//h/t'', ConverterName = []\<rparr>
   = Inr (URI_default\<lparr>HostPort := ''h'', Topic := ''t''\<rparr>)"
  by (simp add: createTopicURI_def MainOpt_default_def ConfigSettings_default_def URI_default_def [symmetric]
      example_topic prog_defs)

lemmas example_run = addMapping_run addStream_def make_client_def new_EpicsClientMonitor_def impl_init_def
  getStreamByChannelName_def map_converters_def set_status_producer_def new_URI_def example_topic
  on_kafka_set_def createProducerTopic_def new_InstanceSet_def on_instance_count_def new_Producer_def
  new_ProducerTopic_def on_producer_def on_client_def setServiceID_def setProducer_def
  pushConverterToStream_def example_createTopicURI find_converter_def make_converter_def
  Converter_create_def make_path_def add_path_def addConverter_def streams_add_def with_callbacks_def
  deref_def prog_defs example_env_def example_forwarder_def Forwarder_blank_def example_mapping_def
  registerSchemas_def registerSchema_def new_Stream_def Let_def

lemma addMapping_adds_stream_witness:
  "\<exists>s' st. addMapping example_env (example_mapping ''f142'') example_forwarder = (Inr (), s')
     \<and> StreamList s' = [st] \<and> stream_channel st = ''pv'' \<and> ''t'' \<in> topics_of s' st"
proof -
  obtain s' where s': "addMapping example_env (example_mapping ''f142'') example_forwarder = (Inr (), s')"
    by (simp add: example_run)
  from addMapping_adds_stream [OF example_env_ok example_forwarder_ok s'] s' show ?thesis
    by (auto simp: example_mapping_def example_forwarder_def Forwarder_blank_def example_createTopicURI)
qed

text \<open>A schema that is not known: the stream stays, without a path.\<close>

lemma addMapping_failure_witness:
  "\<exists>e s'. addMapping example_env (example_mapping ''none'') example_forwarder = (Inl (Throw e), s')
     \<and> store_ok mset s' \<and> map stream_channel (StreamList s') = [''pv''] \<and> map ConversionPaths (StreamList s') = [[]]"
proof -
  obtain f s' where s': "addMapping example_env (example_mapping ''none'') example_forwarder = (Inl f, s')"
      "map stream_channel (StreamList s') = [''pv'']" "map ConversionPaths (StreamList s') = [[]]"
    by (simp add: example_run)
  from addMapping_failure [OF example_env_ok example_forwarder_ok s'(1)] s' show ?thesis by auto
qed

end
