(* ===== verification/Stream_Outcome.thy ===== *)
theory Stream_Outcome
  imports Stream_Growth
begin

text \<open>
  The outcomes of the operations that remove streams, whatever the workers have in transit: they return,
  or wait for a packet (\<open>Running\<close>); and they return when there is none.
\<close>

section \<open>Destruction returns or waits\<close>

lemma delete_paths_outcome:
  assumes "distinct ps" "\<forall>p \<in> set ps. Paths s p \<noteq> None" "for_each delete_ConversionPath ps s = (Inl f, s')"
  shows "f = Running"
  using assms
proof (induction ps arbitrary: s)
  case Nil
  then show ?case by (simp add: prog_defs)
next
  case (Cons p ps)
  then obtain P where P: "Paths s p = Some P" by auto
  show ?case
  proof (cases "InTransit s p = 0")
    case True
    then obtain s1 where s1: "delete_ConversionPath p s = (Inr (), s1)" "Paths s1 = (Paths s)(p := None)"
      using delete_ConversionPath_run [OF _ P] by blast
    then have "for_each delete_ConversionPath ps s1 = (Inl f, s')" using Cons.prems(3) by (simp add: run_thn)
    moreover have "\<forall>q \<in> set ps. Paths s1 q \<noteq> None"
    proof
      fix q assume "q \<in> set ps"
      with Cons.prems(1,2) show "Paths s1 q \<noteq> None" by (auto simp: s1(2))
    qed
    ultimately show ?thesis using Cons.IH [of s1] Cons.prems(1) by simp
  next
    case False
    with Cons.prems(3) show ?thesis by (simp add: delete_ConversionPath_def prog_defs)
  qed
qed

lemma delete_Stream_outcome:
  assumes "stream_ok s st" "distinct (ConversionPaths st)" "delete_Stream st s = (Inl f, s')"
  shows "f = Running"
proof -
  obtain c where c: "Client st = Some c" "Clients s c \<noteq> None" using assms(1) unfolding stream_ok_def by blast
  then obtain s1 where s1: "stream_stop st s = (Inr 0, s1)" using stream_stop_run by blast
  have f: "frame {} {Client st} s s1"
    using keeps_invD [OF stream_stop_frame [of st "{Client st}" "{}" s], of s] s1 by simp
  have "Paths s1 = Paths s" using frameD(8) [OF f] by auto
  then have "\<forall>p \<in> set (ConversionPaths st). Paths s1 p \<noteq> None"
    using assms(1) unfolding stream_ok_def path_ok_def by auto
  moreover have "for_each delete_ConversionPath (ConversionPaths st) s1 = (Inl f, s')"
    using assms(3) s1 by (simp add: delete_Stream_def run_thn)
  ultimately show ?thesis by (rule delete_paths_outcome [OF assms(2)])
qed

lemma delete_Streams_outcome:
  assumes "\<forall>st \<in> set ss. stream_ok s st" "distinct (concat (map ConversionPaths ss))"
    and "for_each delete_Stream ss s = (Inl f, s')"
  shows "f = Running"
  using assms
proof (induction ss arbitrary: s)
  case Nil
  then show ?case by (simp add: prog_defs)
next
  case (Cons st ss)
  obtain r s1 where r: "delete_Stream st s = (r, s1)" by fastforce
  show ?case
  proof (cases r)
    case (Inl g)
    then have "g = Running" using delete_Stream_outcome [of s st g s1] r Cons.prems(1,2) by simp
    with Inl r Cons.prems(3) show ?thesis by (simp add: run_thn)
  next
    case (Inr x)
    have f1: "frame (set (ConversionPaths st)) {Client st} s s1"
      using keeps_invD [OF delete_Stream_frame [of st "set (ConversionPaths st)" "{Client st}" s], of s] r by simp
    have "\<forall>y \<in> set ss. stream_ok s1 y"
    proof
      fix y assume y: "y \<in> set ss"
      then have "set (ConversionPaths y) \<inter> set (ConversionPaths st) = {}" using Cons.prems(2) by auto
      then show "stream_ok s1 y" using Cons.prems(1) y by (auto intro: stream_ok_frame [OF _ f1])
    qed
    then show ?thesis using Cons.IH [of s1] Cons.prems(2,3) Inr r by (simp add: run_thn)
  qed
qed

lemma removes_outcome:
  assumes "streams_ok s" "removes P s m" "m s = (Inl f, s')"
  shows "f = Running"
proof -
  let ?gone = "filter (\<lambda>x. \<not> P x) (StreamList s)"
  obtain s1 where s1: "frame {} (Client ` set (StreamList s)) s s1"
      "m s = for_each delete_Stream ?gone (s1\<lparr>StreamList := filter P (StreamList s)\<rparr>)"
    using assms(2) unfolding removes_def by blast
  have "\<forall>st \<in> set ?gone. stream_ok (s1\<lparr>StreamList := filter P (StreamList s)\<rparr>) st"
    using assms(1) stream_ok_frame [OF _ s1(1)] unfolding streams_ok_def by auto
  moreover have "distinct (concat (map ConversionPaths ?gone))"
    using assms(1) unfolding streams_ok_def by (blast intro: distinct_concat_filter)
  ultimately show ?thesis using assms(3) unfolding s1(2) by (rule delete_Streams_outcome)
qed

section \<open>With nothing in transit\<close>

definition idle :: "('q, 'k, 'z) stream_store_scheme \<Rightarrow> bool" where
  "idle s \<longleftrightarrow> (\<forall>p. InTransit s p = 0)"

lemma removes_idle:
  assumes "streams_ok s" "removes P s m" "idle s"
  shows "\<exists>s'. m s = (Inr (), s') \<and> StreamList s' = filter P (StreamList s) \<and> idle s'"
proof -
  obtain s' where s': "m s = (Inr (), s')" "StreamList s' = filter P (StreamList s)"
    using removes_run [OF assms(1,2)] assms(3) unfolding idle_def by blast
  have "InTransit s' = InTransit s" using frameD(3) [OF removes_frame [OF assms(2)]] by (simp add: s'(1))
  with s' assms(3) show ?thesis by (simp add: idle_def)
qed

text \<open>The fields beside the streams and their objects are left alone.\<close>

lemma removes_rest:
  assumes "removes P s m"
  shows "stream_store.more (snd (m s)) = stream_store.more s" "StreamList (snd (m s)) = filter P (StreamList s)"
    "InTransit (snd (m s)) = InTransit s"
  using frameD(1,3,12) [OF removes_frame [OF assms]] by simp_all

end
