(* ===== verification/Run_Flag.thy ===== *)
theory Run_Flag
  imports Fwd_Prelude
begin

text \<open>
  The atomic run flag of \<open>Forwarder.cpp\<close>: bits that the command handler and the signal handler raise and
  the main loop reads.
\<close>

unbundle bit_operations_syntax

section \<open>The flag\<close>

definition RUN :: u32 where "RUN = 0"

definition STOP :: u32 where "STOP = 1"

definition STOP_DUE_TO_SIGNAL :: u32 where "STOP_DUE_TO_SIGNAL = 2"

definition isStopDueToSignal :: "u32 \<Rightarrow> bool" where
  "isStopDueToSignal Flag \<longleftrightarrow> Flag AND STOP_DUE_TO_SIGNAL \<noteq> 0"

text \<open>
  The loop of \<open>raiseForwardingFlag\<close>. Each element of the list is a round that is disturbed: the bits
  other threads raise between \<open>load\<close> and \<open>compare_exchange_weak\<close>, and whether the exchange fails
  spuriously. After the list the round is undisturbed.
\<close>

fun raiseForwardingFlag :: "u32 \<Rightarrow> (u32 \<times> bool) list \<Rightarrow> (u32, unit) prog" where
  "raiseForwardingFlag ToBeRaised [] =
     bnd (get_st id) (\<lambda>Expect. upd_st (\<lambda>_. Expect OR ToBeRaised))"
| "raiseForwardingFlag ToBeRaised ((other, spurious) # rest) =
     bnd (get_st id) (\<lambda>Expect.
     let Desired = Expect OR ToBeRaised in
     thn (upd_st (\<lambda>f. f OR other))
     (bnd (get_st id) (\<lambda>f.
      if f = Expect \<and> \<not> spurious then upd_st (\<lambda>_. Desired)
      else raiseForwardingFlag ToBeRaised rest)))"

section \<open>No bit is lost\<close>

lemma raiseForwardingFlag_run:
  "\<exists>n. raiseForwardingFlag m xs f = (Inr (), foldl (OR) f (map fst (take n xs)) OR m)"
proof (induction xs arbitrary: f)
  case Nil
  then show ?case by (simp add: prog_defs)
next
  case (Cons x rest)
  obtain other spurious where x: "x = (other, spurious)" by fastforce
  show ?case
  proof (cases "f OR other = f \<and> \<not> spurious")
    case True
    then have "raiseForwardingFlag m (x # rest) f = (Inr (), f OR m)" by (simp add: x prog_defs Let_def)
    then show ?thesis by (intro exI [of _ 0]) simp
  next
    case False
    then have "raiseForwardingFlag m (x # rest) f = raiseForwardingFlag m rest (f OR other)"
      by (auto simp: x prog_defs Let_def)
    moreover obtain n where "raiseForwardingFlag m rest (f OR other)
        = (Inr (), foldl (OR) (f OR other) (map fst (take n rest)) OR m)"
      using Cons.IH by blast
    ultimately show ?thesis by (intro exI [of _ "Suc n"]) (simp add: x)
  qed
qed

lemma raised_nonzero: "m \<noteq> 0 \<Longrightarrow> (f::u32) OR m \<noteq> 0"
  by (simp add: or_eq_0_iff)

lemma raiseForwardingFlag_raises:
  assumes "m \<noteq> 0" shows "\<exists>f'. raiseForwardingFlag m xs f = (Inr (), f') \<and> f' \<noteq> 0"
  using raiseForwardingFlag_run [of m xs f] raised_nonzero [OF assms] by auto

lemma stop_values [simp]: "STOP \<noteq> 0" "STOP_DUE_TO_SIGNAL \<noteq> 0"
  by (simp_all add: STOP_def STOP_DUE_TO_SIGNAL_def)


end
