(* ===== verification/Command_Handler.thy ===== *)
theory Command_Handler
  imports Forwarder_Mapping Stream_Outcome Run_Flag Simulation "HOL-Library.Sublist"
begin

text \<open>
  \<open>CommandHandler.cpp\<close>: the callback the listener runs on every command. Its effect on the forwarder is
  specified by a small machine over the list of channels and the request to stop.
\<close>

section \<open>The handler\<close>

definition on_flag :: "(u32, 'a) prog \<Rightarrow> (('q, 'k) Forwarder, 'a) prog" where
  "on_flag m s = (case m (ForwardingRunFlag s) of (r, f) \<Rightarrow> (r, s\<lparr>ForwardingRunFlag := f\<rparr>))"

definition stopForwarding :: "('q, 'k) fwd_env \<Rightarrow> (('q, 'k) Forwarder, unit) prog" where
  "stopForwarding env = on_flag (raiseForwardingFlag STOP (FlagRaces env))"

definition stopForwardingDueToSignal :: "('q, 'k) fwd_env \<Rightarrow> (('q, 'k) Forwarder, unit) prog" where
  "stopForwardingDueToSignal env = on_flag (raiseForwardingFlag STOP_DUE_TO_SIGNAL (FlagRaces env))"

definition handleCommandAdd :: "('q, 'k) fwd_env \<Rightarrow> json \<Rightarrow> (('q, 'k) Forwarder, unit) prog" where
  "handleCommandAdd env Document =
     bnd (of_res (new_ConfigParser (JsonParse env) (JsonDump env Document))) (\<lambda>Config.
     bnd (of_res (fst (extractStreamInfo Config))) (\<lambda>Settings.
     for_each (addMapping env) (StreamsInfo Settings)))"

definition handleCommandStopChannel :: "json \<Rightarrow> (('q, 'k) Forwarder, unit) prog" where
  "handleCommandStopChannel Document =
     (let ChannelMaybe = find_string ''channel'' Document in
      if ChannelMaybe \<noteq> None then bnd (of_res (inner ChannelMaybe)) stopChannel else ret ())"

definition handleCommandStopAll :: "(('q, 'k) Forwarder, unit) prog" where
  "handleCommandStopAll = clearStreams"

definition handleCommandExit :: "('q, 'k) fwd_env \<Rightarrow> (('q, 'k) Forwarder, unit) prog" where
  "handleCommandExit env = stopForwarding env"

definition handleCommand :: "('q, 'k) fwd_env \<Rightarrow> json \<Rightarrow> (('q, 'k) Forwarder, unit) prog" where
  "handleCommand env Msg =
     (let Command = findCommand Msg in
      if Command = Cmd_add then handleCommandAdd env Msg
      else if Command = Cmd_stop_channel then handleCommandStopChannel Msg
      else if Command = Cmd_stop_all then handleCommandStopAll
      else if Command = Cmd_exit then handleCommandExit env
      else raise (RuntimeError ''Unknown command type received''))"

text \<open>
  \<open>ConfigCallback::operator()\<close>. Both handlers only log; the second one catches \<open>std::exception\<close>, the
  base of every class of exceptions.
\<close>

definition config_callback :: "('q, 'k) fwd_env \<Rightarrow> string \<Rightarrow> (('q, 'k) Forwarder, unit) prog" where
  "config_callback env RawMsg =
     try_catch
       (try_catch
          (bnd (of_res (case JsonParse env RawMsg of None \<Rightarrow> Inl (Throw JsonParseError) | Some j \<Rightarrow> Inr j))
             (handleCommand env))
          (\<lambda>e. e = JsonParseError) (\<lambda>e. ret ()))
       (\<lambda>_. True) (\<lambda>e. ret ())"

section \<open>The specification\<close>

record fwd_spec =
  Channels :: "string list"
  Stopping :: bool

datatype command = AddChannels "string list" | StopOne string | StopEvery | Exit | Ignored

definition command_of :: "('q, 'k) fwd_env \<Rightarrow> string \<Rightarrow> command" where
  "command_of env RawMsg = (case JsonParse env RawMsg of
     None \<Rightarrow> Ignored
   | Some j \<Rightarrow> (case findCommand j of
       Cmd_add \<Rightarrow> (case JsonParse env (JsonDump env j) of
         None \<Rightarrow> Ignored
       | Some d \<Rightarrow> (case fst (extractStreamInfo \<lparr>Json = d, ConverterIndex = 0\<rparr>) of
           Inl _ \<Rightarrow> Ignored | Inr S \<Rightarrow> AddChannels (map StreamName (StreamsInfo S))))
     | Cmd_stop_channel \<Rightarrow> (case find_string ''channel'' j of None \<Rightarrow> Ignored | Some c \<Rightarrow> StopOne c)
     | Cmd_stop_all \<Rightarrow> StopEvery
     | Cmd_exit \<Rightarrow> Exit
     | Cmd_unknown \<Rightarrow> Ignored))"

text \<open>
  Adding stops at the first channel that cannot be added, so an initial part of the channels is added, and
  all channels stay different.
\<close>

inductive spec_step :: "command \<Rightarrow> fwd_spec \<Rightarrow> fwd_spec \<Rightarrow> bool" where
  add: "prefix ms ns \<Longrightarrow> distinct (Channels A @ ms) \<Longrightarrow>
    spec_step (AddChannels ns) A (A\<lparr>Channels := Channels A @ ms\<rparr>)"
| stop_one: "spec_step (StopOne c) A (A\<lparr>Channels := filter (\<lambda>x. x \<noteq> c) (Channels A)\<rparr>)"
| stop_every: "spec_step StopEvery A (A\<lparr>Channels := []\<rparr>)"
| exit: "spec_step Exit A (A\<lparr>Stopping := True\<rparr>)"
| ignored: "spec_step Ignored A A"

inductive_cases spec_stepE [elim]: "spec_step c A A'"

inductive_simps spec_step_simps: "spec_step (StopOne c) A A'" "spec_step StopEvery A A'" "spec_step Exit A A'"
  "spec_step Ignored A A'"

lemma spec_step_distinct: "spec_step c A A' \<Longrightarrow> distinct (Channels A) \<Longrightarrow> distinct (Channels A')"
  by (erule spec_stepE) auto

lemma spec_step_stopping: "spec_step c A A' \<Longrightarrow> Stopping A' \<longleftrightarrow> Stopping A \<or> c = Exit"
  by (erule spec_stepE) auto

definition spec_of :: "('q, 'k) Forwarder \<Rightarrow> fwd_spec" where
  "spec_of s = \<lparr>Channels = map stream_channel (StreamList s), Stopping = (ForwardingRunFlag s \<noteq> RUN)\<rparr>"

section \<open>What adding a mapping leaves alone\<close>

lemma on_client_keeps:
  "(\<And>s x. I s \<Longrightarrow> I (s\<lparr>Clients := x\<rparr>)) \<Longrightarrow> keeps_inv I (on_client c m)"
  by (rule keeps_invI) (simp add: on_client_def split: option.split prod.split)

lemma on_kafka_set_keeps:
  "(\<And>s x. I s \<Longrightarrow> I (s\<lparr>KafkaSet := x\<rparr>)) \<Longrightarrow> keeps_inv I (on_kafka_set m)"
  by (rule keeps_invI) (simp add: on_kafka_set_def split: prod.split)

text \<open>The fields that adding a mapping does not write, and the transit counts that it sets to 0.\<close>

definition apart :: "u32 \<Rightarrow> bool list \<Rightarrow> 'k Producer option \<Rightarrow> Consumer option \<Rightarrow> ForwardingStatus \<Rightarrow>
  ('q, 'k) Forwarder \<Rightarrow> bool" where
  "apart f ws p l st s \<longleftrightarrow> ForwardingRunFlag s = f \<and> conversion_workers s = ws \<and> status_producer s = p
     \<and> config_listener s = l \<and> forwarding_status s = st"

lemma pushConverterToStream_apart [keeps]:
  "keeps_inv (apart f ws p l st) (pushConverterToStream env i ci)"
  unfolding pushConverterToStream_def find_converter_def make_converter_def drop_converter_def make_path_def
    add_path_def delete_ConversionPath_def
  by (intro keeps keeps_upd on_kafka_set_keeps) (simp_all add: apart_def split: if_splits)

lemma pushConverterToStream_idle [keeps]: "keeps_inv idle (pushConverterToStream env i ci)"
  unfolding pushConverterToStream_def find_converter_def make_converter_def drop_converter_def make_path_def
    add_path_def delete_ConversionPath_def
  by (intro keeps keeps_upd on_kafka_set_keeps) (simp_all add: idle_def split: if_splits)

lemma addMapping_apart: "keeps_inv (apart f ws p l st) (addMapping env si)"
  unfolding addMapping_def addStream_def streams_add_def map_converters_def set_status_producer_def
  by (cases "StreamSettings.Converters si")
     (auto intro!: keeps keeps_upd on_kafka_set_keeps on_client_keeps simp: apart_def)

lemma addMapping_idle: "keeps_inv idle (addMapping env si)"
  unfolding addMapping_def addStream_def streams_add_def map_converters_def set_status_producer_def
  by (cases "StreamSettings.Converters si")
     (auto intro!: keeps keeps_upd on_kafka_set_keeps on_client_keeps simp: idle_def)

section \<open>Refinement\<close>

text \<open>What a handler may do to a forwarder with nothing in transit, where \<open>c\<close> is the command.\<close>

definition performs ::
  "('k \<Rightarrow> nat multiset) \<Rightarrow> command \<Rightarrow> ('q, 'k) Forwarder \<Rightarrow> (('q, 'k) Forwarder, unit) prog \<Rightarrow> bool" where
  "performs pending c s m \<longleftrightarrow> (\<forall>f. fst (m s) = Inl f \<longrightarrow> f \<in> thrown)
     \<and> store_ok pending (snd (m s)) \<and> idle (snd (m s)) \<and> spec_step c (spec_of s) (spec_of (snd (m s)))"

lemma performs_nothing:
  "store_ok pending s \<Longrightarrow> idle s \<Longrightarrow> m s = (r, s) \<Longrightarrow> (\<And>f. r = Inl f \<Longrightarrow> f \<in> thrown) \<Longrightarrow>
   performs pending Ignored s m"
  by (simp add: performs_def spec_step.ignored)

lemma removes_performs:
  fixes s :: "('q, 'k) Forwarder"
  assumes "store_ok pending s" "idle s" "removes P s m"
    and "\<And>l. map stream_channel (filter P (StreamList s)) = l \<Longrightarrow> spec_step c (spec_of s) (spec_of s\<lparr>Channels := l\<rparr>)"
  shows "performs pending c s m"
proof -
  obtain s' where s': "m s = (Inr (), s')" "StreamList s' = filter P (StreamList s)" "idle s'"
    using removes_idle [OF store_okD(1) [OF assms(1)] assms(3,2)] by blast
  have "ForwardingRunFlag s' = ForwardingRunFlag s"
    using frame_forwarder(9) [OF removes_frame [OF assms(3)]] by (simp add: s'(1))
  then have "spec_of s' = spec_of s\<lparr>Channels := map stream_channel (filter P (StreamList s))\<rparr>"
    by (simp add: spec_of_def s'(2))
  then show ?thesis
    using assms(4) removes_store_ok [OF assms(3,1)] s' by (simp add: performs_def)
qed

lemma stopChannel_performs: "store_ok pending s \<Longrightarrow> idle s \<Longrightarrow> performs pending (StopOne name) s (stopChannel name)"
proof (rule removes_performs [OF _ _ stopChannel_removes])
  fix l assume "map stream_channel (filter (\<lambda>st. stream_channel st \<noteq> name) (StreamList s)) = l"
  then have "l = filter (\<lambda>x. x \<noteq> name) (Channels (spec_of s))" by (auto simp: spec_of_def filter_map comp_def)
  then show "spec_step (StopOne name) (spec_of s) (spec_of s\<lparr>Channels := l\<rparr>)" by (simp add: spec_step.stop_one)
qed

lemma clearStreams_performs: "store_ok pending s \<Longrightarrow> idle s \<Longrightarrow> performs pending StopEvery s clearStreams"
  by (rule removes_performs [OF _ _ clearStreams_removes]) (auto simp: spec_step.stop_every dest: store_okD(1))

lemma stopForwarding_performs:
  assumes "store_ok pending s" "idle s" shows "performs pending Exit s (stopForwarding env)"
proof -
  obtain f where f: "raiseForwardingFlag STOP (FlagRaces env) (ForwardingRunFlag s) = (Inr (), f)" "f \<noteq> 0"
    using raiseForwardingFlag_raises [of STOP] by auto
  have "store_ok pending (s\<lparr>ForwardingRunFlag := f\<rparr>)" using assms(1) by (subst store_ok_cong(4)) simp_all
  moreover have "spec_of (s\<lparr>ForwardingRunFlag := f\<rparr>) = spec_of s\<lparr>Stopping := True\<rparr>"
    using f(2) by (simp add: spec_of_def RUN_def)
  ultimately show ?thesis
    using assms(2) f(1) by (simp add: performs_def stopForwarding_def on_flag_def idle_def spec_step.exit)
qed

lemma addMapping_channels:
  assumes "rd_client (RdKafka env) pending" "store_ok pending s" "addMapping env si s = (r, s')"
  shows "\<exists>ms. prefix ms [StreamName si] \<and> (r = Inr () \<longrightarrow> ms = [StreamName si])
     \<and> map stream_channel (StreamList s') = map stream_channel (StreamList s) @ ms"
proof -
  note out = addMapping_ok [OF assms]
  show ?thesis
  proof (cases "s' = s")
    case True
    with out show ?thesis by (intro exI [of _ "[]"]) auto
  next
    case False
    with out obtain T where "adding pending (main_opt s) (StreamList s) (output_of s)
        (new_Stream (NextObj s) (EpicsProtocol si) (StreamName si) (Some (NextObj s))) T s'" by blast
    then show ?thesis by (intro exI [of _ "[StreamName si]"]) (auto simp: adding_def new_Stream_def)
  qed
qed

lemma addMappings_channels:
  assumes "rd_client (RdKafka env) pending" "store_ok pending s" "for_each (addMapping env) sis s = (r, s')"
  shows "\<exists>ms. prefix ms (map StreamName sis) \<and> (r = Inr () \<longrightarrow> ms = map StreamName sis)
     \<and> map stream_channel (StreamList s') = map stream_channel (StreamList s) @ ms"
  using assms(2,3)
proof (induction sis arbitrary: s)
  case Nil
  then show ?case by (simp add: prog_defs)
next
  case (Cons si sis)
  obtain r1 s1 where r1: "addMapping env si s = (r1, s1)" by fastforce
  obtain ms where ms: "prefix ms [StreamName si]" "r1 = Inr () \<longrightarrow> ms = [StreamName si]"
      "map stream_channel (StreamList s1) = map stream_channel (StreamList s) @ ms"
    using addMapping_channels [OF assms(1) Cons.prems(1) r1] by blast
  show ?case
  proof (cases r1)
    case (Inl f)
    with r1 Cons.prems(2) have "r = Inl f" "s' = s1" by (auto simp: prog_defs)
    moreover have "prefix ms (map StreamName (si # sis))" using ms(1) by (auto simp: prefix_Cons)
    ultimately show ?thesis using ms(3) by auto
  next
    case (Inr x)
    have "store_ok pending s1" using addMapping_outcome [OF assms(1) Cons.prems(1), of si] r1 by simp
    moreover have "for_each (addMapping env) sis s1 = (r, s')" using r1 Inr Cons.prems(2) by (simp add: prog_defs)
    ultimately obtain ns where "prefix ns (map StreamName sis)" "r = Inr () \<longrightarrow> ns = map StreamName sis"
        "map stream_channel (StreamList s') = map stream_channel (StreamList s1) @ ns"
      using Cons.IH by blast
    with ms Inr show ?thesis by (intro exI [of _ "StreamName si # ns"]) auto
  qed
qed

lemma addMappings_performs:
  assumes "rd_client (RdKafka env) pending" "store_ok pending s" "idle s"
  shows "performs pending (AddChannels (map StreamName sis)) s (for_each (addMapping env) sis)"
proof -
  obtain r s' where r: "for_each (addMapping env) sis s = (r, s')" by fastforce
  obtain ms where ms: "prefix ms (map StreamName sis)"
      "map stream_channel (StreamList s') = map stream_channel (StreamList s) @ ms"
    using addMappings_channels [OF assms(1,2) r] by blast
  have f: "fails_only thrown (store_ok pending) (for_each (addMapping env) sis)"
    by (intro fails addMapping_fails assms(1))
  have ok: "store_ok pending s' \<and> (\<forall>f. r = Inl f \<longrightarrow> f \<in> thrown)"
    using fails_onlyD [OF f assms(2)] r by simp
  have i: "keeps_inv idle (for_each (addMapping env) sis)" by (intro keeps addMapping_idle)
  have a: "keeps_inv (apart (ForwardingRunFlag s) (conversion_workers s) (status_producer s)
      (config_listener s) (forwarding_status s)) (for_each (addMapping env) sis)"
    by (intro keeps addMapping_apart)
  have "idle s'" using keeps_invD [OF i assms(3)] r by simp
  moreover have "ForwardingRunFlag s' = ForwardingRunFlag s"
    using keeps_invD [OF a, of s] r by (simp add: apart_def)
  moreover have "distinct (map stream_channel (StreamList s'))" using ok by (simp add: store_ok_def streams_ok_def)
  ultimately show ?thesis
    using spec_step.add [OF ms(1), of "spec_of s"] ms(2) ok r by (simp add: performs_def spec_of_def)
qed

lemma extractConverterSettings_fails: "fails_only thrown (\<lambda>_. True) (extractConverterSettings j)"
  unfolding extractConverterSettings_def by (auto intro!: fails fails_upd split: option.split)

lemma extractStream_fails: "fails_only thrown (\<lambda>_. True) (extractStream j)"
proof -
  have "fails_only thrown (\<lambda>_. True) (of_res (extractMappingInfo j))"
    by (rule fails_of_res) (auto simp: extractMappingInfo_def split: if_splits option.splits)
  then show ?thesis
    unfolding extractStream_def
    by (auto intro!: fails extractConverterSettings_fails split: option.split json.split)
qed

lemma extractStreamInfo_throws: "fst (extractStreamInfo C) = Inl f \<Longrightarrow> f \<in> thrown"
proof -
  have "fails_only thrown (\<lambda>_. True) extractStreamInfo"
    unfolding extractStreamInfo_def by (auto intro!: fails extractStream_fails split: option.split json.split)
  then show "fst (extractStreamInfo C) = Inl f \<Longrightarrow> f \<in> thrown" by (simp add: fails_only_def)
qed

lemma performs_cong: "performs pending c s n \<Longrightarrow> m s = n s \<Longrightarrow> performs pending c s m"
  by (simp add: performs_def)

lemma handleCommandAdd_performs:
  assumes "rd_client (RdKafka env) pending" "store_ok pending s" "idle s"
  shows "performs pending (case JsonParse env (JsonDump env j) of
         None \<Rightarrow> Ignored
       | Some d \<Rightarrow> (case fst (extractStreamInfo \<lparr>Json = d, ConverterIndex = 0\<rparr>) of
           Inl _ \<Rightarrow> Ignored | Inr S \<Rightarrow> AddChannels (map StreamName (StreamsInfo S)))) s (handleCommandAdd env j)"
proof (cases "JsonParse env (JsonDump env j)")
  case None
  then have "handleCommandAdd env j s = (Inl (Throw JsonParseError), s)"
    by (simp add: handleCommandAdd_def new_ConfigParser_def prog_defs)
  from performs_nothing [where m = "handleCommandAdd env j", OF assms(2,3) this] None show ?thesis by simp
next
  case (Some d)
  show ?thesis
  proof (cases "fst (extractStreamInfo \<lparr>Json = d, ConverterIndex = 0\<rparr>)")
    case (Inl f)
    with Some have "handleCommandAdd env j s = (Inl f, s)"
      by (simp add: handleCommandAdd_def new_ConfigParser_def prog_defs)
    from performs_nothing [where m = "handleCommandAdd env j", OF assms(2,3) this] Some Inl extractStreamInfo_throws [OF Inl] show ?thesis by simp
  next
    case (Inr S)
    have "handleCommandAdd env j s = for_each (addMapping env) (StreamsInfo S) s"
      using Some Inr by (simp add: handleCommandAdd_def new_ConfigParser_def prog_defs)
    from performs_cong [where m = "handleCommandAdd env j", OF addMappings_performs [OF assms] this] Some Inr
    show ?thesis by simp
  qed
qed

lemma handleCommand_performs:
  assumes "rd_client (RdKafka env) pending" "store_ok pending s" "idle s" "JsonParse env raw = Some j"
  shows "performs pending (command_of env raw) s (handleCommand env j)"
proof (cases "findCommand j")
  case Cmd_add
  with handleCommandAdd_performs [OF assms(1-3), of j] assms(4) show ?thesis
    by (simp add: command_of_def handleCommand_def)
next
  case Cmd_stop_channel
  show ?thesis
  proof (cases "find_string ''channel'' j")
    case None
    with Cmd_stop_channel have "handleCommand env j s = (Inr (), s)"
      by (simp add: handleCommand_def handleCommandStopChannel_def prog_defs)
    from performs_nothing [where m = "handleCommand env j", OF assms(2,3) this] Cmd_stop_channel None assms(4) show ?thesis
      by (simp add: command_of_def)
  next
    case (Some c)
    then have "handleCommand env j s = stopChannel c s"
      using Cmd_stop_channel by (simp add: handleCommand_def handleCommandStopChannel_def inner_def prog_defs)
    from performs_cong [where m = "handleCommand env j", OF stopChannel_performs [OF assms(2,3)] this]
      Cmd_stop_channel Some assms(4) show ?thesis by (simp add: command_of_def)
  qed
next
  case Cmd_stop_all
  with clearStreams_performs [OF assms(2,3)] assms(4) show ?thesis
    by (simp add: command_of_def handleCommand_def handleCommandStopAll_def)
next
  case Cmd_exit
  with stopForwarding_performs [OF assms(2,3)] assms(4) show ?thesis
    by (simp add: command_of_def handleCommand_def handleCommandExit_def)
next
  case Cmd_unknown
  then have "handleCommand env j s = (Inl (Throw (RuntimeError ''Unknown command type received'')), s)"
    by (simp add: handleCommand_def prog_defs)
  from performs_nothing [where m = "handleCommand env j", OF assms(2,3) this] Cmd_unknown assms(4) show ?thesis by (simp add: command_of_def)
qed

lemma config_callback_refines:
  assumes "rd_client (RdKafka env) pending" "store_ok pending s" "idle s"
  shows "\<exists>s'. config_callback env raw s = (Inr (), s') \<and> store_ok pending s' \<and> idle s'
     \<and> spec_step (command_of env raw) (spec_of s) (spec_of s')"
proof (cases "JsonParse env raw")
  case None
  with assms(2,3) show ?thesis by (simp add: config_callback_def command_of_def prog_defs spec_step.ignored)
next
  case (Some j)
  obtain r s' where r: "handleCommand env j s = (r, s')" by fastforce
  have "performs pending (command_of env raw) s (handleCommand env j)"
    by (rule handleCommand_performs [OF assms Some])
  with r have p: "\<forall>f. r = Inl f \<longrightarrow> f \<in> thrown" "store_ok pending s'" "idle s'"
      "spec_step (command_of env raw) (spec_of s) (spec_of s')"
    by (simp_all add: performs_def)
  have "config_callback env raw s = (Inr (), s')"
    using Some r p(1) by (cases r) (auto simp: config_callback_def prog_defs)
  with p show ?thesis by blast
qed

text \<open>The command handler refines the specification, command by command.\<close>

interpretation commands: labelled_simulation "\<lambda>raw s s'. config_callback env raw s = (Inr (), s')" spec_step
  "command_of env" "\<lambda>s a. rd_client (RdKafka env) pending \<and> store_ok pending s \<and> idle s \<and> a = spec_of s"
  for env pending
proof
  fix s a raw s'
  assume R: "rd_client (RdKafka env) pending \<and> store_ok pending s \<and> idle s \<and> a = spec_of s"
    and step: "config_callback env raw s = (Inr (), s')"
  obtain t where "config_callback env raw s = (Inr (), t)" "store_ok pending t" "idle t"
      "spec_step (command_of env raw) (spec_of s) (spec_of t)"
    using config_callback_refines R by blast
  with R step show "\<exists>a'. spec_step (command_of env raw) a a'
      \<and> (rd_client (RdKafka env) pending \<and> store_ok pending s' \<and> idle s' \<and> a' = spec_of s')" by auto
qed

lemma commands_return:
  assumes "rd_client (RdKafka env) pending" "store_ok pending s" "idle s"
  shows "\<exists>s'. for_each (config_callback env) raws s = (Inr (), s') \<and> store_ok pending s' \<and> idle s'"
  using assms(2,3)
proof (induction raws arbitrary: s)
  case Nil
  then show ?case by (simp add: prog_defs)
next
  case (Cons raw raws)
  then obtain t where "config_callback env raw s = (Inr (), t)" "store_ok pending t" "idle t"
    using config_callback_refines [OF assms(1)] by blast
  with Cons.IH [of t] show ?case by (auto simp: run_thn)
qed

section \<open>With packets in transit\<close>

lemma removes_result:
  assumes "store_ok pending s" "removes P s m"
  shows "store_ok pending (snd (m s)) \<and> (\<forall>f. fst (m s) = Inl f \<longrightarrow> f \<in> {Running})"
proof -
  have "f = Running" if "fst (m s) = Inl f" for f
    using removes_outcome [OF store_okD(1) [OF assms(1)] assms(2), of f "snd (m s)"] that by (metis prod.collapse)
  then show ?thesis using removes_store_ok [OF assms(2,1)] by simp
qed

lemma stopChannel_fails: "fails_only {Running} (store_ok pending) (stopChannel name)"
  by (rule fails_onlyI) (rule removes_result [OF _ stopChannel_removes])

lemma clearStreams_fails: "fails_only {Running} (store_ok pending) clearStreams"
  by (rule fails_onlyI) (rule removes_result [OF _ clearStreams_removes [OF store_okD(1)]])

lemma checkStreamStatus_fails: "fails_only {Running} (store_ok pending) checkStreamStatus"
  by (rule fails_onlyI) (rule removes_result [OF _ checkStreamStatus_removes [OF store_okD(1)]])

lemma stop_request_outcome:
  assumes "store_ok pending s"
  shows "store_ok pending (snd (on_flag (raiseForwardingFlag m xs) s))
     \<and> (\<forall>f. fst (on_flag (raiseForwardingFlag m xs) s) = Inl f \<longrightarrow> f \<in> F)"
proof -
  obtain g where g: "raiseForwardingFlag m xs (ForwardingRunFlag s) = (Inr (), g)"
    using raiseForwardingFlag_run by blast
  have "store_ok pending (s\<lparr>ForwardingRunFlag := g\<rparr>)" using assms by (subst store_ok_cong(4)) simp_all
  with g show ?thesis by (simp add: on_flag_def)
qed

lemma stop_request_fails: "fails_only F (store_ok pending) (on_flag (raiseForwardingFlag m xs))"
  by (rule fails_onlyI) (rule stop_request_outcome)

lemma handleCommand_fails:
  assumes "rd_client (RdKafka env) pending"
  shows "fails_only (thrown \<union> {Running}) (store_ok pending) (handleCommand env j)"
proof -
  have "fails_only (thrown \<union> {Running}) (store_ok pending) (handleCommandAdd env j)"
    unfolding handleCommandAdd_def
    by (auto intro!: fails fails_of_res fails_only_mono [OF addMapping_fails [OF assms]]
        simp: new_ConfigParser_def split: option.splits dest: extractStreamInfo_throws)
  moreover have "fails_only (thrown \<union> {Running}) (store_ok pending) (handleCommandStopChannel j)"
    unfolding handleCommandStopChannel_def Let_def
    by (auto intro!: fails fails_of_res fails_only_mono [OF stopChannel_fails] simp: inner_def)
  moreover have "fails_only (thrown \<union> {Running}) (store_ok pending) clearStreams"
    by (rule fails_only_mono [OF clearStreams_fails]) simp
  ultimately show ?thesis
    unfolding handleCommand_def handleCommandStopAll_def handleCommandExit_def stopForwarding_def Let_def
    by (auto intro!: fails stop_request_fails)
qed

lemma config_callback_fails:
  assumes "rd_client (RdKafka env) pending"
  shows "fails_only {Running} (store_ok pending) (config_callback env raw)"
  unfolding config_callback_def
  by (intro fails_caught fails fails_of_res handleCommand_fails assms) (auto split: option.splits)

section \<open>Properties\<close>

text \<open>C6: The command handler implements its specification: any sequence of commands, well formed or not, is
  worked through without an exception when no packet is in transit, and the list of channels and the
  request to stop evolve as specified: \<open>stop_channel\<close> removes that channel, \<open>stop_all\<close> every channel,
  \<open>exit\<close> requests the stop, \<open>add\<close> appends an initial part of the channels it names, all channels
  staying different, and anything else changes nothing.\<close>

theorem commands_refine_spec:
  assumes "rd_client (RdKafka env) pending" "store_ok pending s" "idle s"
  shows "\<exists>s'. for_each (config_callback env) raws s = (Inr (), s') \<and> store_ok pending s' \<and> idle s'
     \<and> run spec_step (map (command_of env) raws) (spec_of s) (spec_of s')"
proof -
  obtain s' where s': "for_each (config_callback env) raws s = (Inr (), s')" "store_ok pending s'" "idle s'"
    using commands_return [OF assms] by blast
  with commands.simulates_run [OF s'(1) [unfolded for_each_run], of pending "spec_of s"] assms
  show ?thesis by auto
qed

text \<open>C7: With packets in transit, a command still never throws out of the handler and never dereferences a
  bad pointer: it returns or waits for a packet, and on every way out the objects satisfy their
  invariant (one stream per channel, every path with its converter and producer).\<close>

theorem commands_keep_store:
  assumes "rd_client (RdKafka env) pending" "store_ok pending s" "for_each (config_callback env) raws s = (r, s')"
  shows "store_ok pending s' \<and> (r = Inr () \<or> r = Inl Running)"
proof -
  have f: "fails_only {Running} (store_ok pending) (for_each (config_callback env) raws)"
    by (intro fails config_callback_fails assms(1))
  from fails_onlyD [OF f assms(2)] assms(3) show ?thesis by (cases r) auto
qed

section \<open>Examples\<close>

lemma example_forwarder_idle: "idle example_forwarder"
  by (simp add: idle_def example_forwarder_def Forwarder_blank_def)

lemma example_commands: "command_of example_env ''exit'' = Exit" "command_of example_env ''x'' = Ignored"
  by (simp_all add: command_of_def example_env_def findCommand_def find_string_def find_as_def)

lemma commands_refine_spec_witness:
  "\<exists>s'. for_each (config_callback example_env) [''x'', ''exit''] example_forwarder = (Inr (), s')
     \<and> Stopping (spec_of s') \<and> Channels (spec_of s') = []"
  using commands_refine_spec [OF example_env_ok example_forwarder_ok example_forwarder_idle, of "[''x'', ''exit'']"]
  by (auto simp: example_commands spec_step_simps simp del: for_each.simps)
     (auto simp: spec_of_def example_forwarder_def Forwarder_blank_def simp del: for_each.simps)

lemma commands_keep_store_witness:
  "store_ok mset (snd (for_each (config_callback example_env) [''x'', ''exit''] example_forwarder))"
proof -
  obtain r s' where r: "for_each (config_callback example_env) [''x'', ''exit''] example_forwarder = (r, s')" by fastforce
  from commands_keep_store [OF example_env_ok example_forwarder_ok r] show ?thesis unfolding r by simp
qed

end
