(* ===== verification/Status_Report.thy ===== *)
theory Status_Report
  imports Command_Handler
begin

text \<open>
  \<open>StatusReporter.cpp\<close>: the message about all streams that is sent at every period, after which the
  streams whose client has failed are removed. The topic object is its name; the producer it belongs to
  is the forwarder's \<open>status_producer\<close>.
\<close>

section \<open>The report\<close>

definition bytes_of :: "string \<Rightarrow> u8 list" where
  "bytes_of t = map (\<lambda>c. of_nat (of_char c)) t"

definition on_status_producer :: "('k Producer, 'a) prog \<Rightarrow> (('q, 'k) Forwarder, 'a) prog" where
  "on_status_producer m s = (case status_producer s of
     None \<Rightarrow> (Inl Crash, s)
   | Some p \<Rightarrow> (case m p of (r, p') \<Rightarrow> (r, s\<lparr>status_producer := Some p'\<rparr>)))"

text \<open>What goes to the log: the first 1000 characters of a longer text.\<close>

definition status_log :: "string \<Rightarrow> string" where
  "status_log StatusString =
     (if length StatusString > 1000
      then take 1000 StatusString @ '' ... '' @ dec (length StatusString) @ '' chars total ...''
      else StatusString)"

definition status_document :: "string \<Rightarrow> json \<Rightarrow> json" where
  "status_document service_id streams =
     JObject [(''service_id'', JString service_id), (''streams'', streams)]"

text \<open>\<open>reportStatus\<close> returns the line for the log when the timer has been armed again.\<close>

definition reportStatus :: "('q, 'k) fwd_env \<Rightarrow> string option \<Rightarrow> (('q, 'k) Forwarder, string option) prog" where
  "reportStatus env StatusProducerTopic = (case StatusProducerTopic of
     None \<Rightarrow> ret None
   | Some t \<Rightarrow>
       bnd (get_st (\<lambda>s. ConfigSettings.ServiceID (MainSettings (main_opt s)))) (\<lambda>service_id.
       bnd (get_st (getStreamStatuses (UpdateQueue env))) (\<lambda>statuses.
       bnd (of_res statuses) (\<lambda>StreamsStatuses.
       let StatusString = JsonDump env (status_document service_id StreamsStatuses) in
       thn checkStreamStatus
       (thn (on_status_producer (topic_produce_bytes (RdKafka env) t (bytes_of StatusString)))
       (ret (Some (status_log StatusString))))))))"

section \<open>The statuses\<close>

text \<open>The entries of the status of a path and of a stream.\<close>

definition describes_path :: "('q, 'k, 'z) stream_store_scheme \<Rightarrow> nat \<Rightarrow> json \<Rightarrow> bool" where
  "describes_path s p j \<longleftrightarrow> map_option fst (output_of s p) = find_string ''topic'' j
     \<and> map_option snd (output_of s p) = find_string ''schema'' j"

definition describes :: "('q, 'k, 'z) stream_store_scheme \<Rightarrow> Stream \<Rightarrow> json \<Rightarrow> bool" where
  "describes s st j \<longleftrightarrow> find_string ''channel_name'' j = Some (stream_channel st)
     \<and> (\<exists>cs. find_json ''converters'' j = Some (JArray cs)
          \<and> list_all2 (describes_path s) (ConversionPaths st) cs)"

lemma path_status_run:
  assumes "path_ok s p"
  shows "\<exists>j. path_status_json s p = Inr j \<and> describes_path s p j"
proof -
  obtain P c pr where P: "Paths s p = Some P" "conv_store.Converters s (path_converter P) = Some c"
      "Producers (KafkaSet s) (KafkaProducer (kafka_output P)) = Some pr"
    using assms unfolding path_ok_def by blast
  then have "path_status_json s p = Inr (JObject [(''broker'', JString (Address (ProducerBrokerSettings pr))),
      (''schema'', JString (schema c)), (''topic'', JString (Name (kafka_output P)))])"
    by (simp add: path_status_json_def getSchemaName_def brokerAddress_def deref_def)
  moreover have "output_of s p = Some (Name (kafka_output P), schema c)" using P by (simp add: output_of_def)
  ultimately show ?thesis by (simp add: describes_path_def find_string_def find_as_def)
qed

lemma map_res_all:
  "\<forall>x \<in> set xs. \<exists>y. f x = Inr y \<and> Q x y \<Longrightarrow> \<exists>ys. map_res f xs = Inr ys \<and> list_all2 Q xs ys"
proof (induction xs)
  case (Cons x xs)
  then obtain y ys where "f x = Inr y" "Q x y" "map_res f xs = Inr ys" "list_all2 Q xs ys" by auto
  then show ?case by simp
qed simp

lemma getStatusJson_run:
  assumes "Stream_Set.stream_ok s st" shows "\<exists>j. getStatusJson Q s st = Inr j \<and> describes s st j"
proof -
  obtain c cl where c: "Client st = Some c" "Clients s c = Some cl"
    using assms unfolding Stream_Set.stream_ok_def by blast
  have "\<forall>p \<in> set (ConversionPaths st). path_ok s p" using assms unfolding Stream_Set.stream_ok_def by blast
  then obtain cs where cs: "map_res (path_status_json s) (ConversionPaths st) = Inr cs"
      "list_all2 (describes_path s) (ConversionPaths st) cs"
    using map_res_all [of "ConversionPaths st" "path_status_json s" "describes_path s"] path_status_run by blast
  define j where "j = JObject ([(''channel_name'', JString (stream_channel st)), (''converters'', JArray cs)]
     @ (if SeqDataEmitted st = [] then [] else [(''emitted_max'', JInt (uint (snd (last (SeqDataEmitted st)))))])
     @ [(''epics_connection_status'', JString (connection_of cl)),
        (''queue_size'', JInt (int (size_approx Q (queue_of cl))))])"
  have "getStatusJson Q s st = Inr j"
    by (simp add: getStatusJson_def getQueueSize_def deref_def c cs(1) j_def)
  moreover have "find_string ''channel_name'' j = Some (stream_channel st)" "find_json ''converters'' j = Some (JArray cs)"
    by (simp_all add: j_def find_string_def find_json_def find_as_def)
  ultimately show ?thesis using cs(2) unfolding describes_def by blast
qed

lemma getStreamStatuses_run:
  assumes "streams_ok s" shows "\<exists>js. getStreamStatuses Q s = Inr (JArray js) \<and> list_all2 (describes s) (StreamList s) js"
proof -
  have "\<forall>st \<in> set (StreamList s). \<exists>j. getStatusJson Q s st = Inr j \<and> describes s st j"
    using assms getStatusJson_run unfolding streams_ok_def by blast
  then obtain js where "map_res (getStatusJson Q s) (StreamList s) = Inr js" "list_all2 (describes s) (StreamList s) js"
    using map_res_all [of "StreamList s" "getStatusJson Q s" "describes s"] by blast
  then show ?thesis by (simp add: getStreamStatuses_def)
qed

section \<open>The outcome\<close>

text \<open>When the reporter has a topic, the forwarder has the producer for it.\<close>

definition reporter_ok :: "('k \<Rightarrow> nat multiset) \<Rightarrow> string option \<Rightarrow> ('q, 'k) Forwarder \<Rightarrow> bool" where
  "reporter_ok pending topic s \<longleftrightarrow> (\<forall>p. status_producer s = Some p \<longrightarrow> producer_ok pending p)
     \<and> (topic \<noteq> None \<longrightarrow> status_producer s \<noteq> None)"

lemma produce_status_run:
  assumes "rd_client K pending" "status_producer s = Some p" "producer_ok pending p"
  shows "\<exists>x p'. on_status_producer (topic_produce_bytes K t b) s = (Inr x, s\<lparr>status_producer := Some p'\<rparr>)
     \<and> producer_ok pending p' \<and> topic_produce_bytes K t b p = (Inr x, p')"
proof -
  obtain x p' where "topic_produce_bytes K t b p = (Inr x, p')" "producer_ok pending p'"
    using rd_client.produce_owned_ok [OF assms(1,3)] unfolding topic_produce_bytes_def by blast
  with assms(2) show ?thesis by (simp add: on_status_producer_def)
qed

lemma checkStreamStatus_reporter:
  fixes s :: "('q, 'k) Forwarder"
  assumes "store_ok pending s"
  shows "status_producer (snd (checkStreamStatus s)) = status_producer s"
    "ForwardingRunFlag (snd (checkStreamStatus s)) = ForwardingRunFlag s"
    "conversion_workers (snd (checkStreamStatus s)) = conversion_workers s"
    "PVUpdateTimer (snd (checkStreamStatus s)) = PVUpdateTimer s"
    "GenerateFakePVUpdateTimer (snd (checkStreamStatus s)) = GenerateFakePVUpdateTimer s"
    "config_listener (snd (checkStreamStatus s)) = config_listener s"
    "main_opt (snd (checkStreamStatus s)) = main_opt s"
    "forwarding_status (snd (checkStreamStatus s)) = forwarding_status s"
  using frame_forwarder [OF removes_frame [OF checkStreamStatus_removes [OF store_okD(1) [OF assms]]]] by simp_all

lemma reportStatus_run:
  assumes "rd_client (RdKafka env) pending" "store_ok pending s" "reporter_ok pending (Some t) s"
  shows "\<exists>js. list_all2 (describes s) (StreamList s) js
     \<and> (case checkStreamStatus s of
          (Inl f, s1) \<Rightarrow> reportStatus env (Some t) s = (Inl f, s1)
        | (Inr x, s1) \<Rightarrow>
            (let text = JsonDump env (status_document (ConfigSettings.ServiceID (MainSettings (main_opt s))) (JArray js)) in
             \<exists>x p p'. status_producer s = Some p \<and> producer_ok pending p'
               \<and> topic_produce_bytes (RdKafka env) t (bytes_of text) p = (Inr x, p')
               \<and> reportStatus env (Some t) s = (Inr (Some (status_log text)), s1\<lparr>status_producer := Some p'\<rparr>)))"
proof -
  obtain p where p: "status_producer s = Some p" "producer_ok pending p" using assms(3) by (auto simp: reporter_ok_def)
  obtain js where js: "getStreamStatuses (UpdateQueue env) s = Inr (JArray js)" "list_all2 (describes s) (StreamList s) js"
    using getStreamStatuses_run [OF store_okD(1) [OF assms(2)]] by blast
  obtain r s1 where r: "checkStreamStatus s = (r, s1)" by fastforce
  have "status_producer s1 = Some p" using checkStreamStatus_reporter(1) [OF assms(2)] r p(1) by simp
  note prod = produce_status_run [OF assms(1) this p(2)]
  show ?thesis
  proof (cases r)
    case (Inl f)
    with js r show ?thesis by (intro exI [of _ js]) (simp add: reportStatus_def prog_defs Let_def)
  next
    case (Inr x)
    let ?text = "JsonDump env (status_document (ConfigSettings.ServiceID (MainSettings (main_opt s))) (JArray js))"
    obtain y p' where "on_status_producer (topic_produce_bytes (RdKafka env) t (bytes_of ?text)) s1 = (Inr y, s1\<lparr>status_producer := Some p'\<rparr>)"
        "producer_ok pending p'" "topic_produce_bytes (RdKafka env) t (bytes_of ?text) p = (Inr y, p')"
      using prod by blast
    with Inr js r p(1) show ?thesis
      by (intro exI [of _ js]) (simp add: reportStatus_def prog_defs Let_def)
  qed
qed

lemma store_ok_status_producer [simp]:
  "store_ok pending (s\<lparr>status_producer := p\<rparr>) = store_ok pending s"
  by (rule store_ok_cong(4)) simp_all

lemma reportStatus_outcome:
  assumes "rd_client (RdKafka env) pending" "store_ok pending s \<and> reporter_ok pending topic s"
  shows "(store_ok pending (snd (reportStatus env topic s)) \<and> reporter_ok pending topic (snd (reportStatus env topic s)))
     \<and> (\<forall>f. fst (reportStatus env topic s) = Inl f \<longrightarrow> f \<in> {Running})"
proof (cases topic)
  case None
  with assms(2) show ?thesis by (simp add: reportStatus_def prog_defs)
next
  case (Some t)
  obtain r s1 where r: "checkStreamStatus s = (r, s1)" by fastforce
  have ok: "store_ok pending s" "reporter_ok pending (Some t) s" using assms(2) Some by simp_all
  have s1: "store_ok pending s1" "\<forall>f. r = Inl f \<longrightarrow> f = Running"
    using fails_onlyD [OF checkStreamStatus_fails ok(1)] r by auto
  have "reporter_ok pending (Some t) s1"
    using checkStreamStatus_reporter(1) [OF ok(1)] ok(2) r by (simp add: reporter_ok_def)
  with reportStatus_run [OF assms(1) ok] r s1 Some show ?thesis
    by (cases r) (auto simp: reporter_ok_def Let_def)
qed

lemma reportStatus_fails:
  "rd_client (RdKafka env) pending \<Longrightarrow>
   fails_only {Running} (\<lambda>s. store_ok pending s \<and> reporter_ok pending topic s) (reportStatus env topic)"
  by (rule fails_onlyI) (rule reportStatus_outcome)

text \<open>C22: The status report: the message that is sent has an entry for every stream in order, with its
  channel and, for each of its paths, the topic and the schema; then the streams whose client has
  reported an error are removed, and the timer is armed again. Without a topic nothing is reported, no
  stream is checked and the timer is not armed again.\<close>

theorem reportStatus_result:
  assumes "rd_client (RdKafka env) pending" "store_ok pending s" "idle s" "reporter_ok pending (Some t) s"
  shows "(\<exists>js p x p' text s'. list_all2 (describes s) (StreamList s) js
     \<and> text = JsonDump env (status_document (ConfigSettings.ServiceID (MainSettings (main_opt s))) (JArray js))
     \<and> status_producer s = Some p \<and> topic_produce_bytes (RdKafka env) t (bytes_of text) p = (Inr x, p')
     \<and> reportStatus env (Some t) s = (Inr (Some (status_log text)), s') \<and> status_producer s' = Some p'
     \<and> StreamList s' = filter (\<lambda>st. \<not> stream_failed s st) (StreamList s)
     \<and> store_ok pending s' \<and> reporter_ok pending (Some t) s')
   \<and> reportStatus env None s = (Inr None, s)"
proof -
  obtain s1 where s1: "checkStreamStatus s = (Inr (), s1)"
      "StreamList s1 = filter (\<lambda>st. \<not> stream_failed s st) (StreamList s)"
    using removes_idle [OF store_okD(1) [OF assms(2)] checkStreamStatus_removes [OF store_okD(1) [OF assms(2)]] assms(3)]
    by blast
  have ok: "store_ok pending s1" using fails_onlyD [OF checkStreamStatus_fails assms(2)] s1(1) by simp
  from reportStatus_run [OF assms(1,2,4)] s1(1) obtain js x p p' where
      "list_all2 (describes s) (StreamList s) js" "status_producer s = Some p" "producer_ok pending p'"
      "topic_produce_bytes (RdKafka env) t (bytes_of (JsonDump env (status_document (ConfigSettings.ServiceID (MainSettings (main_opt s))) (JArray js)))) p = (Inr x, p')"
      "reportStatus env (Some t) s = (Inr (Some (status_log (JsonDump env (status_document (ConfigSettings.ServiceID (MainSettings (main_opt s))) (JArray js))))), s1\<lparr>status_producer := Some p'\<rparr>)"
    by (auto simp: Let_def)
  moreover have "reportStatus env None s = (Inr None, s)" by (simp add: reportStatus_def prog_defs)
  ultimately show ?thesis using ok s1(2) unfolding reporter_ok_def by fastforce
qed

section \<open>Examples\<close>

definition reporting_forwarder :: "(nat option list, nat list) Forwarder" where
  "reporting_forwarder = example_forwarder\<lparr>status_producer :=
     Some \<lparr>Stats = ProducerStats_default, TotalMessagesProduced = 0, ProducerBrokerSettings = BrokerSettings_default,
           ProducerID = 0, ProducerPtr = [], Messages = Map.empty, NextMessage = 0\<rparr>\<rparr>"

lemma reporting_forwarder_ok:
  "store_ok mset reporting_forwarder" "idle reporting_forwarder" "reporter_ok mset topic reporting_forwarder"
  using example_forwarder_ok example_forwarder_idle
  by (simp_all add: reporting_forwarder_def idle_def reporter_ok_def producer_ok_def accounts_def ProducerStats_default_def)

lemma reportStatus_result_witness:
  "\<exists>s'. reportStatus example_env (Some ''st'') reporting_forwarder = (Inr (Some ''exit''), s') \<and> StreamList s' = []"
  using reportStatus_result [OF example_env_ok reporting_forwarder_ok(1,2) reporting_forwarder_ok(3) [of "Some ''st''"]]
  by (auto simp: reporting_forwarder_def example_forwarder_def Forwarder_blank_def example_env_def status_log_def)

end
