(* ===== verification/Client_Events.thy ===== *)
theory Client_Events
  imports Status_Report
begin

text \<open>
  What the threads of the EPICS library do to the clients of the forwarder while it runs: a channel
  changes its connection, an event brings updates. The invariant of the clients that makes both safe, and
  that everything else the program does keeps it.
\<close>

section \<open>The invariant\<close>

text \<open>
  A client can be given an event (the update it has cached exists and has an alarm message) and a change of
  the connection (the producer for connection messages, if it has one, exists).
\<close>

definition monitor_ok :: "'k InstanceSet \<Rightarrow> 'q EpicsClientMonitor \<Rightarrow> bool" where
  "monitor_ok ks m \<longleftrightarrow> refs_fresh m \<and> cache_ok m \<and> (\<forall>k. CachedUpdate m = Some k \<longrightarrow> k < NextUpdate m)
     \<and> (\<forall>t. ConnectionStatusProducer m = Some t \<longrightarrow> Producers ks (KafkaProducer t) \<noteq> None)"

fun client_ok :: "'k InstanceSet \<Rightarrow> 'q EpicsClient \<Rightarrow> bool" where
  "client_ok ks (MonitorClient m) \<longleftrightarrow> monitor_ok ks m"
| "client_ok ks (RandomClient c) \<longleftrightarrow> True"

lemma monitor_ok_cong:
  assumes "Updates m' = Updates m" "NextUpdate m' = NextUpdate m" "CachedUpdate m' = CachedUpdate m"
    "ConnectionStatusProducer m' = ConnectionStatusProducer m"
  shows "monitor_ok ks m' = monitor_ok ks m"
proof -
  have "alarm_text m' = alarm_text m" using assms(1) by (simp add: alarm_text_def fun_eq_iff)
  then show ?thesis using assms by (simp add: monitor_ok_def refs_fresh_def cache_ok_def cached_text_def)
qed

lemma monitor_ok_fields [simp]:
  "monitor_ok ks (m\<lparr>client_status := a\<rparr>) = monitor_ok ks m"
  "monitor_ok ks (m\<lparr>has_channel := b\<rparr>) = monitor_ok ks m"
  "monitor_ok ks (m\<lparr>monitor := d\<rparr>) = monitor_ok ks m"
  "monitor_ok ks (m\<lparr>monitor_requester := e\<rparr>) = monitor_ok ks m"
  "monitor_ok ks (m\<lparr>ActiveMonitors := f\<rparr>) = monitor_ok ks m"
  "monitor_ok ks (m\<lparr>NextMonitor := g\<rparr>) = monitor_ok ks m"
  "monitor_ok ks (m\<lparr>ConnectionState := h\<rparr>) = monitor_ok ks m"
  "monitor_ok ks (m\<lparr>EpicsClientMonitor.ServiceID := i\<rparr>) = monitor_ok ks m"
  by (rule monitor_ok_cong; simp)+

definition clients_ok :: "('q, 'k, 'z) stream_store_scheme \<Rightarrow> bool" where
  "clients_ok s \<longleftrightarrow> (\<forall>c cl. Clients s c = Some cl \<longrightarrow> client_ok (KafkaSet s) cl)"

lemma clients_okD: "clients_ok s \<Longrightarrow> Clients s c = Some cl \<Longrightarrow> client_ok (KafkaSet s) cl"
  by (simp add: clients_ok_def)

lemma client_ok_more:
  assumes "client_ok ks cl" "\<And>i. Producers ks i \<noteq> None \<Longrightarrow> Producers ks' i \<noteq> None"
  shows "client_ok ks' cl"
  using assms by (cases cl) (auto simp: monitor_ok_def)

lemma clients_ok_fields [simp]:
  "clients_ok (s\<lparr>Paths := a\<rparr>) = clients_ok s"
  "clients_ok (s\<lparr>conv_store.Converters := b\<rparr>) = clients_ok s"
  "clients_ok (s\<lparr>StreamList := d\<rparr>) = clients_ok s"
  "clients_ok (s\<lparr>InTransit := e\<rparr>) = clients_ok s"
  "clients_ok (s\<lparr>NextObj := f\<rparr>) = clients_ok s"
  "clients_ok (stream_store.more_update g s) = clients_ok s"
  by (simp_all add: clients_ok_def)

lemma clients_ok_cong: "Clients s' = Clients s \<Longrightarrow> KafkaSet s' = KafkaSet s \<Longrightarrow> clients_ok s' = clients_ok s"
  by (simp add: clients_ok_def)

lemma clients_ok_added:
  "clients_ok s \<Longrightarrow> client_ok (KafkaSet s) cl \<Longrightarrow> clients_ok (s\<lparr>Clients := (Clients s)(c \<mapsto> cl)\<rparr>)"
  by (simp add: clients_ok_def)

section \<open>What keeps it\<close>

lemma on_client_clients [keeps]:
  assumes "\<And>ks :: 'k InstanceSet. keeps_inv (client_ok ks) m"
  shows "keeps_inv (clients_ok :: ('q, 'k, 'z) stream_store_scheme \<Rightarrow> bool) (on_client c m)"
proof (rule keeps_invI)
  fix s :: "('q, 'k, 'z) stream_store_scheme" assume ok: "clients_ok s"
  show "clients_ok (snd (on_client c m s))"
  proof (cases "Option.bind c (Clients s)")
    case None
    with ok show ?thesis by (simp add: on_client_def)
  next
    case (Some cl)
    then have "client_ok (KafkaSet s) cl" using ok by (cases c) (auto simp: clients_ok_def)
    then have "client_ok (KafkaSet s) (snd (m cl))" by (rule keeps_invD [OF assms])
    from clients_ok_added [OF ok this] Some show ?thesis by (simp add: on_client_def case_prod_unfold)
  qed
qed

lemma on_kafka_set_clients:
  assumes "\<And>i. keeps_inv (\<lambda>ks :: 'k InstanceSet. Producers ks i \<noteq> None) m"
  shows "keeps_inv (clients_ok :: ('q, 'k, 'z) stream_store_scheme \<Rightarrow> bool) (on_kafka_set m)"
proof (rule keeps_invI)
  fix s :: "('q, 'k, 'z) stream_store_scheme" assume ok: "clients_ok s"
  have "client_ok (snd (m (KafkaSet s))) cl" if "client_ok (KafkaSet s) cl" for cl :: "'q EpicsClient"
    by (rule client_ok_more [OF that]) (rule keeps_invD [OF assms])
  then show "clients_ok (snd (on_kafka_set m s))"
    using ok by (simp add: clients_ok_def on_kafka_set_def case_prod_unfold)
qed

lemma monitor_client_keeps:
  "keeps_inv (monitor_ok ks) impl_stop"
  "keeps_inv (monitor_ok ks) monitoringStop"
  "keeps_inv (monitor_ok ks) errorInEpics"
  "keeps_inv (monitor_ok ks) (setServiceID n)"
  unfolding impl_stop_def monitoringStop_def destroy_monitor_def errorInEpics_def setServiceID_def
  by (intro keeps keeps_upd; simp)+

lemma client_keeps [keeps]:
  "keeps_inv (client_ok ks) client_stop"
  "keeps_inv (client_ok ks) client_error"
  "keeps_inv (client_ok ks) (client_setServiceID n)"
proof -
  have 1: "client_ok ks cl \<Longrightarrow> client_ok ks (snd (client_stop cl))" for cl
    by (cases cl) (simp_all add: case_prod_unfold keeps_invD [OF monitor_client_keeps(1)])
  have 2: "client_ok ks cl \<Longrightarrow> client_ok ks (snd (client_error cl))" for cl
    by (cases cl) (simp_all add: case_prod_unfold keeps_invD [OF monitor_client_keeps(3)])
  have 3: "client_ok ks cl \<Longrightarrow> client_ok ks (snd (client_setServiceID n cl))" for cl
    by (cases cl) (simp_all add: case_prod_unfold keeps_invD [OF monitor_client_keeps(4)])
  show "keeps_inv (client_ok ks) client_stop" "keeps_inv (client_ok ks) client_error"
      "keeps_inv (client_ok ks) (client_setServiceID n)"
    using 1 2 3 by (auto simp: keeps_inv_def)
qed

section \<open>Producers stay\<close>

lemma on_producer_keeps: "keeps_inv (\<lambda>ks. Producers ks i \<noteq> None) (on_producer j m)"
  by (rule keeps_invI) (simp add: on_producer_def split: option.split prod.split)

lemma new_ProducerTopic_keeps: "keeps_inv (\<lambda>ks. Producers ks i \<noteq> None) (new_ProducerTopic K j t)"
  unfolding new_ProducerTopic_def by (intro keeps on_producer_keeps)

lemma createProducerTopic_keeps: "keeps_inv (\<lambda>ks. Producers ks i \<noteq> None) (createProducerTopic K u)"
proof -
  have "keeps_inv (\<lambda>ks. Producers ks i \<noteq> None) (on_instance_count m)" for m :: "(nat, 'b) prog"
    by (rule keeps_invI) (simp add: on_instance_count_def split: prod.split)
  then show ?thesis
    unfolding createProducerTopic_def by (intro keeps keeps_upd new_ProducerTopic_keeps) simp_all
qed

lemma new_ProducerTopic_exists: "new_ProducerTopic K j t ks = (Inr x, ks') \<Longrightarrow> Producers ks' (KafkaProducer x) \<noteq> None"
  by (auto simp: new_ProducerTopic_def on_producer_def prog_defs split: option.splits if_splits)

lemma createProducerTopic_exists:
  "createProducerTopic K u ks = (Inr x, ks') \<Longrightarrow> Producers ks' (KafkaProducer x) \<noteq> None"
  by (auto simp: createProducerTopic_def prog_defs split: option.splits sum.splits prod.splits dest!: new_ProducerTopic_exists)

lemma kafka_set_clients [keeps]: "keeps_inv clients_ok (on_kafka_set (createProducerTopic K u))"
  by (intro on_kafka_set_clients createProducerTopic_keeps)

section \<open>Commands keep it\<close>

lemma delete_ConversionPath_clients [keeps]: "keeps_inv clients_ok (delete_ConversionPath p)"
  unfolding delete_ConversionPath_def by (intro keeps keeps_upd) (simp_all split: if_splits)

lemma stream_stop_clients [keeps]: "keeps_inv clients_ok (stream_stop st)"
  unfolding stream_stop_def by (intro keeps)

lemma removal_clients [keeps]:
  "keeps_inv clients_ok (stopChannel name)" "keeps_inv clients_ok clearStreams" "keeps_inv clients_ok checkStreamStatus"
  unfolding stopChannel_def clearStreams_def checkStreamStatus_def delete_Stream_def in_error_def stream_status_def
  by (intro keeps keeps_upd; simp)+

lemma pushConverterToStream_clients [keeps]:
  "keeps_inv (clients_ok :: ('q, 'k) Forwarder \<Rightarrow> bool) (pushConverterToStream env i ci)"
  unfolding pushConverterToStream_def find_converter_def make_converter_def drop_converter_def make_path_def add_path_def
  by (intro keeps keeps_upd) (simp_all add: clients_ok_def split: if_splits)

lemma new_client_ok: "make_client env random provider name = Inr cl \<Longrightarrow> client_ok ks cl"
  by (auto simp: make_client_def monitor_ok_def new_EpicsClientMonitor_def impl_init_def prog_defs refs_fresh_def cache_ok_def
      bind_res_def split: if_splits sum.splits)

lemma set_status_producer_clients [keeps]:
  "keeps_inv (clients_ok :: ('q, 'k) Forwarder \<Rightarrow> bool) (set_status_producer env st cs)"
proof -
  have set: "clients_ok (snd (on_client c (client_setProducer t) s))"
    if "clients_ok s" "Producers (KafkaSet s) (KafkaProducer t) \<noteq> None" for c t and s :: "('q, 'k) Forwarder"
  proof (cases "Option.bind c (Clients s)")
    case None
    with that show ?thesis by (simp add: on_client_def)
  next
    case (Some cl)
    have ok: "client_ok (KafkaSet s) cl" using that(1) Some by (cases c) (auto simp: clients_ok_def)
    have "alarm_text (m\<lparr>ConnectionStatusProducer := x\<rparr>) = alarm_text m" for m :: "'q EpicsClientMonitor" and x
      by (simp add: alarm_text_def fun_eq_iff)
    then have "client_ok (KafkaSet s) (snd (client_setProducer t cl))"
      using ok that(2) by (cases cl)
        (simp_all add: monitor_ok_def setProducer_def prog_defs refs_fresh_def cache_ok_def cached_text_def)
    from clients_ok_added [OF that(1) this] Some show ?thesis by (simp add: on_client_def case_prod_unfold)
  qed
  have "clients_ok (snd (bnd (on_kafka_set (createProducerTopic (RdKafka env) u)) (\<lambda>t. on_client (Client st) (client_setProducer t)) s))"
    if ok: "clients_ok s" for u and s :: "('q, 'k) Forwarder"
  proof -
    obtain r ks where r: "createProducerTopic (RdKafka env) u (KafkaSet s) = (r, ks)" by fastforce
    have ok': "clients_ok (s\<lparr>KafkaSet := ks\<rparr>)"
      using keeps_invD [OF kafka_set_clients ok, of "RdKafka env" u] r by (simp add: on_kafka_set_def)
    show ?thesis
    proof (cases r)
      case (Inl e)
      with ok' r show ?thesis by (simp add: on_kafka_set_def prog_defs)
    next
      case (Inr t)
      with set [OF ok', of t "Client st"] createProducerTopic_exists [OF r [unfolded Inr]] r show ?thesis
        by (simp add: on_kafka_set_def run_bnd)
    qed
  qed
  then have put: "keeps_inv (clients_ok :: ('q, 'k) Forwarder \<Rightarrow> bool)
      (bnd (on_kafka_set (createProducerTopic (RdKafka env) u)) (\<lambda>t. on_client (Client st) (client_setProducer t)))" for u
    by (simp add: keeps_inv_def)
  have res: "keeps_inv (clients_ok :: ('q, 'k) Forwarder \<Rightarrow> bool) (of_res r)" for r :: "URI res" by (intro keeps)
  show ?thesis
    unfolding set_status_producer_def by (cases cs) (simp_all add: keeps_pure keeps_bnd [OF res put])
qed

lemma addStream_clients [keeps]: "keeps_inv (clients_ok :: ('q, 'k) Forwarder \<Rightarrow> bool) (addStream env random provider name)"
proof -
  have new: "keeps_inv (clients_ok :: ('q, 'k) Forwarder \<Rightarrow> bool)
      (bnd (of_res (make_client env random provider name)) (\<lambda>c.
       thn (upd_st (\<lambda>s. s\<lparr>Clients := (Clients s)(i \<mapsto> c), NextObj := Suc i\<rparr>)) (m c)))"
    if "\<And>c. keeps_inv (clients_ok :: ('q, 'k) Forwarder \<Rightarrow> bool) (m c)" for i and m :: "'q EpicsClient \<Rightarrow> (('q, 'k) Forwarder, Stream) prog"
  proof (cases "make_client env random provider name")
    case (Inr cl)
    have "keeps_inv (clients_ok :: ('q, 'k) Forwarder \<Rightarrow> bool) (upd_st (\<lambda>s. s\<lparr>Clients := (Clients s)(i \<mapsto> cl), NextObj := Suc i\<rparr>))"
      using new_client_ok [OF Inr] by (auto intro!: keeps_upd simp: clients_ok_def)
    then have "keeps_inv (clients_ok :: ('q, 'k) Forwarder \<Rightarrow> bool)
      (thn (upd_st (\<lambda>s. s\<lparr>Clients := (Clients s)(i \<mapsto> cl), NextObj := Suc i\<rparr>)) (m cl))"
      by (intro keeps that)
    then show ?thesis by (simp add: Inr prog_defs keeps_inv_def)
  qed (simp add: prog_defs keeps_inv_def)
  have add: "keeps_inv (clients_ok :: ('q, 'k) Forwarder \<Rightarrow> bool) (thn (streams_add st) (ret st))" for st
    unfolding streams_add_def by (intro keeps keeps_upd) simp
  show ?thesis unfolding addStream_def
    by (rule keeps_bnd, rule keeps_pure, rule keeps_case_prod, rule keeps_if, rule keeps_pure, rule new, rule add)
qed

lemma addMapping_clients [keeps]: "keeps_inv clients_ok (addMapping env si)"
  unfolding addMapping_def map_converters_def
  by (intro keeps keeps_upd) (simp_all add: clients_ok_def)

lemma on_flag_clients [keeps]: "keeps_inv clients_ok (on_flag m)"
  by (rule keeps_invI) (simp add: on_flag_def clients_ok_def case_prod_unfold)

lemma config_callback_clients [keeps]: "keeps_inv clients_ok (config_callback env raw)"
  unfolding config_callback_def handleCommand_def handleCommandAdd_def handleCommandStopChannel_def
    handleCommandStopAll_def handleCommandExit_def stopForwarding_def Let_def
  by (intro keeps)

lemma on_status_producer_clients [keeps]: "keeps_inv clients_ok (on_status_producer m)"
  by (rule keeps_invI) (simp add: on_status_producer_def clients_ok_def case_prod_unfold split: option.split)

lemma reportStatus_clients [keeps]: "keeps_inv clients_ok (reportStatus env topic)"
  unfolding reportStatus_def Let_def by (intro keeps)

lemma instances_poll_producers: "keeps_inv (\<lambda>ks. Producers ks i \<noteq> None) (instances_poll K)"
  unfolding instances_poll_def by (intro keeps on_producer_keeps)

lemma instances_poll_clients [keeps]: "keeps_inv clients_ok (on_kafka_set (instances_poll K))"
  by (intro on_kafka_set_clients instances_poll_producers)

section \<open>Events of the EPICS library\<close>

text \<open>
  A channel changes its state: \<open>channelStateChange\<close> of the requester, on the client that has number \<open>c\<close>.
  \<open>g\<close> is the number of monitor requesters there have been, \<open>now\<close> the clock. The library calls it for
  clients that exist; a client that makes up its values has no channel.
\<close>

definition connection_event ::
  "('q, 'k) fwd_env \<Rightarrow> nat \<Rightarrow> u32 \<Rightarrow> u64 \<Rightarrow> pva_state \<Rightarrow> (('q, 'k) Forwarder, unit) prog" where
  "connection_event env c g now st s = (case Clients s c of
     Some (MonitorClient m) \<Rightarrow>
       (case channelStateChange (PvAccess env) (RdKafka env) (ConnectionBytes env) now True st
               \<lparr>Mon = m, GlobalIdCounter = g, Kafka = KafkaSet s\<rparr> of
          (r, e) \<Rightarrow> (r, s\<lparr>Clients := (Clients s)(c \<mapsto> MonitorClient (Mon e)), KafkaSet := Kafka e\<rparr>))
   | _ \<Rightarrow> (Inr (), s))"

text \<open>An event brings updates: \<open>monitorEvent\<close> of the requester, which exists while the client has a monitor.\<close>

definition update_event ::
  "('q, 'k) fwd_env \<Rightarrow> nat \<Rightarrow> pvfield list \<Rightarrow> (('q, 'k) Forwarder, unit) prog" where
  "update_event env c eles s = (case Clients s c of
     Some (MonitorClient m) \<Rightarrow>
       (case monitor_requester m of
          None \<Rightarrow> (Inr (), s)
        | Some R \<Rightarrow>
            (case monitorEvent (UpdateQueue env) R eles m of
               (r, m') \<Rightarrow> (r, s\<lparr>Clients := (Clients s)(c \<mapsto> MonitorClient m')\<rparr>)))
   | _ \<Rightarrow> (Inr (), s))"

lemma monitoringStart_ok:
  assumes "monitor_ok ks m"
  shows "\<exists>x m' g'. monitoringStart P (m, g) = (Inr x, (m', g')) \<and> monitor_ok ks m'"
proof -
  have "monitor_ok ks (snd (monitoringStop m))" by (rule keeps_invD [OF monitor_client_keeps(2) assms])
  with assms show ?thesis
    by (auto simp: monitoringStart_def new_FwdMonitorRequester_def prog_defs Let_def)
qed

lemma monitoringStop_returns: "\<exists>m'. monitoringStop m = (Inr 0, m')"
  by (simp add: monitoringStop_def destroy_monitor_def prog_defs split: option.split)

lemma monitoring_ok:
  assumes "monitor_ok (Kafka e) (Mon e)"
  shows "\<exists>x m g. (if S = CONNECTED then on_mon_count (monitoringStart P) else on_mon monitoringStop) e
     = (Inr x, e\<lparr>Mon := m, GlobalIdCounter := g\<rparr>) \<and> monitor_ok (Kafka e) m"
proof (cases "S = CONNECTED")
  case True
  obtain x m' g' where "monitoringStart P (Mon e, GlobalIdCounter e) = (Inr x, (m', g'))" "monitor_ok (Kafka e) m'"
    using monitoringStart_ok [OF assms] by blast
  with True show ?thesis by (auto simp: on_mon_count_def)
next
  case False
  obtain m' where m': "monitoringStop (Mon e) = (Inr 0, m')" using monitoringStop_returns by blast
  have "monitor_ok (Kafka e) m'" using keeps_invD [OF monitor_client_keeps(2) assms] m' by simp
  moreover have "on_mon monitoringStop e = (Inr 0, e\<lparr>Mon := m', GlobalIdCounter := GlobalIdCounter e\<rparr>)"
    using m' by (simp add: on_mon_def)
  ultimately show ?thesis using False by (intro exI [of _ 0] exI [of _ m'] exI [of _ "GlobalIdCounter e"]) simp
qed

lemma channelStateChange_run:
  assumes "rd_client K pending" "instances_ok pending (Kafka e)" "monitor_ok (Kafka e) (Mon e)"
  shows "\<exists>e'. channelStateChange P K B now True st e = (Inr (), e') \<and> instances_ok pending (Kafka e')
     \<and> (\<forall>i. Producers (Kafka e) i \<noteq> None \<longrightarrow> Producers (Kafka e') i \<noteq> None) \<and> monitor_ok (Kafka e') (Mon e')"
proof -
  let ?S = "createChannelConnectionState st"
  let ?e = "e\<lparr>Mon := (Mon e)\<lparr>ConnectionState := ?S\<rparr>\<rparr>"
  obtain x m g where step: "(if ?S = CONNECTED then on_mon_count (monitoringStart P) else on_mon monitoringStop) ?e
     = (Inr x, ?e\<lparr>Mon := m, GlobalIdCounter := g\<rparr>)" "monitor_ok (Kafka e) m"
    using monitoring_ok [of ?e ?S P] assms(3) by auto
  define e1 where "e1 = e\<lparr>Mon := m, GlobalIdCounter := g\<rparr>"
  have run: "channelStateChange P K B now True st e =
     (case ConnectionStatusProducer m of
        None \<Rightarrow> ret ()
      | Some t \<Rightarrow> thn (on_kafka (on_producer (KafkaProducer t) (produceAndSetKey K (Name t)
                 (B \<lparr>ep_timestamp = now, ep_source_name = channel_name m, ep_service_id = EpicsClientMonitor.ServiceID m,
                    ep_type = connection_event_type ?S\<rparr>) (channel_name m)))) (ret ())) e1"
    using step(1) by (simp add: channelStateChange_def handleConnectionStateChange_def run_thn run_bnd run_prog e1_def
        on_mon_def split: option.split)
  show ?thesis
  proof (cases "ConnectionStatusProducer m")
    case None
    with run assms(2) step(2) show ?thesis by (auto simp: e1_def prog_defs)
  next
    case (Some t)
    then obtain p where p: "Producers (Kafka e) (KafkaProducer t) = Some p" using step(2) by (auto simp: monitor_ok_def)
    define obj where "obj = \<lparr>ep_timestamp = now, ep_source_name = channel_name m, ep_service_id = EpicsClientMonitor.ServiceID m,
                    ep_type = connection_event_type ?S\<rparr>"
    obtain x p' where x: "on_producer (KafkaProducer t) (produceAndSetKey K (Name t) (B obj) (channel_name m)) (Kafka e)
         = (Inr x, (Kafka e)\<lparr>Producers := (Producers (Kafka e))(KafkaProducer t \<mapsto> p')\<rparr>)"
        "instances_ok pending ((Kafka e)\<lparr>Producers := (Producers (Kafka e))(KafkaProducer t \<mapsto> p')\<rparr>)"
      using rd_client.produce_owned_in_set [OF assms(1,2) p] unfolding produceAndSetKey_def by blast
    define e' where "e' = e1\<lparr>Kafka := (Kafka e)\<lparr>Producers := (Producers (Kafka e))(KafkaProducer t \<mapsto> p')\<rparr>\<rparr>"
    have "channelStateChange P K B now True st e = (Inr (), e')"
      unfolding run Some obj_def [symmetric] using x(1) by (simp add: on_kafka_def e'_def e1_def prog_defs)
    moreover have "monitor_ok (Kafka e') (Mon e')"
      using client_ok_more [of "Kafka e" "MonitorClient m" "Kafka e'"] step(2) by (simp add: e'_def e1_def)
    ultimately show ?thesis using x(2) by (auto simp: e'_def e1_def)
  qed
qed

lemma store_ok_client:
  assumes "store_ok pending s" "Clients s c \<noteq> None"
  shows "store_ok pending (s\<lparr>Clients := (Clients s)(c \<mapsto> cl)\<rparr>)"
proof -
  have "on_client (Some c) (\<lambda>x. (Inr (), cl)) s = (Inr (), s\<lparr>Clients := (Clients s)(c \<mapsto> cl)\<rparr>)"
    using assms(2) by (auto simp: on_client_def)
  then have "frame {} {Some c} s (s\<lparr>Clients := (Clients s)(c \<mapsto> cl)\<rparr>)"
    using on_client_frame [of "{}" "Some c" s "\<lambda>x. (Inr (), cl)"] by simp
  then show ?thesis by (rule store_ok_frame [OF assms(1)])
qed

lemma connection_event_run:
  assumes "rd_client (RdKafka env) pending" "store_ok pending s" "clients_ok s"
  shows "\<exists>x ks. connection_event env c g now st s = (Inr (), s\<lparr>Clients := x, KafkaSet := ks\<rparr>)
     \<and> store_ok pending (s\<lparr>Clients := x, KafkaSet := ks\<rparr>) \<and> clients_ok (s\<lparr>Clients := x, KafkaSet := ks\<rparr>)"
proof (cases "\<exists>m. Clients s c = Some (MonitorClient m)")
  case False
  then have "connection_event env c g now st s = (Inr (), s\<lparr>Clients := Clients s, KafkaSet := KafkaSet s\<rparr>)"
    by (auto simp: connection_event_def split: option.split EpicsClient.split)
  with assms show ?thesis by fastforce
next
  case True
  then obtain m where m: "Clients s c = Some (MonitorClient m)" by blast
  let ?e = "\<lparr>Mon = m, GlobalIdCounter = g, Kafka = KafkaSet s\<rparr>"
  have ok: "instances_ok pending (Kafka ?e)" "monitor_ok (Kafka ?e) (Mon ?e)"
    using store_okD(6) [OF assms(2)] clients_okD [OF assms(3) m] by simp_all
  obtain e' where e': "channelStateChange (PvAccess env) (RdKafka env) (ConnectionBytes env) now True st ?e = (Inr (), e')"
      "instances_ok pending (Kafka e')" "\<forall>i. Producers (KafkaSet s) i \<noteq> None \<longrightarrow> Producers (Kafka e') i \<noteq> None"
      "monitor_ok (Kafka e') (Mon e')"
    using channelStateChange_run [OF assms(1) ok, of "PvAccess env" "ConnectionBytes env" now st]
    unfolding conn_env.select_convs by blast
  let ?t = "s\<lparr>Clients := (Clients s)(c \<mapsto> MonitorClient (Mon e'))\<rparr>"
  have t: "store_ok pending ?t" using store_ok_client [OF assms(2)] m by simp
  have "\<forall>i p. Producers (KafkaSet ?t) i = Some p \<longrightarrow> Producers (Kafka e') i \<noteq> None" using e'(3) by simp
  from producers_added [OF t e'(2) this refl] have "store_ok pending (?t\<lparr>KafkaSet := Kafka e'\<rparr>)" by blast
  moreover have "clients_ok (?t\<lparr>KafkaSet := Kafka e'\<rparr>)"
    unfolding clients_ok_def
  proof (intro allI impI)
    fix d cl assume cl: "Clients (?t\<lparr>KafkaSet := Kafka e'\<rparr>) d = Some cl"
    show "client_ok (KafkaSet (?t\<lparr>KafkaSet := Kafka e'\<rparr>)) cl"
    proof (cases "d = c")
      case True
      with cl e'(4) show ?thesis by auto
    next
      case False
      then have "client_ok (KafkaSet s) cl" using cl clients_okD [OF assms(3)] by simp
      then show ?thesis using client_ok_more e'(3) by auto
    qed
  qed
  moreover have "connection_event env c g now st s = (Inr (), ?t\<lparr>KafkaSet := Kafka e'\<rparr>)"
    using m e'(1) by (simp add: connection_event_def)
  ultimately show ?thesis by (intro exI [of _ "(Clients s)(c \<mapsto> MonitorClient (Mon e'))"] exI [of _ "Kafka e'"]) simp
qed

text \<open>The elements of an event have an alarm message, which the channel was asked for.\<close>

definition with_alarm :: "pvfield list \<Rightarrow> bool" where
  "with_alarm eles \<longleftrightarrow> list_all (\<lambda>e. pv_alarm_text e \<noteq> None) eles"

lemma monitorEvent_status_producer:
  "keeps_inv (\<lambda>m. ConnectionStatusProducer m = x) (monitorEvent Q R eles)"
  unfolding monitorEvent_def new_update_def monitor_emit_def mark_alarm_def get_update_def
    emitWithoutCaching_def queue_push_def
  by (auto intro!: keeps keeps_upd)

lemma monitorEvent_ok:
  assumes "monitor_ok ks m" "with_alarm eles"
  shows "\<exists>m'. monitorEvent Q R eles m = (Inr (), m') \<and> monitor_ok ks m'"
proof -
  have ok: "refs_fresh m" "cache_ok m" "\<forall>k. CachedUpdate m = Some k \<longrightarrow> k < NextUpdate m"
      "\<forall>t. ConnectionStatusProducer m = Some t \<longrightarrow> Producers ks (KafkaProducer t) \<noteq> None"
    using assms(1) by (simp_all add: monitor_ok_def)
  have "list_all2 (\<lambda>e t. pv_alarm_text e = Some t) eles (map (the \<circ> pv_alarm_text) eles)"
    using assms(2) by (auto simp: with_alarm_def list_all_length list_all2_conv_all_nth)
  from monitorEvent_run [OF ok(1-3) this refl, of R Q] obtain m1 m' where m':
      "map_prog (\<lambda>ele. new_update \<lparr>epics_pvstr = Some ele, channel = ChannelName R, AlarmStatusChanged = False\<rparr>) eles m
         = (Inr [NextUpdate m..<NextUpdate m + length eles], m1)"
      "for_each (monitor_emit Q) [NextUpdate m..<NextUpdate m + length eles] m1 = (Inr (), m')"
      "CachedUpdate m' = (if eles = [] then CachedUpdate m else Some (NextUpdate m + length eles - 1))"
      "cache_ok m'" "refs_fresh m'" "NextUpdate m' = NextUpdate m + length eles"
    by blast
  have run: "monitorEvent Q R eles m = (Inr (), m')" using m'(1,2) by (simp add: monitorEvent_def prog_defs)
  then have "ConnectionStatusProducer m' = ConnectionStatusProducer m"
    using keeps_invD [OF monitorEvent_status_producer, of m "ConnectionStatusProducer m" Q R eles] by simp
  then have "monitor_ok ks m'" using m'(3-6) ok(3,4) by (auto simp: monitor_ok_def split: if_splits)
  with run show ?thesis by blast
qed

lemma update_event_run:
  assumes "store_ok pending s" "clients_ok s" "with_alarm eles"
  shows "\<exists>x. update_event env c eles s = (Inr (), s\<lparr>Clients := x\<rparr>)
     \<and> store_ok pending (s\<lparr>Clients := x\<rparr>) \<and> clients_ok (s\<lparr>Clients := x\<rparr>)"
proof (cases "\<exists>m R. Clients s c = Some (MonitorClient m) \<and> monitor_requester m = Some R")
  case False
  then have "update_event env c eles s = (Inr (), s\<lparr>Clients := Clients s\<rparr>)"
    by (auto simp: update_event_def split: option.split EpicsClient.split)
  with assms show ?thesis by fastforce
next
  case True
  then obtain m R where m: "Clients s c = Some (MonitorClient m)" "monitor_requester m = Some R" by blast
  obtain m' where m': "monitorEvent (UpdateQueue env) R eles m = (Inr (), m')" "monitor_ok (KafkaSet s) m'"
    using monitorEvent_ok [OF _ assms(3)] clients_okD [OF assms(2) m(1)] by fastforce
  have "update_event env c eles s = (Inr (), s\<lparr>Clients := (Clients s)(c \<mapsto> MonitorClient m')\<rparr>)"
    using m m'(1) by (simp add: update_event_def)
  moreover have "store_ok pending (s\<lparr>Clients := (Clients s)(c \<mapsto> MonitorClient m')\<rparr>)"
    using store_ok_client [OF assms(1)] m(1) by simp
  moreover have "clients_ok (s\<lparr>Clients := (Clients s)(c \<mapsto> MonitorClient m')\<rparr>)"
    using clients_ok_added [OF assms(2)] m'(2) by simp
  ultimately show ?thesis by blast
qed

end
