(* ===== verification/Timer_Events.thy ===== *)
theory Timer_Events
  imports Client_Events
begin

text \<open>
  The two timers of the forwarder: one repeats the cached updates of the monitor clients, the other
  makes up updates. While only one of them is configured every callback finds a client of the kind it
  was written for, which this theory shows; with both, the callbacks of the first dereference null.
\<close>

section \<open>Callbacks\<close>

text \<open>
  What the callbacks of the timers do; \<open>now\<close> is the clock and \<open>rand\<close> the random number, when the callback
  of a client is run. A cast that gave null is dereferenced.
\<close>

fun generate_fake :: "('q, nat option) queue_ops \<Rightarrow> u64 \<Rightarrow> u64 \<Rightarrow> ('q EpicsClient, unit) prog" where
  "generate_fake Q now rand (RandomClient c) =
     (case generateFakePVUpdate Q now rand c of (r, c') \<Rightarrow> (r, RandomClient c'))"
| "generate_fake Q now rand (MonitorClient c) = (Inl Crash, MonitorClient c)"

fun emit_cached :: "('q, nat option) queue_ops \<Rightarrow> ('q EpicsClient, unit) prog" where
  "emit_cached Q (MonitorClient c) = (case emitCachedValue Q c of (r, c') \<Rightarrow> (r, MonitorClient c'))"
| "emit_cached Q (RandomClient c) = (Inl Crash, RandomClient c)"

fun run_callback :: "('q, 'k) fwd_env \<Rightarrow> (nat \<Rightarrow> u64) \<Rightarrow> (nat \<Rightarrow> u64) \<Rightarrow> callback \<Rightarrow> (('q, 'k) Forwarder, unit) prog" where
  "run_callback env now rand (GenerateFake c) = on_client (Some c) (generate_fake (UpdateQueue env) (now c) (rand c))"
| "run_callback env now rand (EmitCached (Some c)) = on_client (Some c) (emit_cached (UpdateQueue env))"
| "run_callback env now rand (EmitCached None) = fail Crash"

text \<open>
  The wait of a timer is over: \<open>executeCallbacks\<close> on the thread of the timer.
\<close>

definition timer_event ::
  "('q, 'k) fwd_env \<Rightarrow> bool \<Rightarrow> (nat \<Rightarrow> u64) \<Rightarrow> (nat \<Rightarrow> u64) \<Rightarrow> (('q, 'k) Forwarder, unit) prog" where
  "timer_event env fake now rand s =
     (case (if fake then GenerateFakePVUpdateTimer s else PVUpdateTimer s) of
        None \<Rightarrow> (Inr (), s)
      | Some t \<Rightarrow>
          if \<not> Armed t then (Inr (), s)
          else (case executeCallbacks (run_callback env now rand) (t, s) of
                  (r, (t', s')) \<Rightarrow> (r, if fake then s'\<lparr>GenerateFakePVUpdateTimer := Some t'\<rparr>
                                       else s'\<lparr>PVUpdateTimer := Some t'\<rparr>)))"

section \<open>The invariant\<close>

fun is_random :: "'q EpicsClient \<Rightarrow> bool" where
  "is_random (MonitorClient m) \<longleftrightarrow> False"
| "is_random (RandomClient c) \<longleftrightarrow> True"

text \<open>The client of a callback exists and is of the kind the callback needs.\<close>

fun callback_ok :: "(nat \<rightharpoonup> 'q EpicsClient) \<Rightarrow> callback \<Rightarrow> bool" where
  "callback_ok cs (GenerateFake c) \<longleftrightarrow> map_option is_random (cs c) = Some True"
| "callback_ok cs (EmitCached (Some c)) \<longleftrightarrow> map_option is_random (cs c) = Some False"
| "callback_ok cs (EmitCached None) \<longleftrightarrow> False"

definition timer_ok :: "(nat \<rightharpoonup> 'q EpicsClient) \<Rightarrow> callback Timer option \<Rightarrow> bool" where
  "timer_ok cs t \<longleftrightarrow> (\<forall>x. t = Some x \<longrightarrow> list_all (callback_ok cs) (Callbacks x))"

definition callbacks_ok :: "('q, 'k) Forwarder \<Rightarrow> bool" where
  "callbacks_ok s \<longleftrightarrow> (PVUpdateTimer s = None \<or> GenerateFakePVUpdateTimer s = None)
     \<and> timer_ok (Clients s) (PVUpdateTimer s) \<and> timer_ok (Clients s) (GenerateFakePVUpdateTimer s)"

text \<open>Clients are added and changed, never removed or turned into the other kind.\<close>

definition keeps_kinds :: "(nat \<rightharpoonup> 'q EpicsClient) \<Rightarrow> (nat \<rightharpoonup> 'q EpicsClient) \<Rightarrow> bool" where
  "keeps_kinds cs cs' \<longleftrightarrow> (\<forall>c cl. cs c = Some cl \<longrightarrow> map_option is_random (cs' c) = Some (is_random cl))"

lemma keeps_kinds_refl [simp]: "keeps_kinds cs cs"
  by (simp add: keeps_kinds_def)

lemma callback_ok_kinds: "keeps_kinds cs cs' \<Longrightarrow> callback_ok cs x \<Longrightarrow> callback_ok cs' x"
  by (cases "(cs, x)" rule: callback_ok.cases) (auto simp: keeps_kinds_def)

lemma timer_ok_kinds: "keeps_kinds cs cs' \<Longrightarrow> timer_ok cs t \<Longrightarrow> timer_ok cs' t"
  by (auto simp: timer_ok_def list_all_iff callback_ok_kinds)

lemma callbacks_ok_kinds:
  assumes "callbacks_ok s" "keeps_kinds (Clients s) (Clients s')"
    "PVUpdateTimer s' = PVUpdateTimer s" "GenerateFakePVUpdateTimer s' = GenerateFakePVUpdateTimer s"
  shows "callbacks_ok s'"
  using assms timer_ok_kinds [OF assms(2)] by (simp add: callbacks_ok_def)

lemma client_kinds [simp]:
  "is_random (snd (client_stop cl)) = is_random cl"
  "is_random (snd (client_error cl)) = is_random cl"
  "is_random (snd (client_setServiceID n cl)) = is_random cl"
  "is_random (snd (client_setProducer t cl)) = is_random cl"
  "is_random (snd (get_st f cl)) = is_random cl"
  by (cases cl; simp add: case_prod_unfold prog_defs)+

lemma on_client_callbacks:
  assumes "\<And>cl. is_random (snd (m cl)) = is_random cl"
  shows "keeps_inv (callbacks_ok :: ('q, 'k) Forwarder \<Rightarrow> bool) (on_client c m)"
proof -
  have "callbacks_ok (snd (on_client c m s))" if ok: "callbacks_ok s" for s :: "('q, 'k) Forwarder"
  proof (cases "Option.bind c (Clients s)")
    case None
    with ok show ?thesis by (simp add: on_client_def)
  next
    case (Some cl)
    then obtain i where i: "c = Some i" "Clients s i = Some cl" by (cases c) auto
    let ?s = "s\<lparr>Clients := (Clients s)(i \<mapsto> snd (m cl))\<rparr>"
    have run: "snd (on_client c m s) = ?s" using i by (simp add: on_client_def case_prod_unfold)
    have "keeps_kinds (Clients s) (Clients ?s)" using i(2) assms [of cl] by (simp add: keeps_kinds_def)
    then show ?thesis unfolding run by (rule callbacks_ok_kinds [OF ok]) simp_all
  qed
  then show ?thesis by (simp add: keeps_inv_def)
qed

lemma callbacks_ok_fields [simp]:
  "callbacks_ok (s\<lparr>Paths := a\<rparr>) = callbacks_ok s"
  "callbacks_ok (s\<lparr>conv_store.Converters := b\<rparr>) = callbacks_ok s"
  "callbacks_ok (s\<lparr>KafkaSet := d\<rparr>) = callbacks_ok s"
  "callbacks_ok (s\<lparr>StreamList := e\<rparr>) = callbacks_ok s"
  "callbacks_ok (s\<lparr>InTransit := f\<rparr>) = callbacks_ok s"
  "callbacks_ok (s\<lparr>NextObj := g\<rparr>) = callbacks_ok s"
  "callbacks_ok (s\<lparr>converter_names := h\<rparr>) = callbacks_ok s"
  "callbacks_ok (s\<lparr>ForwardingRunFlag := i\<rparr>) = callbacks_ok s"
  "callbacks_ok (s\<lparr>status_producer := j\<rparr>) = callbacks_ok s"
  "callbacks_ok (s\<lparr>conversion_workers := k\<rparr>) = callbacks_ok s"
  "callbacks_ok (s\<lparr>SchemaItems := l\<rparr>) = callbacks_ok s"
  "callbacks_ok (s\<lparr>config_listener := m\<rparr>) = callbacks_ok s"
  by (simp_all add: callbacks_ok_def)

section \<open>What keeps it\<close>

lemma stream_stop_callbacks [keeps]: "keeps_inv callbacks_ok (stream_stop st)"
  unfolding stream_stop_def by (intro keeps on_client_callbacks) simp

lemma delete_ConversionPath_callbacks [keeps]: "keeps_inv callbacks_ok (delete_ConversionPath p)"
  unfolding delete_ConversionPath_def by (intro keeps keeps_upd) (simp_all split: if_splits)

lemma removal_callbacks [keeps]:
  "keeps_inv callbacks_ok (stopChannel name)" "keeps_inv callbacks_ok clearStreams" "keeps_inv callbacks_ok checkStreamStatus"
  unfolding stopChannel_def clearStreams_def checkStreamStatus_def delete_Stream_def in_error_def stream_status_def
  by (intro keeps keeps_upd on_client_callbacks; simp)+

lemma on_kafka_set_callbacks [keeps]: "keeps_inv callbacks_ok (on_kafka_set m)"
  by (rule on_kafka_set_keeps) simp

lemma on_flag_callbacks [keeps]: "keeps_inv callbacks_ok (on_flag m)"
  by (rule keeps_invI) (simp add: on_flag_def case_prod_unfold)

lemma on_status_producer_callbacks [keeps]: "keeps_inv callbacks_ok (on_status_producer m)"
  by (rule keeps_invI) (simp add: on_status_producer_def case_prod_unfold split: option.split)

lemma reportStatus_callbacks [keeps]: "keeps_inv callbacks_ok (reportStatus env topic)"
  unfolding reportStatus_def Let_def by (intro keeps)

lemma map_converters_callbacks [keeps]: "keeps_inv callbacks_ok (map_converters env opt st cs)"
  unfolding map_converters_def set_status_producer_def pushConverterToStream_def find_converter_def make_converter_def
    drop_converter_def make_path_def add_path_def
  by (cases cs) (auto intro!: keeps keeps_upd on_client_callbacks)

section \<open>Adding a mapping\<close>

lemma snd_try_catch_raise: "snd (try_catch m p (\<lambda>e. raise (f e)) s) = snd (m s)"
  by (simp add: prog_defs split: sum.split prod.split failure.split)

lemma timer_ok_register:
  "timer_ok cs t \<Longrightarrow> callback_ok cs x \<Longrightarrow> timer_ok cs (register_callback x t)"
  by (auto simp: timer_ok_def register_callback_def addCallback_def)

lemma addStream_run:
  assumes "addStream env fake provider name s = (r, s')"
  shows "(\<exists>e. r = Inl e) \<and> s' = s \<or>
    (\<exists>st cl. r = Inr st \<and> Client st = Some (NextObj s) \<and> is_random cl = fake
       \<and> s' = s\<lparr>Clients := (Clients s)(NextObj s \<mapsto> cl), NextObj := Suc (NextObj s), StreamList := StreamList s @ [st]\<rparr>)"
proof (cases "getStreamByChannelName s name \<noteq> None")
  case True
  with assms show ?thesis by (auto simp: addStream_def prog_defs)
next
  case False
  show ?thesis
  proof (cases "make_client env fake provider name")
    case (Inl e)
    with False assms show ?thesis by (auto simp: addStream_def prog_defs)
  next
    case (Inr cl)
    have "is_random cl = fake"
      using Inr by (auto simp: make_client_def bind_res_def split: if_splits sum.splits)
    with False Inr assms show ?thesis
      by (auto simp: addStream_def streams_add_def new_Stream_def prog_defs)
  qed
qed

lemma with_callbacks_ok:
  assumes "callbacks_ok s" "Client st = Some c" "map_option is_random (Clients s c) = Some fake"
    and "fake = (GenerateFakePVUpdateTimer s \<noteq> None)" "periodic = (PVUpdateTimer s \<noteq> None)"
  shows "callbacks_ok (with_callbacks fake periodic st s)"
proof (cases fake)
  case True
  then have "\<not> periodic" using assms(1,4,5) by (auto simp: callbacks_ok_def)
  with assms True timer_ok_register [of "Clients s" "GenerateFakePVUpdateTimer s" "GenerateFake c"] show ?thesis
    by (simp add: callbacks_ok_def with_callbacks_def Let_def)
next
  case False
  with assms timer_ok_register [of "Clients s" "PVUpdateTimer s" "EmitCached (Some c)"] show ?thesis
    by (simp add: callbacks_ok_def with_callbacks_def Let_def)
qed

lemma addMapping_callbacks:
  assumes "store_ok pending s" "callbacks_ok s"
  shows "callbacks_ok (snd (addMapping env si s))"
proof -
  define fake periodic where "fake = (GenerateFakePVUpdateTimer s \<noteq> None)" and "periodic = (PVUpdateTimer s \<noteq> None)"
  obtain r s1 where r: "addStream env fake (EpicsProtocol si) (StreamName si) s = (r, s1)" by fastforce
  note run = addMapping_run [of env si s, folded fake_def periodic_def]
  from addStream_run [OF r] consider e where "r = Inl e" "s1 = s"
    | st cl where "r = Inr st" "Client st = Some (NextObj s)" "is_random cl = fake"
        "s1 = s\<lparr>Clients := (Clients s)(NextObj s \<mapsto> cl), NextObj := Suc (NextObj s), StreamList := StreamList s @ [st]\<rparr>"
    by blast
  then show ?thesis
  proof cases
    case 1
    with r assms(2) show ?thesis by (simp add: run snd_try_catch_raise run_prog)
  next
    case (2 st cl)
    have "Clients s (NextObj s) = None" using store_okD(3) [OF assms(1)] by force
    then have "keeps_kinds (Clients s) (Clients s1)" by (auto simp: keeps_kinds_def 2(4))
    then have ok1: "callbacks_ok s1" by (rule callbacks_ok_kinds [OF assms(2)]) (simp_all add: 2(4))
    have new: "map_option is_random (Clients s1 (NextObj s)) = Some fake" using 2(3) by (simp add: 2(4))
    have "callbacks_ok (with_callbacks fake periodic st s1)"
      by (rule with_callbacks_ok [OF ok1 2(2) new]) (simp_all add: fake_def periodic_def 2(4))
    then show ?thesis
      using keeps_invD [OF map_converters_callbacks] r by (simp add: run snd_try_catch_raise 2(1))
  qed
qed

section \<open>The forwarder while it runs\<close>

text \<open>The streams, the clients and the timers fit together.\<close>

definition running_ok :: "('k \<Rightarrow> nat multiset) \<Rightarrow> ('q, 'k) Forwarder \<Rightarrow> bool" where
  "running_ok pending s \<longleftrightarrow> store_ok pending s \<and> clients_ok s \<and> callbacks_ok s"

lemma running_okD:
  assumes "running_ok pending s"
  shows "store_ok pending s" "clients_ok s" "callbacks_ok s"
  using assms by (simp_all add: running_ok_def)

lemma running_ok_keeps:
  assumes "\<And>s. running_ok pending s \<Longrightarrow> store_ok pending (snd (m s))" "keeps_inv clients_ok m" "keeps_inv callbacks_ok m"
  shows "keeps_inv (running_ok pending) m"
  using assms unfolding keeps_inv_def running_ok_def by blast

lemma addMapping_running:
  fixes env :: "('q, 'k) fwd_env"
  assumes "rd_client (RdKafka env) pending"
  shows "keeps_inv (running_ok pending) (addMapping env si)"
proof (rule keeps_invI)
  fix s :: "('q, 'k) Forwarder" assume s: "running_ok pending s"
  show "running_ok pending (snd (addMapping env si s))"
    using addMapping_outcome [OF assms running_okD(1) [OF s]] keeps_invD [OF addMapping_clients running_okD(2) [OF s]]
      addMapping_callbacks [OF running_okD(1,3) [OF s]] by (simp add: running_ok_def)
qed

lemma removal_running [keeps]:
  "keeps_inv (running_ok pending) (stopChannel name)" "keeps_inv (running_ok pending) clearStreams"
  "keeps_inv (running_ok pending) checkStreamStatus"
  by (rule running_ok_keeps; (intro keeps)?;
      simp add: running_okD fails_onlyD [OF stopChannel_fails] fails_onlyD [OF clearStreams_fails]
        fails_onlyD [OF checkStreamStatus_fails])+

lemma on_flag_running [keeps]: "keeps_inv (running_ok pending :: ('q, 'k) Forwarder \<Rightarrow> bool) (on_flag m)"
proof (rule running_ok_keeps)
  fix s :: "('q, 'k) Forwarder" assume s: "running_ok pending s"
  have "store_ok pending (s\<lparr>ForwardingRunFlag := f\<rparr>)" for f
    using running_okD(1) [OF s] by (subst store_ok_cong(4)) simp_all
  then show "store_ok pending (snd (on_flag m s))" by (simp add: on_flag_def case_prod_unfold)
qed (intro keeps)+

lemma config_callback_running:
  assumes "rd_client (RdKafka env) pending"
  shows "keeps_inv (running_ok pending) (config_callback env raw)"
  unfolding config_callback_def handleCommand_def handleCommandAdd_def handleCommandStopChannel_def
    handleCommandStopAll_def handleCommandExit_def stopForwarding_def Let_def
  by (intro keeps addMapping_running [OF assms])

section \<open>Running the callbacks\<close>

lemma emitCachedValue_run:
  assumes "monitor_ok ks m"
  shows "\<exists>m'. emitCachedValue Q m = (Inr (), m') \<and> monitor_ok ks m'"
proof (cases "CachedUpdate m")
  case None
  with assms show ?thesis by (simp add: emitCachedValue_def prog_defs)
next
  case (Some k)
  have ok: "refs_fresh m" "cache_ok m" "k < NextUpdate m"
      "\<forall>t. ConnectionStatusProducer m = Some t \<longrightarrow> Producers ks (KafkaProducer t) \<noteq> None"
    using assms Some by (simp_all add: monitor_ok_def)
  obtain u where u: "Updates m k = Some u" using ok(2) Some by (auto simp: cache_ok_def cached_text_def alarm_text_Some)
  define m' where "m' = m\<lparr>Updates := (Updates m)(k \<mapsto> u\<lparr>AlarmStatusChanged := True\<rparr>),
     EmitQueue := snd (enqueue Q (Some k) (EmitQueue m))\<rparr>"
  have "emitCachedValue Q m = (Inr (), m')"
    using Some u by (simp add: emitCachedValue_def mark_alarm_def get_update_def emitWithoutCaching_def queue_push_def
        prog_defs m'_def)
  moreover have "alarm_text m' r = alarm_text m r" for r using u by (simp add: m'_def alarm_text_def)
  then have "monitor_ok ks m'"
    using ok Some by (auto simp: monitor_ok_def refs_fresh_def cache_ok_def cached_text_def m'_def)
  ultimately show ?thesis by blast
qed

lemma generateFakePVUpdate_returns: "\<exists>c'. generateFakePVUpdate Q now rand c = (Inr (), c')"
  by (simp add: generateFakePVUpdate_def new_update_def random_emit_def queue_push_def prog_defs)

lemma client_put:
  assumes "running_ok pending s" "Clients s c = Some cl" "client_ok (KafkaSet s) cl'" "is_random cl' = is_random cl"
  shows "running_ok pending (s\<lparr>Clients := (Clients s)(c \<mapsto> cl')\<rparr>)" "keeps_kinds (Clients s) ((Clients s)(c \<mapsto> cl'))"
proof -
  note ok = running_okD [OF assms(1)]
  show k: "keeps_kinds (Clients s) ((Clients s)(c \<mapsto> cl'))" using assms(2,4) by (simp add: keeps_kinds_def)
  have "callbacks_ok (s\<lparr>Clients := (Clients s)(c \<mapsto> cl')\<rparr>)" by (rule callbacks_ok_kinds [OF ok(3)]) (simp_all add: k)
  then show "running_ok pending (s\<lparr>Clients := (Clients s)(c \<mapsto> cl')\<rparr>)"
    using store_ok_client [OF ok(1)] clients_ok_added [OF ok(2) assms(3)] assms(2) by (simp add: running_ok_def)
qed

lemma callback_run:
  assumes "running_ok pending s" "callback_ok (Clients s) x"
  shows "\<exists>cs. run_callback env now rand x s = (Inr (), s\<lparr>Clients := cs\<rparr>) \<and> running_ok pending (s\<lparr>Clients := cs\<rparr>)
     \<and> keeps_kinds (Clients s) cs"
  using assms(2)
proof (cases "(Clients s, x)" rule: callback_ok.cases)
  case (1 cs c)
  with assms(2) obtain m where m: "Clients s c = Some (RandomClient m)"
    by (auto elim: is_random.elims)
  obtain m' where "generateFakePVUpdate (UpdateQueue env) (now c) (rand c) m = (Inr (), m')"
    using generateFakePVUpdate_returns by blast
  with m 1 client_put [OF assms(1) m, of "RandomClient m'"] show ?thesis
    by (intro exI [of _ "(Clients s)(c \<mapsto> RandomClient m')"]) (simp add: on_client_def)
next
  case (2 cs c)
  with assms(2) obtain m where m: "Clients s c = Some (MonitorClient m)"
    by (auto elim: is_random.elims)
  have "monitor_ok (KafkaSet s) m" using clients_okD [OF running_okD(2) [OF assms(1)] m] by simp
  then obtain m' where "emitCachedValue (UpdateQueue env) m = (Inr (), m')" "monitor_ok (KafkaSet s) m'"
    using emitCachedValue_run by blast
  with m 2 client_put [OF assms(1) m, of "MonitorClient m'"] show ?thesis
    by (intro exI [of _ "(Clients s)(c \<mapsto> MonitorClient m')"]) (simp add: on_client_def)
next
  case (3 cs)
  with assms(2) show ?thesis by simp
qed

lemma keeps_kinds_trans: "keeps_kinds a b \<Longrightarrow> keeps_kinds b c \<Longrightarrow> keeps_kinds a c"
  unfolding keeps_kinds_def by (metis option.map_sel option.map_disc_iff option.sel option.collapse option.distinct(1))

lemma callbacks_run:
  assumes "running_ok pending s" "list_all (callback_ok (Clients s)) xs"
  shows "\<exists>cs. for_each (run_callback env now rand) xs s = (Inr (), s\<lparr>Clients := cs\<rparr>)
     \<and> running_ok pending (s\<lparr>Clients := cs\<rparr>) \<and> keeps_kinds (Clients s) cs"
  using assms
proof (induction xs arbitrary: s)
  case Nil
  then show ?case by (intro exI [of _ "Clients s"]) (simp add: prog_defs)
next
  case (Cons x xs)
  obtain cs where cs: "run_callback env now rand x s = (Inr (), s\<lparr>Clients := cs\<rparr>)" "running_ok pending (s\<lparr>Clients := cs\<rparr>)"
      "keeps_kinds (Clients s) cs"
    using callback_run [OF Cons.prems(1)] Cons.prems(2) by fastforce
  have "list_all (callback_ok (Clients (s\<lparr>Clients := cs\<rparr>))) xs"
    using Cons.prems(2) callback_ok_kinds [OF cs(3)] by (simp add: list_all_iff)
  from Cons.IH [OF cs(2) this] obtain cs' where "for_each (run_callback env now rand) xs (s\<lparr>Clients := cs\<rparr>) = (Inr (), s\<lparr>Clients := cs'\<rparr>)"
      "running_ok pending (s\<lparr>Clients := cs'\<rparr>)" "keeps_kinds cs cs'" by auto
  with cs keeps_kinds_trans [OF cs(3)] show ?case by (auto simp: run_thn)
qed

lemma timer_ok_callbacks: "timer_ok cs (Some t) \<Longrightarrow> list_all (callback_ok cs) (Callbacks t)"
  by (simp add: timer_ok_def)

lemma timer_ok_same: "map_option Callbacks t' = map_option Callbacks t \<Longrightarrow> timer_ok cs t' = timer_ok cs t"
  by (cases t; cases t') (simp_all add: timer_ok_def)

lemma timers_put:
  assumes "running_ok pending s"
    and "map_option Callbacks a = map_option Callbacks (PVUpdateTimer s)"
    and "map_option Callbacks b = map_option Callbacks (GenerateFakePVUpdateTimer s)"
  shows "running_ok pending (s\<lparr>PVUpdateTimer := a, GenerateFakePVUpdateTimer := b\<rparr>)"
proof -
  let ?s = "s\<lparr>PVUpdateTimer := a, GenerateFakePVUpdateTimer := b\<rparr>"
  note ok = running_okD [OF assms(1)]
  have "store_ok pending ?s" using ok(1) by (subst store_ok_cong(4)) simp_all
  moreover have "clients_ok ?s" using ok(2) by (subst clients_ok_cong) simp_all
  moreover have ab: "a = None \<longleftrightarrow> PVUpdateTimer s = None" "b = None \<longleftrightarrow> GenerateFakePVUpdateTimer s = None"
    using assms(2,3) by (metis option.map_disc_iff)+
  have "callbacks_ok ?s"
    using ab ok(3) timer_ok_same [OF assms(2), of "Clients s"] timer_ok_same [OF assms(3), of "Clients s"] by (simp add: callbacks_ok_def)
  ultimately show ?thesis by (simp add: running_ok_def)
qed

text \<open>The end of a wait: every callback finds its client, and the timer waits again while it is to run.\<close>

lemma timer_event_run:
  assumes "running_ok pending s"
  shows "\<exists>cs a b. timer_event env fake now rand s = (Inr (), s\<lparr>Clients := cs, PVUpdateTimer := a, GenerateFakePVUpdateTimer := b\<rparr>)
     \<and> running_ok pending (s\<lparr>Clients := cs, PVUpdateTimer := a, GenerateFakePVUpdateTimer := b\<rparr>)
     \<and> map_option TimerThread a = map_option TimerThread (PVUpdateTimer s)
     \<and> map_option TimerThread b = map_option TimerThread (GenerateFakePVUpdateTimer s)"
proof (cases "if fake then GenerateFakePVUpdateTimer s else PVUpdateTimer s")
  case None
  with assms show ?thesis
    by (intro exI [of _ "Clients s"] exI [of _ "PVUpdateTimer s"] exI [of _ "GenerateFakePVUpdateTimer s"])
       (simp add: timer_event_def)
next
  case (Some t)
  have "timer_ok (Clients s) (Some t)"
    using running_okD(3) [OF assms] Some by (auto simp: callbacks_ok_def split: if_splits)
  from callbacks_run [OF assms timer_ok_callbacks [OF this]] obtain cs where
      cs: "for_each (run_callback env now rand) (Callbacks t) s = (Inr (), s\<lparr>Clients := cs\<rparr>)" "running_ok pending (s\<lparr>Clients := cs\<rparr>)"
    by blast
  define cs' where "cs' = (if Armed t \<and> TimerRunning t then cs else Clients s)"
  define t' where "t' = (if Armed t then t\<lparr>Armed := TimerRunning t\<rparr> else t)"
  define a where "a = (if fake then PVUpdateTimer s else Some t')"
  define b where "b = (if fake then Some t' else GenerateFakePVUpdateTimer s)"
  have run: "timer_event env fake now rand s =
      (Inr (), s\<lparr>Clients := cs', PVUpdateTimer := a, GenerateFakePVUpdateTimer := b\<rparr>)"
    using Some cs(1)
    by (cases fake; cases "Armed t"; cases "TimerRunning t")
       (simp_all add: timer_event_def executeCallbacks_def cs'_def t'_def a_def b_def)
  have "running_ok pending (s\<lparr>Clients := cs'\<rparr>)" using cs(2) assms by (simp add: cs'_def)
  then have "running_ok pending (s\<lparr>Clients := cs'\<rparr>\<lparr>PVUpdateTimer := a, GenerateFakePVUpdateTimer := b\<rparr>)"
    using Some by (intro timers_put) (auto simp: a_def b_def t'_def split: if_splits)
  moreover have "map_option TimerThread a = map_option TimerThread (PVUpdateTimer s)"
      "map_option TimerThread b = map_option TimerThread (GenerateFakePVUpdateTimer s)"
    using Some by (auto simp: a_def b_def t'_def split: if_splits)
  ultimately show ?thesis using run by (intro exI [of _ cs'] exI [of _ a] exI [of _ b]) simp
qed

section \<open>Events of the EPICS library\<close>

lemma epics_events_kinds:
  "keeps_kinds (Clients s) (Clients (snd (connection_event env c g now st s)))"
  "keeps_kinds (Clients s) (Clients (snd (update_event env c eles s)))"
  by (auto simp: connection_event_def update_event_def keeps_kinds_def case_prod_unfold split: option.splits EpicsClient.splits)

lemma connection_event_running:
  assumes "rd_client (RdKafka env) pending" "running_ok pending s"
  shows "\<exists>x ks. connection_event env c g now st s = (Inr (), s\<lparr>Clients := x, KafkaSet := ks\<rparr>)
     \<and> running_ok pending (s\<lparr>Clients := x, KafkaSet := ks\<rparr>)"
proof -
  note ok = running_okD [OF assms(2)]
  obtain x ks where x: "connection_event env c g now st s = (Inr (), s\<lparr>Clients := x, KafkaSet := ks\<rparr>)"
      "store_ok pending (s\<lparr>Clients := x, KafkaSet := ks\<rparr>)" "clients_ok (s\<lparr>Clients := x, KafkaSet := ks\<rparr>)"
    using connection_event_run [OF assms(1) ok(1,2)] by blast
  have "callbacks_ok (s\<lparr>Clients := x, KafkaSet := ks\<rparr>)"
    using epics_events_kinds(1) [of s env c g now st] x(1) by (intro callbacks_ok_kinds [OF ok(3)]) simp_all
  with x show ?thesis by (auto simp: running_ok_def)
qed

lemma update_event_running:
  assumes "running_ok pending s" "with_alarm eles"
  shows "\<exists>x. update_event env c eles s = (Inr (), s\<lparr>Clients := x\<rparr>) \<and> running_ok pending (s\<lparr>Clients := x\<rparr>)"
proof -
  note ok = running_okD [OF assms(1)]
  obtain x where x: "update_event env c eles s = (Inr (), s\<lparr>Clients := x\<rparr>)"
      "store_ok pending (s\<lparr>Clients := x\<rparr>)" "clients_ok (s\<lparr>Clients := x\<rparr>)"
    using update_event_run [OF ok(1,2) assms(2)] by blast
  have "callbacks_ok (s\<lparr>Clients := x\<rparr>)"
    using epics_events_kinds(2) [of s env c eles] x(1) by (intro callbacks_ok_kinds [OF ok(3)]) simp_all
  with x show ?thesis by (auto simp: running_ok_def)
qed

section \<open>Both timers\<close>

lemma generate_fake_fails: "fst (generate_fake Q now rand cl) = Inl f \<Longrightarrow> f = Crash"
proof (cases cl)
  case (RandomClient c)
  obtain c' where "generateFakePVUpdate Q now rand c = (Inr (), c')" using generateFakePVUpdate_returns by blast
  then show "fst (generate_fake Q now rand cl) = Inl f \<Longrightarrow> f = Crash" by (simp add: RandomClient)
qed simp

lemma emit_cached_fails: "fst (emit_cached Q cl) = Inl f \<Longrightarrow> f = Crash"
  by (cases cl) (auto simp: emitCachedValue_def mark_alarm_def get_update_def emitWithoutCaching_def queue_push_def
      prog_defs deref_def split: prod.splits option.splits)

lemma run_callback_fails: "fst (run_callback env now rand x s) = Inl f \<Longrightarrow> f = Crash"
  by (cases "(env, now, rand, x)" rule: run_callback.cases)
     (auto simp: on_client_def prog_defs case_prod_unfold dest: generate_fake_fails emit_cached_fails split: option.splits)

lemma for_each_crash:
  assumes "EmitCached None \<in> set xs"
  shows "fst (for_each (run_callback env now rand) xs s) = Inl Crash"
  using assms
proof (induction xs arbitrary: s)
  case (Cons x xs)
  obtain r s' where r: "run_callback env now rand x s = (r, s')" by fastforce
  show ?case
  proof (cases r)
    case (Inl f)
    then have "f = Crash" using r by (intro run_callback_fails [of env now rand x s]) simp
    with Inl r show ?thesis by (simp add: run_thn)
  next
    case (Inr u)
    then have "x \<noteq> EmitCached None" using r by (auto simp: prog_defs)
    with Cons Inr r show ?thesis by (simp add: run_thn)
  qed
qed simp

lemma map_converters_timer: "keeps_inv (\<lambda>s. PVUpdateTimer s = x) (map_converters env opt st cs)"
  unfolding map_converters_def set_status_producer_def pushConverterToStream_def find_converter_def make_converter_def
    drop_converter_def make_path_def add_path_def delete_ConversionPath_def
  by (cases cs) (auto intro!: keeps keeps_upd on_client_keeps on_kafka_set_keeps)

lemma addMapping_null_callback:
  assumes "PVUpdateTimer s = Some t" "GenerateFakePVUpdateTimer s \<noteq> None" "addMapping env si s = (Inr (), s')"
  shows "PVUpdateTimer s' = Some (addCallback (EmitCached None) t)"
proof -
  obtain r s1 where r: "addStream env True (EpicsProtocol si) (StreamName si) s = (r, s1)" by fastforce
  have "\<nexists>e. r = Inl e" using assms r by (auto simp: addMapping_run prog_defs split: if_splits failure.splits)
  with addStream_run [OF r] obtain st cl where st: "r = Inr st"
      "s1 = s\<lparr>Clients := (Clients s)(NextObj s \<mapsto> cl), NextObj := Suc (NextObj s), StreamList := StreamList s @ [st]\<rparr>"
    by blast
  define s2 where "s2 = with_callbacks True True st s1"
  have "PVUpdateTimer s2 = Some (addCallback (EmitCached None) t)"
    using assms(1) by (simp add: s2_def with_callbacks_def st(2) register_callback_def Let_def)
  from keeps_invD [OF map_converters_timer this, of env "main_opt s" st "StreamSettings.Converters si"]
  have "PVUpdateTimer (snd (map_converters env (main_opt s) st (StreamSettings.Converters si) s2)) =
      Some (addCallback (EmitCached None) t)" .
  moreover have "s' = snd (map_converters env (main_opt s) st (StreamSettings.Converters si) s2)"
    using assms r snd_try_catch_raise [of "map_converters env (main_opt s) st (StreamSettings.Converters si)" is_runtime_error
        "Nested (MappingAddException ''Cannot add stream'')" s2]
    by (simp add: addMapping_run st(1) s2_def)
  ultimately show ?thesis by simp
qed

text \<open>
  C36: With both timers configured, the first mapping makes the next end of a wait of the timer that repeats
  updates crash the program: the callback was given a null pointer.
\<close>

theorem both_timers_crash:
  assumes "PVUpdateTimer s = Some t" "TimerRunning t" "Armed t" "GenerateFakePVUpdateTimer s \<noteq> None"
    and "addMapping env si s = (Inr (), s')"
  shows "fst (timer_event env False now rand s') = Inl Crash"
proof -
  have t: "PVUpdateTimer s' = Some (addCallback (EmitCached None) t)"
    by (rule addMapping_null_callback [OF assms(1,4,5)])
  have "fst (for_each (run_callback env now rand) (Callbacks (addCallback (EmitCached None) t)) s') = Inl Crash"
    by (rule for_each_crash) (simp add: addCallback_def)
  with t assms(2,3) show ?thesis
    by (simp add: timer_event_def executeCallbacks_def addCallback_def case_prod_unfold)
qed

lemma both_timers_crash_witness:
  "\<exists>s'. addMapping example_env (example_mapping ''f142'') (example_forwarder\<lparr>PVUpdateTimer := Some (timer_start new_Timer),
        GenerateFakePVUpdateTimer := Some (timer_start new_Timer)\<rparr>) = (Inr (), s')
     \<and> fst (timer_event example_env False (\<lambda>_. 0) (\<lambda>_. 0) s') = Inl Crash"
proof -
  let ?s = "example_forwarder\<lparr>PVUpdateTimer := Some (timer_start new_Timer),
        GenerateFakePVUpdateTimer := Some (timer_start new_Timer)\<rparr>"
  obtain s' where s': "addMapping example_env (example_mapping ''f142'') ?s = (Inr (), s')"
    by (simp add: example_run)
  then show ?thesis
    using both_timers_crash [OF _ _ _ _ s', of "timer_start new_Timer"] by (simp add: timer_start_def)
qed

end
