(* ===== verification/Metrics_Report.thy ===== *)
theory Metrics_Report
  imports Kafka_Instances Main_Opt
begin

text \<open>
  \<open>MetricsReporter.cpp\<close>: the figures that go to the log every two seconds and
  to an InfluxDB server if one is configured. Parameters: \<open>gethostname\<close>, the printing of a \<open>double\<close>, and whether the program was built with
  CURL.
\<close>

section \<open>Host name\<close>

text \<open>
  The buffer of 256 zero bytes after \<open>gethostname\<close>, which writes the name and, when there is room, a zero
  byte; \<open>None\<close> is an error, which leaves the buffer as it is.
\<close>

definition hostname_buffer :: "string option \<Rightarrow> string" where
  "hostname_buffer host = (case host of
     None \<Rightarrow> replicate 256 (char_of (0::nat))
   | Some h \<Rightarrow> take 256 (h @ replicate 256 (char_of (0::nat))))"

definition getHostname :: "string option \<Rightarrow> string" where
  "getHostname host =
     (let Hostname = hostname_buffer host in
      if last Hostname \<noteq> char_of (0::nat) then Hostname[255 := char_of (0::nat)] else Hostname)"

text \<open>The text a \<open>char const *\<close> stands for.\<close>

definition c_text :: "string \<Rightarrow> string" where
  "c_text mem = takeWhile (\<lambda>c. c \<noteq> char_of (0::nat)) mem"

section \<open>Figures\<close>

definition split_messages :: "u64 \<Rightarrow> u64 \<times> u64" where
  "split_messages n = (n div 1000, n mod 1000)"

definition split_bytes :: "u64 \<Rightarrow> u64 \<times> u64 \<times> u64" where
  "split_bytes n = (let b2 = n div 1024; b1 = n mod 1024; b3 = b2 div 1024 in (b3, b2 mod 1024, b1))"

text \<open>\<open>{:w}\<close> and \<open>{:0w}\<close> of an unsigned number.\<close>

definition pad :: "char \<Rightarrow> nat \<Rightarrow> string \<Rightarrow> string" where
  "pad c w t = replicate (w - length t) c @ t"

definition metrics_line :: "u64 \<Rightarrow> u64 \<Rightarrow> string" where
  "metrics_line msgs bytes =
     (let (m2, m1) = split_messages msgs; (b3, b2, b1) = split_bytes bytes in
      ''m: '' @ pad CHR '' '' 4 (dec (unat m2)) @ ''.'' @ pad CHR ''0'' 3 (dec (unat m1))
      @ ''  b: '' @ pad CHR '' '' 3 (dec (unat b3)) @ ''.'' @ pad CHR ''0'' 3 (dec (unat b2)) @ ''.''
      @ pad CHR ''0'' 3 (dec (unat b1)))"

section \<open>The report\<close>

definition line_start :: "string \<Rightarrow> nat \<Rightarrow> string" where
  "line_start host i1 = ''forward-epics-to-kafka,hostname='' @ host @ '',set='' @ dec i1"

definition newline :: string where
  "newline = [char_of (10::nat)]"

definition producer_line :: "(u64 \<Rightarrow> string) \<Rightarrow> string \<Rightarrow> nat \<Rightarrow> ProducerStats \<Rightarrow> string" where
  "producer_line as_double host i1 s =
     line_start host i1
     @ '' produced='' @ dec (unat (produced s))
     @ '',produce_fail='' @ dec (unat (produce_fail s))
     @ '',local_queue_full='' @ dec (unat (local_queue_full s))
     @ '',produce_cb='' @ dec (unat (produce_cb s))
     @ '',produce_cb_fail='' @ dec (unat (produce_cb_fail s))
     @ '',poll_served='' @ dec (unat (poll_served s))
     @ '',msg_too_large='' @ dec (unat (msg_too_large s))
     @ '',produced_bytes='' @ as_double (produced_bytes s)
     @ '',outq='' @ dec (unat (out_queue s))
     @ newline"

fun stats_text :: "(string \<times> u64) list \<Rightarrow> nat \<Rightarrow> string" where
  "stats_text [] i2 = []"
| "stats_text ((k, v) # xs) i2 =
     (if i2 > 0 then '','' else '' '') @ k @ ''='' @ dec (unat v) @ stats_text xs (Suc i2)"

definition converter_line :: "string \<Rightarrow> nat \<Rightarrow> (string \<times> u64) list \<Rightarrow> string" where
  "converter_line host i1 stats = line_start host i1 @ stats_text stats 0 @ newline"

fun numbered :: "(nat \<Rightarrow> 'a \<Rightarrow> string) \<Rightarrow> 'a list \<Rightarrow> nat \<Rightarrow> string" where
  "numbered line [] i = []"
| "numbered line (x # xs) i = line i x @ numbered line xs (Suc i)"

text \<open>
  \<open>reportMetrics\<close>: the line for the log, and the text sent to the server if there is one. The reporter's
  map of converters is the list of their statistics.
\<close>

definition reportMetrics ::
  "'k rdkafka \<Rightarrow> bool \<Rightarrow> (u64 \<Rightarrow> string) \<Rightarrow> string option \<Rightarrow> MainOpt \<Rightarrow> (string \<times> u64) list list \<Rightarrow>
   ('k InstanceSet, string \<times> string option) prog" where
  "reportMetrics K HaveCURL as_double host MainOptions converters =
     thn (logMetrics K)
     (bnd (get_st (\<lambda>ks. metrics_line (total_msgs_to_kafka ks) (total_bytes_to_kafka ks))) (\<lambda>line.
      if HaveCURL \<and> InfluxURI MainOptions \<noteq> []
      then bnd (get_st (\<lambda>_. c_text (getHostname host))) (\<lambda>Hostname.
           bnd getStatsForAllProducers (\<lambda>stats.
           ret (line, Some (numbered (producer_line as_double Hostname) stats 0
                            @ numbered (converter_line Hostname) converters 0))))
      else ret (line, None)))"

section \<open>Properties\<close>

lemma length_hostname_buffer: "length (hostname_buffer host) = 256"
  by (cases host) (simp_all add: hostname_buffer_def)

lemma getHostname_terminated: "length (getHostname host) = 256 \<and> last (getHostname host) = char_of (0::nat)"
proof -
  have len: "length (hostname_buffer host) = 256" by (rule length_hostname_buffer)
  then have "hostname_buffer host \<noteq> []" by auto
  then show ?thesis using len by (simp add: getHostname_def Let_def last_list_update)
qed

lemma takeWhile_take_eq:
  "\<forall>c \<in> set h. P c \<Longrightarrow> \<not> P z \<Longrightarrow> takeWhile P (take n h @ z # rest) = take n h"
  by (subst takeWhile_append2) (auto dest: in_set_takeD)

lemma hostname_of:
  assumes "\<forall>c \<in> set h. c \<noteq> char_of (0::nat)"
  shows "c_text (getHostname (Some h)) = take 255 h"
proof (cases "length h < 256")
  case True
  then have "hostname_buffer (Some h) = h @ char_of (0::nat) # replicate (255 - length h) (char_of (0::nat))"
    by (simp add: hostname_buffer_def take_replicate min_def flip: replicate_Suc Suc_diff_le)
  moreover have "last (h @ char_of (0::nat) # replicate (255 - length h) (char_of (0::nat))) = char_of (0::nat)"
    by (simp add: last_replicate)
  ultimately have "getHostname (Some h) = take 255 h @ char_of (0::nat) # replicate (255 - length h) (char_of (0::nat))"
    using True by (simp add: getHostname_def)
  then show ?thesis unfolding c_text_def using assms by (simp only: takeWhile_take_eq)
next
  case False
  then have buf: "hostname_buffer (Some h) = take 256 h" by (simp add: hostname_buffer_def)
  have "last (take 256 h) \<in> set h" using False by (metis in_set_takeD last_in_set list.size(3) not_less take_eq_Nil zero_neq_numeral zero_less_numeral)
  then have "getHostname (Some h) = (take 256 h)[255 := char_of (0::nat)]" using assms buf by (auto simp: getHostname_def Let_def)
  also have "\<dots> = take 255 h @ [char_of (0::nat)]"
    using False by (simp add: upd_conv_take_nth_drop min_def)
  finally show ?thesis unfolding c_text_def using assms by (simp only: takeWhile_take_eq)
qed

lemma split_messages_sum: "split_messages n = (m2, m1) \<Longrightarrow> m2 * 1000 + m1 = n \<and> m1 < 1000"
  by (auto simp: split_messages_def word_less_nat_alt unat_mod_distrib div_mult_mod_eq)

lemma split_bytes_sum:
  assumes "split_bytes n = (b3, b2, b1)"
  shows "b3 * 1048576 + b2 * 1024 + b1 = n \<and> b2 < 1024 \<and> b1 < 1024"
proof -
  let ?k = "n div 1024"
  have b: "b3 = ?k div 1024" "b2 = ?k mod 1024" "b1 = n mod 1024" using assms by (auto simp: split_bytes_def Let_def)
  have "b3 * 1048576 + b2 * 1024 = (?k div 1024 * 1024 + ?k mod 1024) * 1024" by (simp add: b algebra_simps)
  also have "\<dots> = ?k * 1024" by (simp only: div_mult_mod_eq)
  finally have "b3 * 1048576 + b2 * 1024 + b1 = n" by (simp add: b(3) div_mult_mod_eq)
  moreover have "b2 < 1024" "b1 < 1024" by (simp_all add: b word_less_nat_alt unat_mod_distrib)
  ultimately show ?thesis by blast
qed

lemma stats_run:
  assumes "\<forall>(h, i) \<in> set hs. Producers ks i \<noteq> None"
  shows "map_prog (\<lambda>(h, i). on_producer i (get_st (f h))) hs ks =
     (Inr (map (\<lambda>(h, i). f h (the (Producers ks i))) hs), ks)"
  using assms
proof (induction hs)
  case (Cons x hs)
  obtain h i where x: "x = (h, i)" by fastforce
  with Cons.prems obtain p where p: "Producers ks i = Some p" by auto
  then have "(Producers ks)(i \<mapsto> p) = Producers ks" by (simp add: fun_eq_iff)
  then have "on_producer i (get_st (f h)) ks = (Inr (f h p), ks)" using p by (simp add: on_producer_def prog_defs)
  moreover have "map_prog (\<lambda>(h, i). on_producer i (get_st (f h))) hs ks =
     (Inr (map (\<lambda>(h, i). f h (the (Producers ks i))) hs), ks)" using Cons by simp
  ultimately show ?case by (simp add: x p run_bnd run_prog(1))
qed (simp add: prog_defs)

text \<open>A report reads the producers and changes nothing.\<close>

lemma reads_producers:
  assumes "instances_ok pending ks"
  shows "\<exists>x. logMetrics K ks = (Inr x, ks)"
    "getStatsForAllProducers ks = (Inr (map (\<lambda>(host, i). Stats (the (Producers ks i))) (ProducersByHost ks)), ks)"
proof -
  have known: "\<forall>(h, i) \<in> set (ProducersByHost ks). Producers ks i \<noteq> None"
    using assms by (fastforce simp: instances_ok_def)
  show "\<exists>x. logMetrics K ks = (Inr x, ks)"
    using stats_run [OF known, of "\<lambda>h p. (h, TotalMessagesProduced p, outputQueueLength K p)"]
    by (simp add: logMetrics_def prog_defs)
  show "getStatsForAllProducers ks = (Inr (map (\<lambda>(host, i). Stats (the (Producers ks i))) (ProducersByHost ks)), ks)"
    using stats_run [OF known, of "\<lambda>h. Stats"] by (simp add: getStatsForAllProducers_def prog_defs)
qed

lemma reportMetrics_returns:
  "instances_ok pending ks \<Longrightarrow> \<exists>x. reportMetrics K HaveCURL as_double host MainOptions cs ks = (Inr x, ks)"
  using reads_producers(1) [of pending ks K] reads_producers(2) [of pending ks] by (auto simp: reportMetrics_def prog_defs)

text \<open>The metrics report changes nothing and never fails: the log line has the totals of messages and
  bytes, split into thousands and into units of 1024 that add up to them again, and, when a server is
  configured, the text sent to it has one line per producer in the order of the host names, numbered
  from 0, for a host name that is cut to what fits with its terminator into 256 bytes.\<close>

theorem reportMetrics_result:
  assumes "instances_ok pending ks" "\<forall>c \<in> set h. c \<noteq> char_of (0::nat)"
  shows "(\<exists>m2 m1 b3 b2 b1. split_messages (total_msgs_to_kafka ks) = (m2, m1) \<and> split_bytes (total_bytes_to_kafka ks) = (b3, b2, b1)
       \<and> m2 * 1000 + m1 = total_msgs_to_kafka ks \<and> m1 < 1000
       \<and> b3 * 1048576 + b2 * 1024 + b1 = total_bytes_to_kafka ks \<and> b2 < 1024 \<and> b1 < 1024)
     \<and> reportMetrics K HaveCURL as_double (Some h) MainOptions [] ks =
        (Inr (metrics_line (total_msgs_to_kafka ks) (total_bytes_to_kafka ks),
              if HaveCURL \<and> InfluxURI MainOptions \<noteq> []
              then Some (numbered (producer_line as_double (take 255 h))
                     (map (\<lambda>(host, i). Stats (the (Producers ks i))) (ProducersByHost ks)) 0)
              else None), ks)"
proof -
  have "reportMetrics K HaveCURL as_double (Some h) MainOptions [] ks =
        (Inr (metrics_line (total_msgs_to_kafka ks) (total_bytes_to_kafka ks),
              if HaveCURL \<and> InfluxURI MainOptions \<noteq> []
              then Some (numbered (producer_line as_double (take 255 h))
                     (map (\<lambda>(host, i). Stats (the (Producers ks i))) (ProducersByHost ks)) 0)
              else None), ks)"
    using reads_producers(1) [OF assms(1), of K] reads_producers(2) [OF assms(1)] by (auto simp: reportMetrics_def prog_defs hostname_of [OF assms(2)])
  then show ?thesis
    using split_messages_sum split_bytes_sum by (cases "split_bytes (total_bytes_to_kafka ks)", cases "split_messages (total_msgs_to_kafka ks)") blast
qed

lemma reportMetrics_result_witness:
  "snd (reportMetrics (list_client 9) True (\<lambda>_. ''0'') (Some ''host'') (MainOpt_default 3) [] one_producer) = one_producer
   \<and> (\<exists>m2 m1. split_messages (total_msgs_to_kafka one_producer) = (m2, m1) \<and> m2 * 1000 + m1 = total_msgs_to_kafka one_producer)"
proof -
  have "\<forall>c \<in> set ''host''. c \<noteq> char_of (0::nat)" by (simp add: char_of_def)
  from reportMetrics_result [OF one_producer_ok this, of "list_client 9" True "\<lambda>_. ''0''" "MainOpt_default 3"]
  show ?thesis by (elim conjE exE) (simp only: snd_conv, blast)
qed

end
