(* ===== verification/Reporter.thy ===== *)
theory Reporter
  imports Status_Report Metrics_Report
begin

text \<open>
  The life of the two reporters, \<open>StatusReporter\<close> and \<open>MetricsReporter\<close>: the constructor arms a timer and
  starts a thread for its handler, a report arms the timer again, the destructor stops the event loop and
  joins the thread. Of the asio library only this is modelled: the handler of a pending wait runs once,
  when the wait ends or is cancelled, and none runs after \<open>IO.stop\<close>.
\<close>

section \<open>Construction, reports, destruction\<close>

record reporter =
  ReporterArmed :: bool
  ReporterStopped :: bool
  ReporterThread :: bool

definition new_Reporter :: reporter where
  "new_Reporter = \<lparr>ReporterArmed = True, ReporterStopped = False, ReporterThread = True\<rparr>"

definition new_MetricsReporter :: reporter where
  "new_MetricsReporter = \<lparr>ReporterArmed = True, ReporterStopped = False, ReporterThread = True\<rparr>"

text \<open>
  The handler of a wait; \<open>aborted\<close> is \<open>operation_aborted\<close>. \<open>report\<close> returns whether it armed the timer
  again; an exception leaves the thread.
\<close>

definition wait_over :: "('s, bool) prog \<Rightarrow> bool \<Rightarrow> (reporter \<times> 's, unit) prog" where
  "wait_over report aborted = (\<lambda>(r, s).
     if \<not> ReporterArmed r \<or> ReporterStopped r then (Inr (), (r, s))
     else if aborted then (Inr (), (r\<lparr>ReporterArmed := False\<rparr>, s))
     else (case report s of
             (Inl f, s') \<Rightarrow> (Inl f, (r\<lparr>ReporterArmed := False\<rparr>, s'))
           | (Inr again, s') \<Rightarrow> (Inr (), (r\<lparr>ReporterArmed := again\<rparr>, s'))))"

definition delete_MetricsReporter :: "(reporter \<times> 's, unit) prog" where
  "delete_MetricsReporter =
     thn (upd_st (\<lambda>(r, s). (r\<lparr>ReporterStopped := True\<rparr>, s)))
     (bnd (get_st (\<lambda>(r, s). ReporterThread r)) (\<lambda>joinable.
      if \<not> joinable then raise (RuntimeError ''Invalid argument'')
      else upd_st (\<lambda>(r, s). (r\<lparr>ReporterThread := False\<rparr>, s))))"

definition status_report :: "('q, 'k) fwd_env \<Rightarrow> string option \<Rightarrow> (('q, 'k) Forwarder, bool) prog" where
  "status_report env topic = bnd (reportStatus env topic) (\<lambda>line. ret (line \<noteq> None))"

definition status_wait_over :: "('q, 'k) fwd_env \<Rightarrow> string option \<Rightarrow> bool \<Rightarrow> (reporter \<times> ('q, 'k) Forwarder, unit) prog" where
  "status_wait_over env topic = wait_over (status_report env topic)"

definition metrics_wait_over ::
  "'k rdkafka \<Rightarrow> bool \<Rightarrow> (u64 \<Rightarrow> string) \<Rightarrow> string option \<Rightarrow> MainOpt \<Rightarrow> bool \<Rightarrow> (reporter \<times> 'k InstanceSet, unit) prog" where
  "metrics_wait_over K HaveCURL as_double host MainOptions =
     wait_over (thn (reportMetrics K HaveCURL as_double host MainOptions []) (ret True))"

definition delete_Reporter :: "(reporter \<times> 's, unit) prog" where
  "delete_Reporter =
     thn (upd_st (\<lambda>(r, s). (r\<lparr>ReporterStopped := True\<rparr>, s)))
     (bnd (get_st (\<lambda>(r, s). ReporterThread r)) (\<lambda>joinable.
      if \<not> joinable then raise (RuntimeError ''Invalid argument'')
      else upd_st (\<lambda>(r, s). (r\<lparr>ReporterThread := False\<rparr>, s))))"

section \<open>What a reporter does\<close>

lemma silent_waits: "\<not> ReporterArmed r \<or> ReporterStopped r \<Longrightarrow> for_each (wait_over report) ws (r, s) = (Inr (), (r, s))"
  by (induction ws) (simp_all add: prog_defs wait_over_def)

text \<open>
  A report that keeps an invariant and always arms the timer again is made once per wait.
\<close>

lemma repeated_waits:
  assumes "\<And>s. I s \<Longrightarrow> \<exists>s'. report s = (Inr True, s') \<and> I s'" "I s" "ReporterArmed r" "\<not> ReporterStopped r"
  shows "\<exists>s'. for_each (wait_over report) (replicate n False) (r, s) = (Inr (), (r, s')) \<and> I s'
     \<and> for_each (\<lambda>_. thn report (ret ())) (replicate n False) s = (Inr (), s')"
  using assms(2)
proof (induction n arbitrary: s)
  case 0
  then show ?case by (simp add: prog_defs)
next
  case (Suc n)
  obtain s1 where s1: "report s = (Inr True, s1)" "I s1" using assms(1) [OF Suc.prems] by blast
  have "wait_over report False (r, s) = (Inr (), (r, s1))"
    using s1(1) assms(3,4) by (simp add: wait_over_def)
  moreover have "thn report (ret ()) s = (Inr (), s1)" using s1(1) by (simp add: prog_defs)
  ultimately show ?case using Suc.IH [OF s1(2)] by (simp add: run_thn)
qed

text \<open>One status report of a forwarder that is not waiting for a packet.\<close>

lemma reportStatus_idle:
  assumes "rd_client (RdKafka env) pending" "store_ok pending s" "idle s" "reporter_ok pending (Some t) s"
  shows "\<exists>line s1 p'. checkStreamStatus s = (Inr (), s1) \<and> idle s1 \<and> producer_ok pending p'
     \<and> reportStatus env (Some t) s = (Inr (Some line), s1\<lparr>status_producer := Some p'\<rparr>)"
proof -
  note sok = store_okD(1) [OF assms(2)]
  obtain s1 where s1: "checkStreamStatus s = (Inr (), s1)" "idle s1"
    using removes_idle [OF sok checkStreamStatus_removes [OF sok] assms(3)] by blast
  then show ?thesis using reportStatus_run [OF assms(1,2,4)] by (auto simp: Let_def)
qed

lemma reportStatus_again:
  assumes "rd_client (RdKafka env) pending" "store_ok pending s \<and> idle s \<and> reporter_ok pending (Some t) s"
  shows "\<exists>s'. status_report env (Some t) s = (Inr True, s')
     \<and> store_ok pending s' \<and> idle s' \<and> reporter_ok pending (Some t) s'"
proof -
  obtain line s1 p' where r: "checkStreamStatus s = (Inr (), s1)" "idle s1" "producer_ok pending p'"
      "reportStatus env (Some t) s = (Inr (Some line), s1\<lparr>status_producer := Some p'\<rparr>)"
    using reportStatus_idle [OF assms(1)] assms(2) by blast
  have "store_ok pending s1" using fails_onlyD [OF checkStreamStatus_fails] assms(2) r(1) by (metis snd_conv)
  then have "store_ok pending (s1\<lparr>status_producer := Some p'\<rparr>)" by (subst store_ok_cong(4)) simp_all
  with r show ?thesis by (simp add: status_report_def run_bnd run_prog idle_def reporter_ok_def)
qed

section \<open>Properties\<close>

text \<open>
  C38: The status reporter. Without a topic its first wait is its last and no report is ever made. With one,
  every wait that ends makes one report and arms the timer again, until the reporter is destroyed; destroying
  it returns, and no report is made afterwards. The metrics reporter goes on after every wait and leaves
  the producers as they are.
\<close>

theorem status_reporter_life:
  assumes "rd_client (RdKafka env) pending" "store_ok pending s" "idle s" "reporter_ok pending (Some t) s"
  shows "(\<exists>r. for_each (status_wait_over env None) (w # ws) (new_Reporter, s) = (Inr (), (r, s)) \<and> \<not> ReporterArmed r)
    \<and> (\<exists>s'. for_each (status_wait_over env (Some t)) (replicate n False) (new_Reporter, s) = (Inr (), (new_Reporter, s'))
       \<and> for_each (\<lambda>_. thn (status_report env (Some t)) (ret ())) (replicate n False) s = (Inr (), s')
       \<and> store_ok pending s'
       \<and> (\<exists>r. delete_Reporter (new_Reporter, s') = (Inr (), (r, s')) \<and> \<not> ReporterThread r
            \<and> (\<forall>ws. for_each (status_wait_over env (Some t)) ws (r, s') = (Inr (), (r, s')))))
    \<and> for_each (metrics_wait_over (RdKafka env) C d host opt) (replicate n False) (new_MetricsReporter, KafkaSet s) =
        (Inr (), (new_MetricsReporter, KafkaSet s))
    \<and> (\<exists>r. delete_MetricsReporter (new_MetricsReporter, KafkaSet s) = (Inr (), (r, KafkaSet s)) \<and> \<not> ReporterThread r
         \<and> (\<forall>ws. for_each (metrics_wait_over (RdKafka env) C d host opt) ws (r, KafkaSet s) = (Inr (), (r, KafkaSet s))))"
proof -
  let ?off = "new_Reporter\<lparr>ReporterArmed := False\<rparr>"
  have "status_wait_over env None w (new_Reporter, s) = (Inr (), (?off, s))"
    by (simp add: status_wait_over_def wait_over_def status_report_def reportStatus_def new_Reporter_def prog_defs)
  then have "for_each (status_wait_over env None) (w # ws) (new_Reporter, s) = (Inr (), (?off, s))"
    using silent_waits [of ?off] by (simp add: run_thn status_wait_over_def)
  moreover obtain s' where "for_each (status_wait_over env (Some t)) (replicate n False) (new_Reporter, s) = (Inr (), (new_Reporter, s'))"
      "for_each (\<lambda>_. thn (status_report env (Some t)) (ret ())) (replicate n False) s = (Inr (), s')" "store_ok pending s'"
    using repeated_waits [of "\<lambda>s. store_ok pending s \<and> idle s \<and> reporter_ok pending (Some t) s" "status_report env (Some t)" s
        new_Reporter n] reportStatus_again [OF assms(1)] assms(2-4)
    by (auto simp: status_wait_over_def new_Reporter_def)
  moreover have "delete_Reporter (new_Reporter, s') = (Inr (), (new_Reporter\<lparr>ReporterStopped := True, ReporterThread := False\<rparr>, s'))"
    by (simp add: delete_Reporter_def new_Reporter_def prog_defs)
  moreover have "for_each (status_wait_over env (Some t)) ws (new_Reporter\<lparr>ReporterStopped := True, ReporterThread := False\<rparr>, s')
      = (Inr (), (new_Reporter\<lparr>ReporterStopped := True, ReporterThread := False\<rparr>, s'))" for ws
    unfolding status_wait_over_def by (rule silent_waits) simp
  moreover have "thn (reportMetrics (RdKafka env) C d host opt []) (ret True) (KafkaSet s) = (Inr True, KafkaSet s)"
    using reportMetrics_returns [OF store_okD(6) [OF assms(2)]] by (metis (no_types) run_prog(1) run_thn prod.case sum.case(2))
  then have "for_each (metrics_wait_over (RdKafka env) C d host opt) (replicate n False) (new_MetricsReporter, KafkaSet s) =
      (Inr (), (new_MetricsReporter, KafkaSet s))"
    using repeated_waits [of "\<lambda>ks. ks = KafkaSet s" "thn (reportMetrics (RdKafka env) C d host opt []) (ret True)"
        "KafkaSet s" new_MetricsReporter n] by (simp add: metrics_wait_over_def new_MetricsReporter_def)
  moreover have "\<exists>r. delete_MetricsReporter (new_MetricsReporter, KafkaSet s) = (Inr (), (r, KafkaSet s)) \<and> \<not> ReporterThread r
      \<and> (\<forall>ws. for_each (metrics_wait_over (RdKafka env) C d host opt) ws (r, KafkaSet s) = (Inr (), (r, KafkaSet s)))"
    by (simp add: delete_MetricsReporter_def new_MetricsReporter_def prog_defs metrics_wait_over_def silent_waits)
  ultimately show ?thesis by auto
qed

lemma status_reporter_life_witness:
  "\<exists>s'. for_each (status_wait_over example_env (Some ''st'')) [False, False, False] (new_Reporter, reporting_forwarder) =
     (Inr (), (new_Reporter, s')) \<and> store_ok mset s'"
proof -
  have "idle reporting_forwarder" by (simp add: idle_def reporting_forwarder_def example_forwarder_def Forwarder_blank_def)
  from status_reporter_life [OF example_env_ok reporting_forwarder_ok(1) this reporting_forwarder_ok(3),
      where t = "''st''" and n = 3 and w = False and ws = "[]" and C = True and d = "\<lambda>_. []" and host = None and opt = "MainOpt_default 3"]
  show ?thesis by (elim conjE exE) (simp only: replicate.simps numeral_3_eq_3, blast)
qed

end
