(* ===== verification/Forwarder_Loop.thy ===== *)
theory Forwarder_Loop
  imports Timer_Events Reporter
begin

text \<open>
  \<open>Forwarder::forward_epics_to_kafka\<close>, \<open>~Forwarder\<close> and what they call: the main loop polls for commands
  until the run flag is raised, then everything is stopped. What other threads do meanwhile is a list of
  events per round of the loop; every thread the program starts is among them.
\<close>

section \<open>Workers and timers\<close>

text \<open>
  A worker is its \<open>do_run\<close> flag. When a worker has been joined and destroyed with its queue, none of its
  packets exists, so after the last one no path is in transit (\<open>drained_no_transit\<close> in
  \<open>Worker_Safety\<close>).
\<close>

definition start_workers :: "(('q, 'k) Forwarder, unit) prog" where
  "start_workers = upd_st (\<lambda>s. s\<lparr>conversion_workers := map (\<lambda>_. True) (conversion_workers s)\<rparr>)"

definition conversion_workers_clear :: "(('q, 'k) Forwarder, int) prog" where
  "conversion_workers_clear =
     bnd (get_st conversion_workers) (\<lambda>ws.
     thn (if ws \<noteq> []
          then thn (upd_st (\<lambda>s. s\<lparr>conversion_workers := map (\<lambda>_. False) ws, InTransit := (\<lambda>p. 0)\<rparr>))
               (upd_st (\<lambda>s. s\<lparr>conversion_workers := []\<rparr>))
          else ret ())
     (ret 0))"

definition converters_clear :: "(('q, 'k) Forwarder, int) prog" where
  "converters_clear =
     bnd (get_st conversion_workers) (\<lambda>ws.
     thn (if ws \<noteq> [] then upd_st (\<lambda>s. s\<lparr>conversion_workers := []\<rparr>) else ret ()) (ret 0))"

definition start_timers :: "(('q, 'k) Forwarder, unit) prog" where
  "start_timers =
     thn (upd_st (\<lambda>s. s\<lparr>PVUpdateTimer := map_option timer_start (PVUpdateTimer s)\<rparr>))
     (upd_st (\<lambda>s. s\<lparr>GenerateFakePVUpdateTimer := map_option timer_start (GenerateFakePVUpdateTimer s)\<rparr>))"

definition stop_PVUpdateTimer :: "('q, 'k) fwd_env \<Rightarrow> (('q, 'k) Forwarder, unit) prog" where
  "stop_PVUpdateTimer env s = (case PVUpdateTimer s of
     None \<Rightarrow> (Inr (), s)
   | Some t \<Rightarrow> (case waitForStop (run_callback env (\<lambda>_. 0) (\<lambda>_. 0)) (t, s) of (r, (t', s')) \<Rightarrow> (r, s'\<lparr>PVUpdateTimer := Some t'\<rparr>)))"

definition stop_FakePVUpdateTimer :: "('q, 'k) fwd_env \<Rightarrow> (('q, 'k) Forwarder, unit) prog" where
  "stop_FakePVUpdateTimer env s = (case GenerateFakePVUpdateTimer s of
     None \<Rightarrow> (Inr (), s)
   | Some t \<Rightarrow> (case waitForStop (run_callback env (\<lambda>_. 0) (\<lambda>_. 0)) (t, s) of
       (r, (t', s')) \<Rightarrow> (r, s'\<lparr>GenerateFakePVUpdateTimer := Some t'\<rparr>)))"

section \<open>The main loop\<close>

text \<open>The topic for status messages, when an address for them is configured.\<close>

definition create_status_topic :: "('q, 'k) fwd_env \<Rightarrow> (('q, 'k) Forwarder, string option) prog" where
  "create_status_topic env =
     bnd (get_st (\<lambda>s. StatusReportURI (MainSettings (main_opt s)))) (\<lambda>u.
     if HostPort u = [] then ret None
     else bnd (on_status_producer (get_st (\<lambda>p. rd_create_topic (RdKafka env) (ProducerPtr p) (Topic u)))) (\<lambda>ok.
          if ok then ret (Some (Topic u)) else raise TopicCreationError))"

text \<open>
  What other threads may do: a signal arrives, a report of the status or of the metrics is due, the workers fill and empty their
  queues, an EPICS client reports an error, its channel changes the connection or brings updates, the wait
  of a timer ends (of the one that makes up updates, or of the one that repeats them).
\<close>

datatype event =
    SignalReceived
  | StatusTick
  | MetricsTick "string option"
  | WorkersMoved "nat \<Rightarrow> u32"
  | ClientError nat
  | ConnectionChanged nat u32 u64 pva_state
  | UpdatesArrived nat "pvfield list"
  | TimerFired bool "nat \<Rightarrow> u64" "nat \<Rightarrow> u64"

text \<open>
  \<open>handleSignal\<close> of \<open>Main.cpp\<close>: it acts when a \<open>SignalHandler\<close> exists, which is the case while
  \<open>forward_epics_to_kafka\<close> runs.
\<close>

definition handleSignal :: "('q, 'k) fwd_env \<Rightarrow> bool \<Rightarrow> (('q, 'k) Forwarder, unit) prog" where
  "handleSignal env handler = (if handler then stopForwardingDueToSignal env else ret ())"

fun run_event :: "('q, 'k) fwd_env \<Rightarrow> string option \<Rightarrow> event \<Rightarrow> (('q, 'k) Forwarder, unit) prog" where
  "run_event env topic SignalReceived = handleSignal env True"
| "run_event env topic StatusTick = thn (status_report env topic) (ret ())"
| "run_event env topic (MetricsTick host) =
     bnd (get_st main_opt) (\<lambda>opt.
     thn (on_kafka_set (reportMetrics (RdKafka env) (HasCURL env) (PrintDouble env) host opt [])) (ret ()))"
| "run_event env topic (WorkersMoved f) = upd_st (\<lambda>s. s\<lparr>InTransit := f\<rparr>)"
| "run_event env topic (ClientError c) =
     bnd (get_st (\<lambda>s. Clients s c)) (\<lambda>cl. if cl = None then ret () else on_client (Some c) client_error)"
| "run_event env topic (ConnectionChanged c g now st) = connection_event env c g now st"
| "run_event env topic (UpdatesArrived c eles) = update_event env c eles"
| "run_event env topic (TimerFired fake now rand) = timer_event env fake now rand"

record round =
  Events :: "event list"
  Polled :: kafka_message

definition loop_round :: "('q, 'k) fwd_env \<Rightarrow> string option \<Rightarrow> round \<Rightarrow> (('q, 'k) Forwarder, unit) prog" where
  "loop_round env topic r =
     thn (for_each (run_event env topic) (Events r))
     (thn (bnd (get_st config_listener) (\<lambda>l.
             if l \<noteq> None then listener_poll (config_callback env) (Polled r) else ret ()))
      (on_kafka_set (instances_poll (RdKafka env))))"

fun main_loop :: "('q, 'k) fwd_env \<Rightarrow> string option \<Rightarrow> round list \<Rightarrow> (('q, 'k) Forwarder, unit) prog" where
  "main_loop env topic [] =
     bnd (get_st ForwardingRunFlag) (\<lambda>f. if f = RUN then fail Running else ret ())"
| "main_loop env topic (r # rs) =
     bnd (get_st ForwardingRunFlag) (\<lambda>f.
     if f = RUN then thn (loop_round env topic r) (main_loop env topic rs) else ret ())"

definition shut_down :: "('q, 'k) fwd_env \<Rightarrow> (('q, 'k) Forwarder, unit) prog" where
  "shut_down env =
     thn conversion_workers_clear
     (thn clearStreams
     (thn (stop_PVUpdateTimer env)
     (thn (stop_FakePVUpdateTimer env)
     (upd_st (\<lambda>s. s\<lparr>forwarding_status := STOPPED\<rparr>)))))"

definition forward_epics_to_kafka :: "('q, 'k) fwd_env \<Rightarrow> round list \<Rightarrow> (('q, 'k) Forwarder, unit) prog" where
  "forward_epics_to_kafka env rounds =
     thn start_workers
     (thn start_timers
     (bnd (create_status_topic env) (\<lambda>topic.
      thn (main_loop env topic rounds) (shut_down env))))"

text \<open>
  \<open>~Forwarder\<close>: its body and then the members in the reverse order of their declaration. Destroying a thread that has
  not been joined terminates the program. The producer of status messages and, after the streams and the timers'
  callbacks have gone, the set of producers hold the last pointers to their producers.
\<close>

definition destroy_timer :: "'c Timer option \<Rightarrow> ('s, unit) prog" where
  "destroy_timer t = (case t of None \<Rightarrow> ret () | Some t \<Rightarrow> if TimerThread t then fail Crash else ret ())"

definition destroy_status_producer :: "'k rdkafka \<Rightarrow> (('q, 'k) Forwarder, unit) prog" where
  "destroy_status_producer K =
     bnd (get_st status_producer) (\<lambda>sp. case sp of
       None \<Rightarrow> ret ()
     | Some p \<Rightarrow> thn (of_res (fst (delete_Producer K p))) (upd_st (\<lambda>s. s\<lparr>status_producer := None\<rparr>)))"

definition delete_Forwarder :: "('q, 'k) fwd_env \<Rightarrow> (('q, 'k) Forwarder, unit) prog" where
  "delete_Forwarder env =
     thn clearStreams (thn conversion_workers_clear (thn converters_clear
     (thn (destroy_status_producer (RdKafka env))
     (thn (bnd (get_st GenerateFakePVUpdateTimer) destroy_timer)
     (thn (bnd (get_st PVUpdateTimer) destroy_timer)
     (thn (upd_st (\<lambda>s. s\<lparr>config_listener := None\<rparr>))
     (on_kafka_set (delete_InstanceSet (RdKafka env)))))))))"

section \<open>What the loop keeps\<close>

text \<open>Timers that exist have been started; the listener is there or not.\<close>

definition timers_started :: "('q, 'k) Forwarder \<Rightarrow> bool" where
  "timers_started s \<longleftrightarrow> (\<forall>t. PVUpdateTimer s = Some t \<longrightarrow> TimerThread t)
     \<and> (\<forall>t. GenerateFakePVUpdateTimer s = Some t \<longrightarrow> TimerThread t)"

definition around :: "('k \<Rightarrow> nat multiset) \<Rightarrow> string option \<Rightarrow> bool \<Rightarrow> ('q, 'k) Forwarder \<Rightarrow> bool" where
  "around pending topic l s \<longleftrightarrow> reporter_ok pending topic s \<and> timers_started s \<and> (config_listener s \<noteq> None) = l"

lemma addMapping_around [keeps]: "keeps_inv (around pending topic l) (addMapping env si)"
proof -
  have timer: "TimerThread (addCallback c t) = TimerThread t" for c t by (simp add: addCallback_def)
  have "keeps_inv (around pending topic l) (pushConverterToStream env i ci)" for i ci
    unfolding pushConverterToStream_def find_converter_def make_converter_def drop_converter_def make_path_def
      add_path_def delete_ConversionPath_def
    by (intro keeps keeps_upd on_kafka_set_keeps)
       (simp_all add: around_def reporter_ok_def timers_started_def split: if_splits)
  then show ?thesis
    unfolding addMapping_def addStream_def streams_add_def map_converters_def set_status_producer_def
    by (cases "StreamSettings.Converters si")
       (auto intro!: keeps keeps_upd on_kafka_set_keeps on_client_keeps
          simp: around_def reporter_ok_def timers_started_def register_callback_def timer)
qed

lemma delete_ConversionPath_more [keeps]: "keeps_inv (\<lambda>s. stream_store.more s = x) (delete_ConversionPath p)"
  unfolding delete_ConversionPath_def by (intro keeps keeps_upd) (simp_all split: if_splits)

lemma stream_stop_more [keeps]: "keeps_inv (\<lambda>s. stream_store.more s = x) (stream_stop st)"
  unfolding stream_stop_def by (intro keeps on_client_keeps) simp_all

lemma removal_more [keeps]:
  "keeps_inv (\<lambda>s. stream_store.more s = x) (stopChannel name)"
  "keeps_inv (\<lambda>s. stream_store.more s = x) clearStreams"
  unfolding stopChannel_def clearStreams_def delete_Stream_def by (intro keeps keeps_upd; simp)+

lemma around_more: "stream_store.more s' = stream_store.more s \<Longrightarrow> around pending topic l s' = around pending topic l s"
  by (cases s, cases s') (simp add: around_def reporter_ok_def timers_started_def)

lemma keeps_more:
  assumes "\<And>x. keeps_inv (\<lambda>s. stream_store.more s = x) m" "\<And>s s'. stream_store.more s' = stream_store.more s \<Longrightarrow> J s' = J s"
  shows "keeps_inv J m"
  by (rule keeps_invI) (use assms in \<open>metis (mono_tags) keeps_inv_def\<close>)

lemma removal_around [keeps]:
  "keeps_inv (around pending topic l) (stopChannel name)" "keeps_inv (around pending topic l) clearStreams"
  by (rule keeps_more [OF removal_more(1)], erule around_more)
     (rule keeps_more [OF removal_more(2)], erule around_more)

lemma on_flag_around [keeps]: "keeps_inv (around pending topic l) (on_flag m)"
  by (rule keeps_invI) (simp add: on_flag_def around_def reporter_ok_def timers_started_def split: prod.split)

lemma config_callback_around [keeps]: "keeps_inv (around pending topic l) (config_callback env raw)"
  unfolding config_callback_def handleCommand_def handleCommandAdd_def handleCommandStopChannel_def
    handleCommandStopAll_def handleCommandExit_def stopForwarding_def Let_def
  by (intro keeps)

section \<open>One round\<close>

text \<open>The invariant of the loop.\<close>

definition loop_ok ::
  "('q, 'k) fwd_env \<Rightarrow> ('k \<Rightarrow> nat multiset) \<Rightarrow> string option \<Rightarrow> bool \<Rightarrow> ('q, 'k) Forwarder \<Rightarrow> bool" where
  "loop_ok env pending topic l s \<longleftrightarrow> rd_client (RdKafka env) pending \<and> running_ok pending s \<and> around pending topic l s"

lemma loop_okD:
  assumes "loop_ok env pending topic l s"
  shows "rd_client (RdKafka env) pending" "store_ok pending s" "around pending topic l s" "running_ok pending s"
  using assms by (simp_all add: loop_ok_def running_ok_def)

text \<open>Fields that say nothing about streams, clients and callbacks.\<close>

lemma running_ok_fields:
  assumes "running_ok pending s"
  shows "running_ok pending (s\<lparr>ForwardingRunFlag := a\<rparr>)" "running_ok pending (s\<lparr>InTransit := b\<rparr>)"
    "running_ok pending (s\<lparr>conversion_workers := d\<rparr>)" "running_ok pending (s\<lparr>status_producer := e\<rparr>)"
proof -
  note ok = running_okD [OF assms]
  have "store_ok pending (s\<lparr>ForwardingRunFlag := a\<rparr>)" "store_ok pending (s\<lparr>InTransit := b\<rparr>)"
      "store_ok pending (s\<lparr>conversion_workers := d\<rparr>)" "store_ok pending (s\<lparr>status_producer := e\<rparr>)"
    using ok(1) by (subst store_ok_cong(4); simp)+
  then show "running_ok pending (s\<lparr>ForwardingRunFlag := a\<rparr>)" "running_ok pending (s\<lparr>InTransit := b\<rparr>)"
    "running_ok pending (s\<lparr>conversion_workers := d\<rparr>)" "running_ok pending (s\<lparr>status_producer := e\<rparr>)"
    using ok(2,3) by (simp_all add: running_ok_def clients_ok_def)
qed

definition stopping :: "('q, 'k) Forwarder \<Rightarrow> bool" where
  "stopping s \<longleftrightarrow> ForwardingRunFlag s \<noteq> RUN"

lemma stopping_spec: "Stopping (spec_of s) = stopping s"
  by (simp add: spec_of_def stopping_def)

text \<open>What an operation does in the loop; \<open>q\<close> says that nothing is in transit afterwards.\<close>

definition loop_step ::
  "('q, 'k) fwd_env \<Rightarrow> ('k \<Rightarrow> nat multiset) \<Rightarrow> string option \<Rightarrow> bool \<Rightarrow> bool \<Rightarrow> bool \<Rightarrow> ('q, 'k) Forwarder \<Rightarrow>
   (('q, 'k) Forwarder, unit) prog \<Rightarrow> bool" where
  "loop_step env pending topic l q ends s m \<longleftrightarrow> (\<exists>s'. m s = (Inr (), s') \<and> loop_ok env pending topic l s' \<and> (q \<longrightarrow> idle s')
     \<and> stopping s' = (stopping s \<or> ends))"

lemma config_callback_step:
  assumes "loop_ok env pending topic l s" "idle s"
  shows "loop_step env pending topic l q (command_of env raw = Exit) s (config_callback env raw)"
proof -
  note ok = loop_okD [OF assms(1)]
  obtain s' where s': "config_callback env raw s = (Inr (), s')" "store_ok pending s'" "idle s'"
      "spec_step (command_of env raw) (spec_of s) (spec_of s')"
    using config_callback_refines [OF ok(1,2) assms(2)] by blast
  moreover have "around pending topic l s'"
    using keeps_invD [OF config_callback_around ok(3), of env raw] s'(1) by simp
  moreover have "running_ok pending s'"
    using keeps_invD [OF config_callback_running [OF ok(1)] ok(4), of raw] s'(1) by simp
  moreover have "stopping s' = (stopping s \<or> command_of env raw = Exit)"
    using spec_step_stopping [OF s'(4)] by (simp add: stopping_spec)
  ultimately show ?thesis using ok(1) by (auto simp: loop_step_def loop_ok_def)
qed

lemma signal_step:
  assumes "loop_ok env pending topic l s" "q \<longrightarrow> idle s"
  shows "loop_step env pending topic l q True s (stopForwardingDueToSignal env)"
proof -
  obtain f where f: "raiseForwardingFlag STOP_DUE_TO_SIGNAL (FlagRaces env) (ForwardingRunFlag s) = (Inr (), f)" "f \<noteq> 0"
    using raiseForwardingFlag_raises [OF stop_values(2)] by blast
  let ?s = "s\<lparr>ForwardingRunFlag := f\<rparr>"
  have "running_ok pending ?s" by (rule running_ok_fields [OF loop_okD(4) [OF assms(1)]])
  moreover have "around pending topic l ?s"
    using loop_okD(3) [OF assms(1)] by (simp add: around_def reporter_ok_def timers_started_def)
  ultimately show ?thesis
    using assms f by (simp add: loop_step_def loop_ok_def stopForwardingDueToSignal_def on_flag_def idle_def
        stopping_def RUN_def)
qed

lemma status_step:
  assumes "loop_ok env pending topic l s" "idle s"
  shows "loop_step env pending topic l q False s (run_event env topic StatusTick)"
proof (cases topic)
  case None
  with assms show ?thesis by (simp add: loop_step_def status_report_def reportStatus_def prog_defs)
next
  case (Some t)
  note ok = loop_okD [OF assms(1)]
  have rep: "reporter_ok pending (Some t) s" using ok(3) Some by (simp add: around_def)
  obtain line s1 p' where s1: "checkStreamStatus s = (Inr (), s1)" "idle s1" and
      run: "producer_ok pending p'" "reportStatus env (Some t) s = (Inr (Some line), s1\<lparr>status_producer := Some p'\<rparr>)"
    using reportStatus_idle [OF ok(1,2) assms(2) rep] by blast
  have ok1: "running_ok pending s1" using keeps_invD [OF removal_running(3) ok(4)] s1(1) by simp
  have same: "ForwardingRunFlag s1 = ForwardingRunFlag s" "PVUpdateTimer s1 = PVUpdateTimer s"
      "GenerateFakePVUpdateTimer s1 = GenerateFakePVUpdateTimer s" "config_listener s1 = config_listener s"
    using checkStreamStatus_reporter [OF ok(2)] s1(1) by simp_all
  have "around pending topic l (s1\<lparr>status_producer := Some p'\<rparr>)"
    using ok(3) run(1) same by (simp add: around_def reporter_ok_def timers_started_def)
  then show ?thesis
    using run(2) Some running_ok_fields(4) [OF ok1] ok(1) s1(2) same
    by (simp add: loop_step_def loop_ok_def status_report_def prog_defs stopping_def idle_def)
qed

lemma metrics_step:
  assumes "loop_ok env pending topic l s" "q \<longrightarrow> idle s"
  shows "loop_step env pending topic l q False s (run_event env topic (MetricsTick host))"
proof -
  obtain x where "reportMetrics (RdKafka env) (HasCURL env) (PrintDouble env) host (main_opt s) [] (KafkaSet s)
      = (Inr x, KafkaSet s)"
    using reportMetrics_returns [OF store_okD(6) [OF loop_okD(2) [OF assms(1)]]] by blast
  then have "run_event env topic (MetricsTick host) s = (Inr (), s)" by (simp add: on_kafka_set_def prog_defs)
  with assms show ?thesis by (simp add: loop_step_def)
qed

lemma client_error_step:
  assumes "loop_ok env pending topic l s" "q \<longrightarrow> idle s"
  shows "loop_step env pending topic l q False s (run_event env topic (ClientError c))"
proof (cases "Clients s c")
  case None
  with assms show ?thesis by (simp add: loop_step_def prog_defs)
next
  case (Some cl)
  obtain cl' where cl': "client_error cl = (Inr (), cl')" by (cases cl) (simp_all add: errorInEpics_def prog_defs)
  let ?s = "s\<lparr>Clients := (Clients s)(c \<mapsto> cl')\<rparr>"
  have run: "on_client (Some c) client_error s = (Inr (), ?s)" using Some cl' by (simp add: on_client_def)
  have "client_ok (KafkaSet s) cl'" "is_random cl' = is_random cl"
    using keeps_invD [OF client_keeps(2) clients_okD [OF running_okD(2) [OF loop_okD(4) [OF assms(1)]] Some]]
      client_kinds(2) [of cl] cl' by simp_all
  then have "running_ok pending ?s" by (rule client_put(1) [OF loop_okD(4) [OF assms(1)] Some])
  moreover have "around pending topic l ?s" using loop_okD(3) [OF assms(1)] by (subst around_more [of _ s]) simp_all
  ultimately show ?thesis
    using assms run Some by (simp add: loop_step_def loop_ok_def prog_defs idle_def stopping_def)
qed

lemma workers_step:
  assumes "loop_ok env pending topic l s"
  shows "loop_step env pending topic l (f = (\<lambda>p. 0)) False s (run_event env topic (WorkersMoved f))"
proof -
  have "running_ok pending (s\<lparr>InTransit := f\<rparr>)" by (rule running_ok_fields [OF loop_okD(4) [OF assms(1)]])
  moreover have "around pending topic l (s\<lparr>InTransit := f\<rparr>)"
    using loop_okD(3) [OF assms(1)] by (subst around_more [of _ s]) simp_all
  ultimately show ?thesis
    using assms by (simp add: loop_step_def loop_ok_def prog_defs idle_def stopping_def)
qed

lemma connection_step:
  assumes "loop_ok env pending topic l s" "q \<longrightarrow> idle s"
  shows "loop_step env pending topic l q False s (connection_event env c g now st)"
proof -
  note ok = loop_okD [OF assms(1)]
  obtain x ks where x: "connection_event env c g now st s = (Inr (), s\<lparr>Clients := x, KafkaSet := ks\<rparr>)"
      "running_ok pending (s\<lparr>Clients := x, KafkaSet := ks\<rparr>)"
    using connection_event_running [OF ok(1,4)] by blast
  have "around pending topic l (s\<lparr>Clients := x, KafkaSet := ks\<rparr>)" using ok(3) by (subst around_more [of _ s]) simp_all
  with x ok(1) assms(2) show ?thesis by (simp add: loop_step_def loop_ok_def idle_def stopping_def)
qed

lemma update_step:
  assumes "loop_ok env pending topic l s" "q \<longrightarrow> idle s" "with_alarm eles"
  shows "loop_step env pending topic l q False s (update_event env c eles)"
proof -
  note ok = loop_okD [OF assms(1)]
  obtain x where x: "update_event env c eles s = (Inr (), s\<lparr>Clients := x\<rparr>)" "running_ok pending (s\<lparr>Clients := x\<rparr>)"
    using update_event_running [OF ok(4) assms(3)] by blast
  have "around pending topic l (s\<lparr>Clients := x\<rparr>)" using ok(3) by (subst around_more [of _ s]) simp_all
  with x ok(1) assms(2) show ?thesis by (simp add: loop_step_def loop_ok_def idle_def stopping_def)
qed

lemma timer_fired_step:
  assumes "loop_ok env pending topic l s" "q \<longrightarrow> idle s"
  shows "loop_step env pending topic l q False s (timer_event env fake now rand)"
proof -
  note ok = loop_okD [OF assms(1)]
  obtain x a b where x: "timer_event env fake now rand s =
        (Inr (), s\<lparr>Clients := x, PVUpdateTimer := a, GenerateFakePVUpdateTimer := b\<rparr>)"
      "running_ok pending (s\<lparr>Clients := x, PVUpdateTimer := a, GenerateFakePVUpdateTimer := b\<rparr>)"
      "map_option TimerThread a = map_option TimerThread (PVUpdateTimer s)"
      "map_option TimerThread b = map_option TimerThread (GenerateFakePVUpdateTimer s)"
    using timer_event_run [OF ok(4)] by blast
  have "around pending topic l (s\<lparr>Clients := x, PVUpdateTimer := a, GenerateFakePVUpdateTimer := b\<rparr>)"
    using ok(3) x(3,4) by (auto simp: around_def reporter_ok_def timers_started_def map_option_case split: option.splits)
  with x(1,2) ok(1) assms(2) show ?thesis by (simp add: loop_step_def loop_ok_def idle_def stopping_def)
qed

text \<open>
  Whether nothing is in transit after an event, when it was so before or not; which events are considered: a status
  report, which may remove streams, when nothing is in transit, and updates that have an alarm message.
\<close>

fun still :: "bool \<Rightarrow> event \<Rightarrow> bool" where
  "still q (WorkersMoved f) \<longleftrightarrow> f = (\<lambda>p. 0)"
| "still q _ \<longleftrightarrow> q"

fun allowed :: "bool \<Rightarrow> event \<Rightarrow> bool" where
  "allowed q StatusTick \<longleftrightarrow> q"
| "allowed q (UpdatesArrived c eles) \<longleftrightarrow> with_alarm eles"
| "allowed q _ \<longleftrightarrow> True"

text \<open>Events after which nothing is in transit.\<close>

fun settled :: "bool \<Rightarrow> event list \<Rightarrow> bool" where
  "settled q [] \<longleftrightarrow> q"
| "settled q (e # es) \<longleftrightarrow> allowed q e \<and> settled (still q e) es"

lemma event_step:
  assumes "loop_ok env pending topic l s" "q \<longrightarrow> idle s" "allowed q e"
  shows "loop_step env pending topic l (still q e) (e = SignalReceived) s (run_event env topic e)"
  using assms signal_step status_step metrics_step client_error_step workers_step connection_step update_step timer_fired_step
  by (cases e) (simp_all add: handleSignal_def)

lemma events_step:
  assumes "loop_ok env pending topic l s" "q \<longrightarrow> idle s" "settled q es"
  shows "loop_step env pending topic l True (SignalReceived \<in> set es) s (for_each (run_event env topic) es)"
  using assms
proof (induction es arbitrary: s q)
  case Nil
  then show ?case by (simp add: loop_step_def prog_defs)
next
  case (Cons e es)
  have "loop_step env pending topic l (still q e) (e = SignalReceived) s (run_event env topic e)"
    using Cons.prems by (intro event_step) simp_all
  then obtain s1 where s1: "run_event env topic e s = (Inr (), s1)" "loop_ok env pending topic l s1" "still q e \<longrightarrow> idle s1"
      "stopping s1 = (stopping s \<or> e = SignalReceived)"
    unfolding loop_step_def by blast
  have "settled (still q e) es" using Cons.prems(3) by simp
  from Cons.IH [OF s1(2,3) this] obtain s2 where "for_each (run_event env topic) es s1 = (Inr (), s2)"
      "loop_ok env pending topic l s2" "idle s2" "stopping s2 = (stopping s1 \<or> SignalReceived \<in> set es)"
    unfolding loop_step_def by auto
  then show ?case using s1 unfolding loop_step_def by (auto simp: run_thn)
qed

section \<open>The loop ends\<close>

lemma kafka_poll_step:
  assumes "loop_ok env pending topic l s" "q \<longrightarrow> idle s"
  shows "loop_step env pending topic l q False s (on_kafka_set (instances_poll (RdKafka env)))"
proof -
  note ok = loop_okD [OF assms(1)]
  obtain ks where ks: "instances_poll (RdKafka env) (KafkaSet s) = (Inr (), ks)" "instances_ok pending ks"
    using rd_client.instances_poll_ok [OF ok(1) store_okD(6) [OF ok(2)]] by blast
  have "\<forall>i p. Producers (KafkaSet s) i = Some p \<longrightarrow> Producers ks i \<noteq> None"
    using keeps_invD [OF instances_poll_producers, of "KafkaSet s" _ "RdKafka env"] ks(1) by fastforce
  then have "store_ok pending (s\<lparr>KafkaSet := ks\<rparr>)" using producers_added [OF ok(2) ks(2) _ refl] by simp
  then have "running_ok pending (s\<lparr>KafkaSet := ks\<rparr>)"
    using keeps_invD [OF instances_poll_clients running_okD(2) [OF ok(4)], of "RdKafka env"] running_okD(3) [OF ok(4)] ks(1)
    by (simp add: running_ok_def on_kafka_set_def)
  moreover have "around pending topic l (s\<lparr>KafkaSet := ks\<rparr>)" using ok(3) by (subst around_more [of _ s]) simp_all
  ultimately show ?thesis
    using ks(1) ok(1) assms(2) by (simp add: loop_step_def loop_ok_def on_kafka_set_def idle_def stopping_def)
qed

lemma loop_step_thn:
  assumes "loop_step env pending topic l True a s m"
    and "\<And>t. loop_ok env pending topic l t \<Longrightarrow> idle t \<Longrightarrow> loop_step env pending topic l True b t n"
  shows "loop_step env pending topic l True (a \<or> b) s (thn m n)"
proof -
  obtain t where t: "m s = (Inr (), t)" "loop_ok env pending topic l t" "idle t" "stopping t = (stopping s \<or> a)"
    using assms(1) unfolding loop_step_def by blast
  then show ?thesis using assms(2) [OF t(2,3)] unfolding loop_step_def by (auto simp: run_thn)
qed

text \<open>The rounds that end the loop: a signal arrives or the \<open>exit\<close> command is read.\<close>

definition final_round :: "('q, 'k) fwd_env \<Rightarrow> bool \<Rightarrow> round \<Rightarrow> bool" where
  "final_round env l r \<longleftrightarrow> SignalReceived \<in> set (Events r)
     \<or> (l \<and> msg_err (Polled r) = CONSUME_NO_ERROR \<and> msg_len (Polled r) > 0
          \<and> command_of env (c_string (msg_memory (Polled r))) = Exit)"

lemma poll_step:
  assumes "loop_ok env pending topic l s" "idle s"
  shows "loop_step env pending topic l True (l \<and> msg_err (Polled r) = CONSUME_NO_ERROR \<and> msg_len (Polled r) > 0
          \<and> command_of env (c_string (msg_memory (Polled r))) = Exit) s
     (bnd (get_st config_listener) (\<lambda>x. if x \<noteq> None then listener_poll (config_callback env) (Polled r) else ret ()))"
proof (cases "l \<and> msg_err (Polled r) = CONSUME_NO_ERROR \<and> msg_len (Polled r) > 0")
  case True
  then have "config_listener s \<noteq> None" using loop_okD(3) [OF assms(1)] by (simp add: around_def)
  with True config_callback_step [OF assms, where raw = "c_string (msg_memory (Polled r))" and q = True] show ?thesis
    by (simp add: loop_step_def listener_poll_def consumer_poll_def prog_defs)
next
  case False
  then have "l \<longrightarrow> listener_poll (config_callback env) (Polled r) = ret ()"
    by (auto simp: listener_poll_def consumer_poll_def split: consume_error.split)
  with False assms loop_okD(3) [OF assms(1)] show ?thesis
    by (auto simp: loop_step_def around_def prog_defs)
qed

lemma loop_round_step:
  assumes "loop_ok env pending topic l s" "idle s" "settled True (Events r)"
  shows "loop_step env pending topic l True (final_round env l r) s (loop_round env topic r)"
proof -
  have "loop_step env pending topic l True (SignalReceived \<in> set (Events r) \<or>
      ((l \<and> msg_err (Polled r) = CONSUME_NO_ERROR \<and> msg_len (Polled r) > 0
          \<and> command_of env (c_string (msg_memory (Polled r))) = Exit) \<or> False)) s (loop_round env topic r)"
    unfolding loop_round_def
    by (intro loop_step_thn events_step [where q = True] poll_step kafka_poll_step assms) (simp_all add: assms(2))
  then show ?thesis by (simp add: final_round_def)
qed

lemma rounds_run:
  assumes "loop_ok env pending topic l s" "idle s" "\<forall>r \<in> set rounds. settled True (Events r)"
  shows "\<exists>s'. for_each (loop_round env topic) rounds s = (Inr (), s') \<and> loop_ok env pending topic l s' \<and> idle s'"
  using assms
proof (induction rounds arbitrary: s)
  case Nil
  then show ?case by (simp add: prog_defs)
next
  case (Cons r rounds)
  have "loop_step env pending topic l True (final_round env l r) s (loop_round env topic r)"
    using Cons.prems by (intro loop_round_step) simp_all
  then obtain t where t: "loop_round env topic r s = (Inr (), t)" "loop_ok env pending topic l t" "idle t"
    unfolding loop_step_def by blast
  with Cons.IH [OF t(2,3)] Cons.prems(3) show ?case by (auto simp: run_thn)
qed

lemma main_loop_returns:
  assumes "loop_ok env pending topic l s" "idle s" "\<forall>r \<in> set rounds. settled True (Events r)"
    and "stopping s \<or> (\<exists>r \<in> set rounds. final_round env l r)"
  shows "\<exists>s'. main_loop env topic rounds s = (Inr (), s') \<and> loop_ok env pending topic l s' \<and> idle s' \<and> stopping s'"
  using assms
proof (induction rounds arbitrary: s)
  case Nil
  then show ?case by (simp add: prog_defs stopping_def)
next
  case (Cons r rounds)
  show ?case
  proof (cases "stopping s")
    case True
    with Cons.prems show ?thesis by (simp add: prog_defs stopping_def)
  next
    case False
    have "loop_step env pending topic l True (final_round env l r) s (loop_round env topic r)"
      using Cons.prems by (intro loop_round_step) simp_all
    then obtain t where t: "loop_round env topic r s = (Inr (), t)" "loop_ok env pending topic l t" "idle t"
        "stopping t = (stopping s \<or> final_round env l r)"
      unfolding loop_step_def by blast
    have "stopping t \<or> (\<exists>x \<in> set rounds. final_round env l x)" using Cons.prems(4) False t(4) by auto
    then obtain s' where "main_loop env topic rounds t = (Inr (), s')" "loop_ok env pending topic l s'" "idle s'" "stopping s'"
      using Cons.IH [OF t(2,3)] Cons.prems(3) by auto
    with False t(1) show ?thesis by (simp add: prog_defs stopping_def)
  qed
qed

text \<open>Shutting down.\<close>

fun timer_down :: "'c Timer option \<Rightarrow> bool" where
  "timer_down None \<longleftrightarrow> True"
| "timer_down (Some t) \<longleftrightarrow> \<not> TimerRunning t \<and> \<not> Armed t \<and> \<not> TimerThread t"

lemma workers_clear_run:
  assumes "loop_ok env pending topic l s" "idle s"
  shows "\<exists>s'. conversion_workers_clear s = (Inr 0, s') \<and> loop_ok env pending topic l s' \<and> idle s' \<and> conversion_workers s' = []"
proof (cases "conversion_workers s = []")
  case True
  with assms show ?thesis by (simp add: conversion_workers_clear_def prog_defs)
next
  case False
  let ?s = "s\<lparr>InTransit := (\<lambda>p. 0), conversion_workers := []\<rparr>"
  have "running_ok pending ?s" by (intro running_ok_fields loop_okD(4) [OF assms(1)])
  moreover have "around pending topic l ?s"
    using loop_okD(3) [OF assms(1)] by (simp add: around_def reporter_ok_def timers_started_def)
  ultimately show ?thesis
    using False assms(1) by (simp add: conversion_workers_clear_def prog_defs loop_ok_def idle_def)
qed

definition timer_joined :: "'c Timer \<Rightarrow> 'c Timer" where
  "timer_joined t = t\<lparr>TimerRunning := False, Armed := False, TimerThread := False\<rparr>"

lemma timer_joined_down: "timer_down (map_option timer_joined t)"
  by (cases t) (simp_all add: timer_joined_def)

lemma stop_PVUpdateTimer_run:
  "\<forall>t. PVUpdateTimer s = Some t \<longrightarrow> TimerThread t \<Longrightarrow>
   stop_PVUpdateTimer env s = (Inr (), s\<lparr>PVUpdateTimer := map_option timer_joined (PVUpdateTimer s)\<rparr>)"
  by (cases "PVUpdateTimer s") (simp_all add: stop_PVUpdateTimer_def waitForStop_run timer_joined_def)

lemma stop_FakePVUpdateTimer_run:
  "\<forall>t. GenerateFakePVUpdateTimer s = Some t \<longrightarrow> TimerThread t \<Longrightarrow>
   stop_FakePVUpdateTimer env s =
     (Inr (), s\<lparr>GenerateFakePVUpdateTimer := map_option timer_joined (GenerateFakePVUpdateTimer s)\<rparr>)"
  by (cases "GenerateFakePVUpdateTimer s") (simp_all add: stop_FakePVUpdateTimer_def waitForStop_run timer_joined_def)

text \<open>Everything has been stopped.\<close>

definition all_stopped :: "('q, 'k) Forwarder \<Rightarrow> bool" where
  "all_stopped s \<longleftrightarrow> StreamList s = [] \<and> conversion_workers s = [] \<and> timer_down (PVUpdateTimer s)
     \<and> timer_down (GenerateFakePVUpdateTimer s) \<and> forwarding_status s = STOPPED"

lemma destroy_timer_down: "timer_down t \<Longrightarrow> destroy_timer t = ret ()"
  by (cases t) (simp_all add: destroy_timer_def)

text \<open>Nothing is held any more; a producer that has sent everything has freed every message.\<close>

definition all_released :: "'k rdkafka \<Rightarrow> ('q, 'k) Forwarder \<Rightarrow> bool" where
  "all_released K s \<longleftrightarrow> config_listener s = None \<and> status_producer s = None \<and> ProducersByHost (KafkaSet s) = []
     \<and> (\<forall>i p. Producers (KafkaSet s) i = Some p \<longrightarrow> outputQueueLength K p = 0 \<longrightarrow> Messages p = Map.empty)"

lemma delete_stopped:
  assumes "rd_client (RdKafka env) pending" "all_stopped s" "store_ok pending s"
    and "\<forall>p. status_producer s = Some p \<longrightarrow> producer_ok pending p"
  shows "\<exists>s'. delete_Forwarder env s = (Inr (), s') \<and> all_stopped s' \<and> all_released (RdKafka env) s'"
proof -
  have set: "instances_ok pending (KafkaSet s)" by (rule store_okD(6) [OF assms(3)])
  obtain ks where ks: "delete_InstanceSet (RdKafka env) (KafkaSet s) = (Inr (), ks)" "instances_ok pending ks"
      "ProducersByHost ks = []"
    using rd_client.delete_InstanceSet_ok [OF assms(1) set] by blast
  let ?s = "s\<lparr>status_producer := None\<rparr>"
  have status: "destroy_status_producer (RdKafka env) s = (Inr (), ?s)"
  proof (cases "status_producer s")
    case (Some p)
    then obtain p' where "delete_Producer (RdKafka env) p = (Inr (), p')"
      using rd_client.drain_loop_ok [OF assms(1), of p 80] assms(4) by (auto simp: delete_Producer_def)
    with Some show ?thesis by (simp add: destroy_status_producer_def prog_defs)
  qed (simp add: destroy_status_producer_def prog_defs)
  have "delete_Forwarder env s = (Inr (), ?s\<lparr>config_listener := None, KafkaSet := ks\<rparr>)"
    using assms(2) status ks(1)
    by (simp add: delete_Forwarder_def clearStreams_def conversion_workers_clear_def converters_clear_def
        all_stopped_def destroy_timer_down on_kafka_set_def prog_defs)
  moreover have "all_stopped (?s\<lparr>config_listener := None, KafkaSet := ks\<rparr>)" using assms(2) by (simp add: all_stopped_def)
  moreover have "all_released (RdKafka env) (?s\<lparr>config_listener := None, KafkaSet := ks\<rparr>)"
    using ks(2,3) rd_client.producer_ok_empty [OF assms(1)] by (simp add: all_released_def instances_ok_def)
  ultimately show ?thesis by blast
qed

lemma shut_down_run:
  assumes "loop_ok env pending topic l s" "idle s"
  shows "\<exists>s'. shut_down env s = (Inr (), s') \<and> all_stopped s' \<and> store_ok pending s'
     \<and> (\<forall>p. status_producer s' = Some p \<longrightarrow> producer_ok pending p)"
proof -
  obtain s1 where s1: "conversion_workers_clear s = (Inr 0, s1)" "loop_ok env pending topic l s1" "idle s1"
      "conversion_workers s1 = []"
    using workers_clear_run [OF assms] by blast
  note ok = loop_okD [OF s1(2)] and sok = store_okD(1) [OF loop_okD(2) [OF s1(2)]]
  obtain s2 where s2: "clearStreams s1 = (Inr (), s2)" "StreamList s2 = []"
    using removes_idle [OF sok clearStreams_removes [OF sok] s1(3)] by auto
  have st: "store_ok pending s2" using fails_onlyD [OF clearStreams_fails ok(2)] s2(1) by simp
  have w: "conversion_workers s2 = []"
    using frame_forwarder(6) [OF removes_frame [OF clearStreams_removes [OF sok]]] s2(1) s1(4) by simp
  have "around pending topic l s2" using keeps_invD [OF removal_around(2) ok(3)] s2(1) by simp
  then have tm: "\<forall>t. PVUpdateTimer s2 = Some t \<longrightarrow> TimerThread t" "\<forall>t. GenerateFakePVUpdateTimer s2 = Some t \<longrightarrow> TimerThread t"
      and sp: "\<forall>p. status_producer s2 = Some p \<longrightarrow> producer_ok pending p"
    by (simp_all add: around_def timers_started_def reporter_ok_def)
  let ?s = "s2\<lparr>PVUpdateTimer := map_option timer_joined (PVUpdateTimer s2),
     GenerateFakePVUpdateTimer := map_option timer_joined (GenerateFakePVUpdateTimer s2), forwarding_status := STOPPED\<rparr>"
  have "shut_down env s = (Inr (), ?s)"
    using s1(1) s2(1) tm
    by (simp add: shut_down_def run_thn stop_PVUpdateTimer_run stop_FakePVUpdateTimer_run run_prog)
  moreover have "all_stopped ?s" using s2(2) w by (simp add: all_stopped_def timer_joined_down)
  moreover have "store_ok pending ?s" using st by (subst store_ok_cong(4)) simp_all
  moreover have "\<forall>p. status_producer ?s = Some p \<longrightarrow> producer_ok pending p" using sp by simp
  ultimately show ?thesis by blast
qed

text \<open>The program can send status messages if it is configured to.\<close>

definition status_ready :: "('q, 'k) fwd_env \<Rightarrow> ('k \<Rightarrow> nat multiset) \<Rightarrow> ('q, 'k) Forwarder \<Rightarrow> bool" where
  "status_ready env pending s \<longleftrightarrow> (\<forall>p. status_producer s = Some p \<longrightarrow> producer_ok pending p)
     \<and> (let u = StatusReportURI (MainSettings (main_opt s)) in
        HostPort u \<noteq> [] \<longrightarrow> (\<exists>p. status_producer s = Some p \<and> rd_create_topic (RdKafka env) (ProducerPtr p) (Topic u)))"

lemma create_status_topic_run:
  assumes "status_ready env pending s"
  shows "\<exists>topic. create_status_topic env s = (Inr topic, s) \<and> reporter_ok pending topic s"
proof (cases "HostPort (StatusReportURI (MainSettings (main_opt s))) = []")
  case True
  with assms show ?thesis by (simp add: create_status_topic_def prog_defs reporter_ok_def status_ready_def)
next
  case False
  with assms obtain p where p: "status_producer s = Some p" "producer_ok pending p"
      "rd_create_topic (RdKafka env) (ProducerPtr p) (Topic (StatusReportURI (MainSettings (main_opt s))))"
    by (auto simp: status_ready_def Let_def)
  have "s\<lparr>status_producer := Some p\<rparr> = s" using p(1) by simp
  with False p show ?thesis
    by (simp add: create_status_topic_def on_status_producer_def prog_defs reporter_ok_def)
qed

lemma start_run:
  fixes s :: "('q, 'k) Forwarder"
  assumes "running_ok pending s" "idle s" "status_ready env pending s"
  shows "\<exists>s1 topic. forward_epics_to_kafka env rounds s = thn (main_loop env topic rounds) (shut_down env) s1
     \<and> running_ok pending s1 \<and> idle s1 \<and> around pending topic (config_listener s \<noteq> None) s1 \<and> stopping s1 = stopping s"
proof -
  let ?s = "s\<lparr>conversion_workers := map (\<lambda>_. True) (conversion_workers s),
     PVUpdateTimer := map_option timer_start (PVUpdateTimer s),
     GenerateFakePVUpdateTimer := map_option timer_start (GenerateFakePVUpdateTimer s)\<rparr>"
  have "status_ready env pending ?s" using assms(3) by (simp add: status_ready_def)
  then obtain topic where topic: "create_status_topic env ?s = (Inr topic, ?s)" "reporter_ok pending topic ?s"
    using create_status_topic_run by blast
  have timers: "map_option Callbacks (map_option timer_start t) = map_option Callbacks t" for t
    by (cases t) (simp_all add: timer_start_def)
  have "running_ok pending (s\<lparr>conversion_workers := map (\<lambda>_. True) (conversion_workers s)\<rparr>)"
    by (rule running_ok_fields [OF assms(1)])
  then have "running_ok pending ?s" by (rule timers_put) (simp_all add: timers)
  moreover have "timers_started ?s" by (auto simp: timers_started_def timer_start_def)
  ultimately show ?thesis
    using topic assms(2)
    by (intro exI [of _ ?s] exI [of _ topic])
       (simp add: forward_epics_to_kafka_def start_workers_def start_timers_def prog_defs around_def idle_def stopping_def)
qed

lemma forwarder_run_stops:
  assumes "rd_client (RdKafka env) pending" "running_ok pending s" "idle s" "status_ready env pending s"
    and "\<forall>r \<in> set rounds. settled True (Events r)"
    and "\<exists>r \<in> set rounds. final_round env (config_listener s \<noteq> None) r"
  shows "\<exists>s'. forward_epics_to_kafka env rounds s = (Inr (), s') \<and> all_stopped s' \<and> store_ok pending s'
     \<and> (\<forall>p. status_producer s' = Some p \<longrightarrow> producer_ok pending p)"
proof -
  let ?l = "config_listener s \<noteq> None"
  obtain s1 topic where s1: "forward_epics_to_kafka env rounds s = thn (main_loop env topic rounds) (shut_down env) s1"
      "running_ok pending s1" "idle s1" "around pending topic ?l s1"
    using start_run [OF assms(2-4)] by blast
  have ok: "loop_ok env pending topic ?l s1" using assms(1) s1(2,4) by (simp add: loop_ok_def)
  obtain s2 where s2: "main_loop env topic rounds s1 = (Inr (), s2)" "loop_ok env pending topic ?l s2" "idle s2"
    using main_loop_returns [OF ok s1(3) assms(5)] assms(6) by blast
  obtain s' where s': "shut_down env s2 = (Inr (), s')" "all_stopped s'" "store_ok pending s'"
      "\<forall>p. status_producer s' = Some p \<longrightarrow> producer_ok pending p"
    using shut_down_run [OF s2(2,3)] by blast
  have "forward_epics_to_kafka env rounds s = (Inr (), s')"
    unfolding s1(1) using s2(1) s'(1) by (simp add: run_thn)
  then show ?thesis using s'(2-4) by blast
qed

section \<open>Properties\<close>



text \<open>C9: The forwarder stops when it is asked to: if in some round of the main loop a signal arrives or the
  \<open>exit\<close> command is read, \<open>forward_epics_to_kafka\<close> returns, whatever commands, status reports, client
  errors, connection changes, updates and ends of timer waits come before; then there is no stream and no worker left, the timers' threads have been joined,
  the status is \<open>STOPPED\<close>, and the destructor returns: the consumer of commands and the producers have gone, and a
  producer whose queue was empty at its end has freed every message. Packets may be in transit between the events of a round; they are
  assumed to have been worked off when a command is read or the status is reported, which may remove streams.\<close>

theorem forwarder_stops:
  assumes "rd_client (RdKafka env) pending" "running_ok pending s" "idle s" "status_ready env pending s"
    and "\<forall>r \<in> set rounds. settled True (Events r)"
    and "\<exists>r \<in> set rounds. final_round env (config_listener s \<noteq> None) r"
  shows "\<exists>s'. forward_epics_to_kafka env rounds s = (Inr (), s') \<and> all_stopped s' \<and> store_ok pending s'
     \<and> (\<exists>s''. delete_Forwarder env s' = (Inr (), s'') \<and> all_stopped s'' \<and> all_released (RdKafka env) s'')"
  using forwarder_run_stops [OF assms] delete_stopped [OF assms(1)] by metis

lemma forwarder_stops_witness:
  "\<exists>s'. forward_epics_to_kafka example_env [\<lparr>Events = [ClientError 3, WorkersMoved (\<lambda>p. 1), ConnectionChanged 3 0 1 PVA_CONNECTED, WorkersMoved (\<lambda>p. 0),
        UpdatesArrived 3 [createFakePVStructure 5 6], TimerFired True (\<lambda>_. 7) (\<lambda>_. 8)], Polled = \<lparr>msg_err = CONSUME_PARTITION_EOF,
        msg_len = 0, msg_memory = []\<rparr>\<rparr>, \<lparr>Events = [StatusTick], Polled = \<lparr>msg_err = CONSUME_NO_ERROR, msg_len = 4,
        msg_memory = ''exit''\<rparr>\<rparr>] (example_forwarder\<lparr>config_listener := Some \<lparr>Metadata = None, Assignment = []\<rparr>\<rparr>) = (Inr (), s')
     \<and> all_stopped s'"
proof -
  let ?s = "example_forwarder\<lparr>config_listener := Some \<lparr>Metadata = None, Assignment = []\<rparr>\<rparr>"
  have "store_ok mset ?s" using example_forwarder_ok by (subst store_ok_cong(4)) simp_all
  then have ok: "running_ok mset ?s"
    by (simp add: running_ok_def clients_ok_def callbacks_ok_def timer_ok_def example_forwarder_def Forwarder_blank_def)
  have id: "idle ?s" using example_forwarder_idle by (simp add: idle_def)
  have st: "status_ready example_env mset ?s"
    by (simp add: status_ready_def example_forwarder_def Forwarder_blank_def MainOpt_default_def
        ConfigSettings_default_def URI_default_def)
  have "final_round example_env (config_listener ?s \<noteq> None) \<lparr>Events = [StatusTick], Polled = \<lparr>msg_err = CONSUME_NO_ERROR,
      msg_len = 4, msg_memory = ''exit''\<rparr>\<rparr>"
    by (simp add: final_round_def c_string_def example_commands)
  moreover have "with_alarm [createFakePVStructure 5 6]"
    by (simp add: with_alarm_def pv_alarm_text_def createFakePVStructure_def)
  ultimately show ?thesis
    using forwarder_stops [OF example_env_ok ok id st, of "[\<lparr>Events = [ClientError 3, WorkersMoved (\<lambda>p. 1), ConnectionChanged 3 0 1 PVA_CONNECTED, WorkersMoved (\<lambda>p. 0),
        UpdatesArrived 3 [createFakePVStructure 5 6], TimerFired True (\<lambda>_. 7) (\<lambda>_. 8)], Polled = \<lparr>msg_err = CONSUME_PARTITION_EOF,
        msg_len = 0, msg_memory = []\<rparr>\<rparr>, \<lparr>Events = [StatusTick], Polled = \<lparr>msg_err = CONSUME_NO_ERROR, msg_len = 4,
        msg_memory = ''exit''\<rparr>\<rparr>]"] by auto
qed

end
