(* ===== verification/Cli_Options.thy ===== *)
theory Cli_Options
  imports Main_Opt
begin

text \<open>
  The first part of \<open>parse_opt\<close> in \<open>MainOpt.cpp\<close>: the options the program registers with the command line
  library (CLI11), each with the callback the library calls for it. The library is a parameter: from the
  registered options and the command line it finds which callbacks it calls with which words, and how
  it ends.
\<close>

section \<open>Options\<close>

record cli_option =
  OptName :: string
  TypeSize :: int
  Required :: bool
  CheckExistingFile :: bool
  DefaultText :: "string option"
  Callback :: "string list \<Rightarrow> (MainOpt, bool) prog"

text \<open>
  What the library does by itself: reading a number of so many bits, with or without a sign, and the value of a flag;
  \<open>Calls\<close> are the calls of callbacks for the words of the command line, the configuration file and the
  values given with \<open>default_val\<close>.
\<close>

record cli_lib =
  ToNumber :: "nat \<Rightarrow> bool \<Rightarrow> string \<Rightarrow> int option"
  ToFlag :: "string list \<Rightarrow> bool option"
  Calls :: "cli_option list \<Rightarrow> (string \<times> string list) list \<times> cli_outcome"

text \<open>A callback that works on one part of the options.\<close>

definition on_option :: "('o \<Rightarrow> 'a) \<Rightarrow> ('a \<Rightarrow> 'o \<Rightarrow> 'o) \<Rightarrow> ('a, 'r) prog \<Rightarrow> ('o, 'r) prog" where
  "on_option get put m opt = (case m (get opt) of (r, x) \<Rightarrow> (r, put x opt))"

definition plain_option :: "string \<Rightarrow> (string list \<Rightarrow> (MainOpt, bool) prog) \<Rightarrow> cli_option" where
  "plain_option name f = \<lparr>OptName = name, TypeSize = 1, Required = False, CheckExistingFile = False,
     DefaultText = None, Callback = f\<rparr>"

text \<open>\<open>App.add_flag\<close> and \<open>App.add_option\<close> with a variable.\<close>

definition add_flag :: "cli_lib \<Rightarrow> string \<Rightarrow> (bool \<Rightarrow> MainOpt \<Rightarrow> MainOpt) \<Rightarrow> cli_option" where
  "add_flag L name put = (plain_option name (\<lambda>rs. case ToFlag L rs of
     None \<Rightarrow> ret False | Some b \<Rightarrow> thn (upd_st (put b)) (ret True)))\<lparr>TypeSize := 0\<rparr>"

definition add_text :: "string \<Rightarrow> (string \<Rightarrow> MainOpt \<Rightarrow> MainOpt) \<Rightarrow> cli_option" where
  "add_text name put = plain_option name (\<lambda>rs. case rs of [] \<Rightarrow> fail Crash | r # _ \<Rightarrow> thn (upd_st (put r)) (ret True))"

definition add_number ::
  "cli_lib \<Rightarrow> nat \<Rightarrow> bool \<Rightarrow> string \<Rightarrow> string \<Rightarrow> (int \<Rightarrow> MainOpt \<Rightarrow> MainOpt) \<Rightarrow> cli_option" where
  "add_number L bits with_sign name shown put = (plain_option name (\<lambda>rs. case rs of
     [] \<Rightarrow> fail Crash
   | r # _ \<Rightarrow> (case ToNumber L bits with_sign r of
       None \<Rightarrow> ret False | Some v \<Rightarrow> thn (upd_st (put v)) (ret True))))\<lparr>DefaultText := Some shown\<rparr>"

definition addUriOption ::
  "string \<Rightarrow> (MainOpt \<Rightarrow> URI) \<Rightarrow> (URI \<Rightarrow> MainOpt \<Rightarrow> MainOpt) \<Rightarrow> URI \<Rightarrow> bool \<Rightarrow> cli_option" where
  "addUriOption Name get put URIArg Defaulted =
     (plain_option Name (\<lambda>rs. on_option get put (uri_option rs)))\<lparr>TypeSize := 1,
       DefaultText := (if Defaulted then Some (HostPort URIArg @ ''/'' @ Topic URIArg) else None)\<rparr>"

definition SetKeyValueOptions :: "string \<Rightarrow> (string list \<Rightarrow> (MainOpt, bool) prog) \<Rightarrow> cli_option" where
  "SetKeyValueOptions Name Fun = (plain_option Name Fun)\<lparr>TypeSize := -2\<rparr>"

definition addKafkaOption ::
  "string \<Rightarrow> (MainOpt \<Rightarrow> (string \<rightharpoonup> string)) \<Rightarrow> ((string \<rightharpoonup> string) \<Rightarrow> MainOpt \<Rightarrow> MainOpt) \<Rightarrow> cli_option" where
  "addKafkaOption Name get put = SetKeyValueOptions Name (\<lambda>rs. on_option get put (kafka_option rs))"

section \<open>The options of the program\<close>

definition in_settings :: "(ConfigSettings \<Rightarrow> ConfigSettings) \<Rightarrow> MainOpt \<Rightarrow> MainOpt" where
  "in_settings f opt = opt\<lparr>MainSettings := f (MainSettings opt)\<rparr>"

definition registered_options :: "cli_lib \<Rightarrow> cli_option list" where
  "registered_options L =
    [add_flag L ''--version'' (\<lambda>b opt. opt\<lparr>PrintVersion := b\<rparr>),
     add_text ''--log-file'' (\<lambda>r opt. opt\<lparr>LogFilename := r\<rparr>),
     (add_text ''--streams-json'' (\<lambda>r opt. opt\<lparr>StreamsFile := r\<rparr>))\<lparr>CheckExistingFile := True\<rparr>,
     add_text ''--kafka-gelf'' (\<lambda>r opt. opt\<lparr>KafkaGELFAddress := r\<rparr>),
     add_text ''--graylog-logger-address'' (\<lambda>r opt. opt\<lparr>GraylogLoggerAddress := r\<rparr>),
     add_text ''--influx-url'' (\<lambda>r opt. opt\<lparr>InfluxURI := r\<rparr>),
     (plain_option ''-v,--verbosity''
        (\<lambda>rs. on_option LogLevel (\<lambda>l opt. opt\<lparr>LogLevel := l\<rparr>) (parseLogLevel rs)))\<lparr>DefaultText := Some ''Error''\<rparr>,
     (addUriOption ''--config-topic'' (\<lambda>opt. BrokerConfig (MainSettings opt))
        (\<lambda>u. in_settings (\<lambda>s. s\<lparr>BrokerConfig := u\<rparr>)) (BrokerConfig ConfigSettings_default) True)\<lparr>Required := True\<rparr>,
     addUriOption ''--status-topic'' (\<lambda>opt. StatusReportURI (MainSettings opt))
        (\<lambda>u. in_settings (\<lambda>s. s\<lparr>StatusReportURI := u\<rparr>)) (StatusReportURI ConfigSettings_default) False,
     add_number L 32 False ''--pv-update-period'' ''0'' (\<lambda>v opt. opt\<lparr>PeriodMS := of_int v\<rparr>),
     add_number L 32 False ''--fake-pv-period'' ''0'' (\<lambda>v opt. opt\<lparr>FakePVPeriodMS := of_int v\<rparr>),
     add_number L 64 False ''--conversion-threads'' ''1'' (\<lambda>v. in_settings (\<lambda>s. s\<lparr>ConversionThreads := of_int v\<rparr>)),
     add_number L 64 False ''--conversion-worker-queue-size'' ''1024''
        (\<lambda>v. in_settings (\<lambda>s. s\<lparr>ConversionWorkerQueueSize := of_int v\<rparr>)),
     add_number L 32 True ''--main-poll-interval'' ''500'' (\<lambda>v. in_settings (\<lambda>s. s\<lparr>MainPollInterval := of_int v\<rparr>)),
     addKafkaOption ''-S,--kafka-config'' (\<lambda>opt. ConfigSettings.KafkaConfiguration (MainSettings opt))
        (\<lambda>m. in_settings (\<lambda>s. s\<lparr>ConfigSettings.KafkaConfiguration := m\<rparr>))]"

text \<open>\<open>App.parse\<close>: a callback that returns false ends the parsing with an error.\<close>

fun run_calls :: "cli_option list \<Rightarrow> (string \<times> string list) list \<Rightarrow> cli_outcome \<Rightarrow> (MainOpt, cli_outcome) prog" where
  "run_calls opts [] oc = ret oc"
| "run_calls opts ((name, rs) # calls) oc =
     (case List.find (\<lambda>o'. OptName o' = name) opts of
        None \<Rightarrow> ret CliParseError
      | Some o' \<Rightarrow> bnd (Callback o' rs) (\<lambda>ok. if ok then run_calls opts calls oc else ret CliParseError))"

definition app_parse :: "cli_lib \<Rightarrow> (MainOpt, cli_outcome) prog" where
  "app_parse L = (let opts = registered_options L; (calls, oc) = Calls L opts in run_calls opts calls oc)"

definition parse_command_line ::
  "cli_lib \<Rightarrow> log_env \<Rightarrow> (string \<Rightarrow> json option) \<Rightarrow> (string \<Rightarrow> string option) \<Rightarrow> nat \<Rightarrow> (ParseOptRet \<times> MainOpt) res" where
  "parse_command_line L G json_parse read_file l = parse_opt (app_parse L) G json_parse read_file l"

section \<open>What callbacks do\<close>

text \<open>The library gives a callback as many words as its option was registered for.\<close>

definition size_fits :: "int \<Rightarrow> nat \<Rightarrow> bool" where
  "size_fits k n \<longleftrightarrow> (if k < 0 then n > 0 \<and> int n mod k = 0 else k > 0 \<longrightarrow> int n = k)"

definition cli_sizes :: "cli_lib \<Rightarrow> bool" where
  "cli_sizes L \<longleftrightarrow> list_all (\<lambda>(name, rs). \<forall>o' \<in> set (registered_options L). OptName o' = name \<longrightarrow> size_fits (TypeSize o') (length rs))
     (fst (Calls L (registered_options L)))"

lemma on_option_fails: "fst (on_option get put m opt) = fst (m (get opt))"
  by (simp add: on_option_def case_prod_unfold)

lemma parseLogLevel_fails: "fst (parseLogLevel rs l) = Inl f \<Longrightarrow> f = Throw OutOfRange"
  by (auto simp: parseLogLevel_def stoi_def read_int_def Let_def prog_defs split: if_splits option.splits)

lemma parse_fails: "fst (parse s U) = Inl f \<Longrightarrow> f = Throw OutOfRange \<or> (\<exists>e. f = Throw e \<and> is_runtime_error e)"
proof (cases "regex_match uri_regex s")
  case None
  then show "fst (parse s U) = Inl f \<Longrightarrow> f = Throw OutOfRange \<or> (\<exists>e. f = Throw e \<and> is_runtime_error e)"
    by (auto simp: parse_unmatched)
next
  case (Some m)
  from regex_match_uri_shape [OF Some] obtain hp where hp: "m 6 = Some hp" "hp \<noteq> []" by auto
  show "fst (parse s U) = Inl f \<Longrightarrow> f = Throw OutOfRange \<or> (\<exists>e. f = Throw e \<and> is_runtime_error e)"
    unfolding parse_matched [OF Some hp(1)] by (auto simp: stoi_digits_def split: option.splits if_splits)
qed

lemma uri_option_fails:
  assumes "fst (uri_option [r] u) = Inl f"
  shows "f = Throw OutOfRange"
proof -
  obtain x U where x: "parse r u = (x, U)" by fastforce
  with assms parse_fails [of r u] show ?thesis
    by (cases x) (auto simp: uri_option_def prog_defs split: failure.splits if_splits)
qed

lemma callback_fails:
  assumes "o' \<in> set (registered_options L)" "size_fits (TypeSize o') (length rs)" "fst (Callback o' rs opt) = Inl f"
  shows "f = Throw OutOfRange"
  using assms
  by (auto simp: registered_options_def add_flag_def add_text_def add_number_def addUriOption_def addKafkaOption_def
      SetKeyValueOptions_def plain_option_def size_fits_def kafka_option_result on_option_fails prog_defs length_Suc_conv
      dest: parseLogLevel_fails uri_option_fails split: option.splits list.splits)

lemma run_calls_fails:
  assumes "list_all (\<lambda>(name, rs). \<forall>o' \<in> set opts. OptName o' = name \<longrightarrow> size_fits (TypeSize o') (length rs)) calls"
    and "opts = registered_options L" "fst (run_calls opts calls oc opt) = Inl f"
  shows "f = Throw OutOfRange"
  using assms
proof (induction calls arbitrary: opt)
  case (Cons c calls)
  obtain name rs where c: "c = (name, rs)" by fastforce
  show ?case
  proof (cases "List.find (\<lambda>o'. OptName o' = name) opts")
    case None
    with Cons.prems(3) show ?thesis by (simp add: c prog_defs)
  next
    case (Some o')
    then have o': "o' \<in> set opts" "OptName o' = name" by (auto simp: find_Some_iff)
    obtain r opt' where r: "Callback o' rs opt = (r, opt')" by fastforce
    show ?thesis
    proof (cases r)
      case (Inl g)
      then have "g = Throw OutOfRange"
        using callback_fails [of o' L rs opt g] o' r Cons.prems(1,2) by (simp add: c)
      with Cons.prems(3) Some Inl r show ?thesis by (simp add: c run_bnd)
    next
      case (Inr ok)
      with Cons.prems Some r Cons.IH [of opt'] show ?thesis by (auto simp: c run_bnd prog_defs split: if_splits)
    qed
  qed
qed (simp add: prog_defs)

section \<open>Properties\<close>

text \<open>
  C39: The only ways in which an exception leaves the reading of the command line are a number that does not fit in an
  \<open>int\<close> (the port of an address or the verbosity) and setting up the logger: every other
  mistake in an option, or in the file of streams, ends in the error code, and no callback reads words it was not given.
\<close>

theorem command_line_escapes:
  assumes "cli_sizes L" "parse_command_line L G json_parse read_file l = Inl f"
  shows "f = Throw OutOfRange \<or> (\<exists>level file graylog. setUpLogging G level file graylog = Inl f)"
proof -
  have "fst (app_parse L (MainOpt_default l)) = Inl f \<Longrightarrow> f = Throw OutOfRange"
    using run_calls_fails [OF _ refl, of L "fst (Calls L (registered_options L))"] assms(1)
    by (simp add: app_parse_def cli_sizes_def Let_def case_prod_unfold)
  with parse_opt_escapes [OF assms(2) [unfolded parse_command_line_def]] show ?thesis by (auto simp: Let_def)
qed

text \<open>A verbosity that does not fit in an \<open>int\<close>.\<close>

definition example_cli :: cli_lib where
  "example_cli = \<lparr>ToNumber = (\<lambda>_ _ _. None), ToFlag = (\<lambda>_. Some True),
     Calls = (\<lambda>_. ([(''-v,--verbosity'', [dec 4294967296])], CliDone))\<rparr>"

lemma command_line_escapes_witness:
  "\<exists>f. parse_command_line example_cli \<lparr>HaveGraylog = True, OpenLog = (\<lambda>_. None)\<rparr> (\<lambda>_. None) (\<lambda>_. None) 0 = Inl f
     \<and> (f = Throw OutOfRange \<or>
          (\<exists>level file graylog. setUpLogging \<lparr>HaveGraylog = True, OpenLog = (\<lambda>_. None)\<rparr> level file graylog = Inl f))"
proof -
  let ?G = "\<lparr>HaveGraylog = True, OpenLog = (\<lambda>_. None)\<rparr>"
  have sizes: "cli_sizes example_cli"
    by (simp add: cli_sizes_def example_cli_def registered_options_def add_flag_def add_text_def add_number_def
        addUriOption_def addKafkaOption_def SetKeyValueOptions_def plain_option_def size_fits_def)
  have "stoi (dec 4294967296) = Inl (Throw OutOfRange)" by (simp add: stoi_def read_int_dec)
  then have "parse_command_line example_cli ?G (\<lambda>_. None) (\<lambda>_. None) 0 = Inl (Throw OutOfRange)"
    by (simp add: parse_command_line_def parse_opt_def app_parse_def example_cli_def registered_options_def add_flag_def
        add_text_def plain_option_def on_option_def parseLogLevel_def level_not_number prog_defs)
  with command_line_escapes [OF sizes this] show ?thesis by blast
qed

end
