(* ===== verification/Program.thy ===== *)
theory Program
  imports Forwarder_Loop Cli_Options
begin

text \<open>
  \<open>Main.cpp\<close> and the constructor of the forwarder: the program from its command line to its exit code.
\<close>

section \<open>The program\<close>

text \<open>
  \<open>main\<close>: \<open>L\<close> is the command line and the library that reads it, \<open>G\<close> what the logger finds, \<open>l\<close> the level of the logger
  before \<open>main\<close>, \<open>g\<close> the variables of the schemas. An exception from the constructor of the forwarder leaves the function. The forwarder is
  destroyed when \<open>main\<close> returns.
\<close>

definition program_main ::
  "('q, 'k) fwd_env \<Rightarrow> cli_lib \<Rightarrow> log_env \<Rightarrow> (string \<Rightarrow> string option) \<Rightarrow> nat \<Rightarrow> ConverterGlobals \<Rightarrow> round list \<Rightarrow>
   int res" where
  "program_main env L G read_file l g rounds =
     bind_res (parse_command_line L G (JsonParse env) read_file l) (\<lambda>(first, opt).
     if first = VersionRequested then Inr 0
     else if first = ParseError then Inr 1
     else case new_Forwarder env (Forwarder_blank opt g) of
       (Inl e, s) \<Rightarrow> Inl e
     | (Inr x, s) \<Rightarrow>
        (case try_catch (thn (forward_epics_to_kafka env rounds) (ret 0)) (\<lambda>_. True) (\<lambda>e. ret 1) s of
           (Inl f, s') \<Rightarrow> Inl f
         | (Inr code, s') \<Rightarrow> (case delete_Forwarder env s' of (Inl f, s'') \<Rightarrow> Inl f | (Inr x, s'') \<Rightarrow> Inr code)))"

section \<open>Construction\<close>

lemma createConfigListener_run:
  "createConfigListener env s = (Inr (), s') \<Longrightarrow> \<exists>c. s' = s\<lparr>config_listener := Some c\<rparr>"
  by (auto simp: createConfigListener_def prog_defs split: sum.splits prod.splits)

lemma store_ok_fields [simp]:
  "store_ok pending (s\<lparr>SchemaItems := a\<rparr>) = store_ok pending s"
  "store_ok pending (s\<lparr>conversion_workers := b\<rparr>) = store_ok pending s"
  "store_ok pending (s\<lparr>config_listener := c\<rparr>) = store_ok pending s"
  "store_ok pending (s\<lparr>PVUpdateTimer := d\<rparr>) = store_ok pending s"
  "store_ok pending (s\<lparr>GenerateFakePVUpdateTimer := e\<rparr>) = store_ok pending s"
  by (rule store_ok_cong(4); simp)+

text \<open>The objects are in order, nothing is in transit, the other fields are as the constructor set them.\<close>

definition built ::
  "('k \<Rightarrow> nat multiset) \<Rightarrow> MainOpt \<Rightarrow> bool list \<Rightarrow> Consumer option \<Rightarrow> ('q, 'k) Forwarder \<Rightarrow> bool" where
  "built pending opt ws l s \<longleftrightarrow> running_ok pending s \<and> idle s \<and> apart RUN ws None l NORMAL s \<and> main_opt s = opt"

lemma addMapping_built_outcome:
  assumes "rd_client (RdKafka env) pending" "built pending opt ws l s"
  shows "built pending opt ws l (snd (addMapping env si s)) \<and> (\<forall>f. fst (addMapping env si s) = Inl f \<longrightarrow> f \<in> thrown)"
proof -
  have s: "store_ok pending s" "idle s" "apart RUN ws None l NORMAL s" "main_opt s = opt" "running_ok pending s"
    using assms(2) by (simp_all add: built_def running_ok_def)
  obtain r s' where r: "addMapping env si s = (r, s')" by fastforce
  have "main_opt s' = opt" using addMapping_ok [OF assms(1) s(1) r] addingD(2) s(4) by blast
  moreover have "idle s'" "apart RUN ws None l NORMAL s'"
    using keeps_invD [OF addMapping_idle s(2), of env si] keeps_invD [OF addMapping_apart s(3), of env si] r by simp_all
  moreover have "running_ok pending s'" using keeps_invD [OF addMapping_running [OF assms(1)] s(5), of si] r by simp
  ultimately show ?thesis using addMapping_outcome [OF assms(1) s(1), of si] r by (simp add: built_def)
qed

lemma addMapping_built:
  "rd_client (RdKafka env) pending \<Longrightarrow> fails_only thrown (built pending opt ws l) (addMapping env si)"
  by (rule fails_onlyI) (rule addMapping_built_outcome)

text \<open>The streams of the configuration: a failure is logged and the next one is tried.\<close>

lemma initial_streams_built:
  assumes "rd_client (RdKafka env) pending" "built pending opt ws l s"
  shows "\<exists>s'. for_each (\<lambda>st. try_catch (addMapping env st) (\<lambda>_. True) (\<lambda>_. ret ())) ss s = (Inr (), s')
     \<and> built pending opt ws l s'"
proof -
  have one: "fails_only {} (built pending opt ws l) (try_catch (addMapping env st) (\<lambda>_. True) (\<lambda>_. ret ()))" for st
    by (intro fails_caught fails) (simp add: addMapping_built [OF assms(1)])
  have "fails_only {} (built pending opt ws l)
      (for_each (\<lambda>st. try_catch (addMapping env st) (\<lambda>_. True) (\<lambda>_. ret ())) ss)"
    by (rule fails_for_each) (rule one)
  from fails_none [OF this assms(2)] show ?thesis by auto
qed

lemma instances_ok_count:
  "instances_ok pending ks \<Longrightarrow> instances_ok pending (ks\<lparr>ProducerInstanceCount := Suc (ProducerInstanceCount ks)\<rparr>)"
  by (fastforce simp: instances_ok_def)

lemma client_ok_count [simp]: "client_ok (ks\<lparr>ProducerInstanceCount := c\<rparr>) cl = client_ok ks cl"
  by (cases cl) (simp_all add: monitor_ok_def)

lemma create_status_producer_built:
  assumes "rd_client (RdKafka env) pending" "built pending opt ws l s" "create_status_producer env s = (Inr (), s')"
  shows "running_ok pending s' \<and> idle s' \<and> main_opt s' = opt \<and> config_listener s' = l \<and> conversion_workers s' = ws
     \<and> ForwardingRunFlag s' = RUN \<and> (\<forall>p. status_producer s' = Some p \<longrightarrow> producer_ok pending p)
     \<and> (HostPort (StatusReportURI (MainSettings opt)) \<noteq> [] \<longrightarrow> status_producer s' \<noteq> None)"
proof (cases "HostPort (StatusReportURI (MainSettings opt)) = []")
  case True
  with assms(2,3) show ?thesis by (auto simp: create_status_producer_def prog_defs built_def apart_def)
next
  case False
  let ?S = "BrokerSettings_default\<lparr>Address := HostPort (StatusReportURI (MainSettings opt))\<rparr>"
  have s: "store_ok pending s" "idle s" "apart RUN ws None l NORMAL s" "main_opt s = opt" "clients_ok s" "callbacks_ok s"
    using assms(2) by (simp_all add: built_def running_ok_def)
  obtain p c where p: "new_Producer (RdKafka env) ?S (ProducerInstanceCount (KafkaSet s)) = (Inr p, c)"
      "s' = s\<lparr>KafkaSet := (KafkaSet s)\<lparr>ProducerInstanceCount := c\<rparr>, status_producer := Some p\<rparr>"
    using False assms(3) s(4)
    by (auto simp: create_status_producer_def on_kafka_set_def on_instance_count_def prog_defs
        split: sum.splits prod.splits)
  have new: "producer_ok pending p" "c = Suc (ProducerInstanceCount (KafkaSet s))"
    using rd_client.new_Producer_ok [OF assms(1) p(1)] by simp_all
  have "instances_ok pending ((KafkaSet s)\<lparr>ProducerInstanceCount := c\<rparr>)"
    unfolding new(2) by (rule instances_ok_count [OF store_okD(6) [OF s(1)]])
  then have "store_ok pending (s\<lparr>KafkaSet := (KafkaSet s)\<lparr>ProducerInstanceCount := c\<rparr>\<rparr>)"
    using producers_added [OF s(1) _ _ refl] by simp
  moreover have "clients_ok (s\<lparr>KafkaSet := (KafkaSet s)\<lparr>ProducerInstanceCount := c\<rparr>\<rparr>)"
    using s(5) by (simp add: clients_ok_def)
  ultimately have "running_ok pending (s\<lparr>KafkaSet := (KafkaSet s)\<lparr>ProducerInstanceCount := c\<rparr>\<rparr>)"
    using s(6) by (simp add: running_ok_def)
  from running_ok_fields(4) [OF this] have "running_ok pending s'" by (simp add: p(2))
  with new(1) s(2-4) show ?thesis by (simp add: p(2) idle_def apart_def)
qed

text \<open>
  At most one of the two timers is configured. With both, the callbacks that repeat cached updates hold null.
\<close>

definition one_timer :: "MainOpt \<Rightarrow> bool" where
  "one_timer opt \<longleftrightarrow> PeriodMS opt = 0 \<or> FakePVPeriodMS opt = 0"

lemma new_Forwarder_ok:
  fixes s :: "('q, 'k) Forwarder"
  assumes "rd_client (RdKafka env) pending" "new_Forwarder env (Forwarder_blank opt g) = (Inr (), s)" "one_timer opt"
  shows "running_ok pending s \<and> idle s \<and> main_opt s = opt \<and> config_listener s \<noteq> None
     \<and> length (conversion_workers s) = unat (ConversionThreads (MainSettings opt)) \<and> ForwardingRunFlag s = RUN
     \<and> (\<forall>p. status_producer s = Some p \<longrightarrow> producer_ok pending p)
     \<and> (HostPort (StatusReportURI (MainSettings opt)) \<noteq> [] \<longrightarrow> status_producer s \<noteq> None)"
proof -
  define ws where "ws = replicate (unat (ConversionThreads (MainSettings opt))) False"
  define s1 :: "('q, 'k) Forwarder" where "s1 = (Forwarder_blank opt g)\<lparr>SchemaItems := registerSchemas Map.empty, conversion_workers := ws\<rparr>"
  have "store_ok pending (Forwarder_blank opt g :: ('q, 'k) Forwarder)"
    by (simp add: store_ok_def streams_ok_def Forwarder_blank_def new_InstanceSet_ok)
  then have ok1: "store_ok pending s1" by (simp add: s1_def)
  have run: "new_Forwarder env (Forwarder_blank opt g) =
     thn (createConfigListener env) (thn createPVUpdateTimerIfRequired (thn createFakePVUpdateTimerIfRequired
       (bnd (get_st (\<lambda>s. StreamsInfo (MainSettings (main_opt s)))) (\<lambda>ss.
        thn (for_each (\<lambda>st. try_catch (addMapping env st) (\<lambda>_. True) (\<lambda>_. ret ())) ss)
        (create_status_producer env))))) s1"
    by (simp add: new_Forwarder_def prog_defs s1_def ws_def Forwarder_blank_def)
  obtain r t where r: "createConfigListener env s1 = (r, t)" by fastforce
  then have "r = Inr ()" using assms(2) unfolding run by (cases r) (auto simp: prog_defs)
  then obtain c where t: "t = s1\<lparr>config_listener := Some c\<rparr>" using createConfigListener_run r by blast
  define s2 where "s2 = snd (createFakePVUpdateTimerIfRequired (snd (createPVUpdateTimerIfRequired t)))"
  have "store_ok pending s2"
    using ok1 by (simp add: s2_def createFakePVUpdateTimerIfRequired_def createPVUpdateTimerIfRequired_def prog_defs t)
  moreover have "idle s2 \<and> apart RUN ws None (Some c) NORMAL s2 \<and> main_opt s2 = opt"
    by (simp add: s2_def createFakePVUpdateTimerIfRequired_def createPVUpdateTimerIfRequired_def prog_defs
        t apart_def idle_def s1_def Forwarder_blank_def RUN_def)
  moreover have "clients_ok s2 \<and> callbacks_ok s2"
    using assms(3)
    by (auto simp: s2_def createFakePVUpdateTimerIfRequired_def createPVUpdateTimerIfRequired_def prog_defs new_Timer_def
        t clients_ok_def callbacks_ok_def timer_ok_def one_timer_def s1_def Forwarder_blank_def)
  ultimately have "built pending opt ws (Some c) s2" by (simp add: built_def running_ok_def)
  then obtain s3 where s3: "for_each (\<lambda>st. try_catch (addMapping env st) (\<lambda>_. True) (\<lambda>_. ret ()))
        (StreamsInfo (MainSettings (main_opt s2))) s2 = (Inr (), s3)" "built pending opt ws (Some c) s3"
    using initial_streams_built [OF assms(1)] by blast
  have "create_status_producer env s3 = (Inr (), s)"
    using assms(2) r \<open>r = Inr ()\<close> s3(1) unfolding run
    by (simp add: run_thn run_bnd run_prog createPVUpdateTimerIfRequired_def createFakePVUpdateTimerIfRequired_def s2_def)
  from create_status_producer_built [OF assms(1) s3(2) this] show ?thesis by (simp add: ws_def)
qed

section \<open>Properties\<close>


lemma example_start: "\<exists>x. fst (new_Forwarder example_env (Forwarder_blank
    (MainOpt_default 3\<lparr>MainSettings := ConfigSettings_default\<lparr>BrokerConfig := \<lparr>HostPort = ''h:1'', Port = 1, Topic = ''cmd''\<rparr>\<rparr>\<rparr>)
    \<lparr>GlobalSeverityMap = Map.empty, SequenceNumber = 0\<rparr>)) = Inr x"
  by (simp add: new_Forwarder_def createConfigListener_def new_Consumer_def new_Listener_def addTopic_def
      getTopicPartitionNumbers_def findTopic_def updateMetadata_def createPVUpdateTimerIfRequired_def
      createFakePVUpdateTimerIfRequired_def create_status_producer_def prog_defs example_env_def Forwarder_blank_def
      MainOpt_default_def ConfigSettings_default_def URI_default_def)

text \<open>The command line \<open>--config-topic //h:1/cmd\<close>.\<close>

definition start_cli :: cli_lib where
  "start_cli = \<lparr>ToNumber = (\<lambda>_ _ _. None), ToFlag = (\<lambda>_. Some True),
     Calls = (\<lambda>_. ([(''--config-topic'', [''//h:1/cmd''])], CliDone))\<rparr>"

lemma start_cli_parsed:
  "parse_command_line start_cli \<lparr>HaveGraylog = False, OpenLog = (\<lambda>_. None)\<rparr> json_parse read_file 3 = Inr (ParseSuccess,
      MainOpt_default 3\<lparr>MainSettings := ConfigSettings_default\<lparr>BrokerConfig := \<lparr>HostPort = ''h:1'', Port = 1, Topic = ''cmd''\<rparr>\<rparr>\<rparr>)"
proof -
  have ok: "address_ok Slashes ''h'' (Some ''cmd'')" "padding_ok [] (Some 1) (Some ''cmd'') []"
    by (simp_all add: address_ok_def padding_ok_def host_char_def topic_char_def space_char_def)
  have "parse ''//h:1/cmd'' U = (Inr (), \<lparr>HostPort = ''h:1'', Port = 1, Topic = ''cmd''\<rparr>)" for U
    using parse_text [OF ok, of U]
    by (cases U) (simp add: address_text_def port_text_def topic_text_def dec.simps)
  then show ?thesis
    by (simp add: parse_command_line_def parse_opt_def app_parse_def start_cli_def registered_options_def add_flag_def
        add_text_def add_number_def plain_option_def addUriOption_def on_option_def uri_option_def in_settings_def
        setUpLogging_def file_sink_def graylog_sink_def MainOpt_default_def ConfigSettings_default_def prog_defs)
qed


end
