(* ===== verification/Curl_Reporter.thy ===== *)
theory Curl_Reporter
  imports Metrics_Report
begin

text \<open>
  \<open>CURLReporter.h\<close>: sending the metrics to an InfluxDB server. The library (libcurl) is a parameter, what it
  answers; what the program does to it is the list of the calls that are made.
\<close>

section \<open>Sending\<close>

datatype curl_call =
    GlobalInit
  | EasyInit
  | SetURL string
  | SetPostFields string
  | Perform
  | EasyCleanup

record curl_state =
  Initialized :: bool
  CurlCalls :: "curl_call list"

text \<open>\<open>EasyInit\<close> and \<open>EasyCleanup\<close> are the calls that create and release a handle. Whether \<open>curl_easy_init\<close> gives a handle, and the text of the error of \<open>curl_easy_perform\<close>.\<close>

record curl_answer =
  GivesHandle :: bool
  PerformError :: "string option"

definition curl_do :: "curl_call \<Rightarrow> (curl_state, unit) prog" where
  "curl_do c = upd_st (\<lambda>s. s\<lparr>CurlCalls := CurlCalls s @ [c]\<rparr>)"

text \<open>The constructor of the static \<open>Initializer\<close>, which runs with the first call.\<close>

definition init_curl :: "(curl_state, unit) prog" where
  "init_curl = bnd (get_st Initialized) (\<lambda>ready.
     if ready then ret () else thn (upd_st (\<lambda>s. s\<lparr>Initialized := True\<rparr>)) (curl_do GlobalInit))"

text \<open>
  \<open>send\<close>. \<open>CURLOPT_POSTFIELDS\<close> takes a C string, which it gets as the data of the buffer; \<open>behind\<close> is what
  the memory holds after them. \<open>curl_easy_cleanup\<close> without a handle does nothing. The result is the line for
  the log.
\<close>

definition curl_send :: "bool \<Rightarrow> curl_answer \<Rightarrow> string \<Rightarrow> string \<Rightarrow> string \<Rightarrow> (curl_state, string option) prog" where
  "curl_send HaveCURL A behind MemoryWriter URL =
     (if \<not> HaveCURL then ret None
      else thn init_curl
           (if GivesHandle A
            then thn (curl_do EasyInit)
                 (thn (curl_do (SetURL URL))
                 (thn (curl_do (SetPostFields (c_text (MemoryWriter @ behind))))
                 (thn (curl_do Perform)
                 (thn (curl_do EasyCleanup)
                 (ret (map_option (\<lambda>e. ''curl_easy_perform() failed: '' @ e) (PerformError A)))))))
            else ret None))"

text \<open>A report of the metrics, with the text sent if there is one.\<close>

definition report_and_send ::
  "'k rdkafka \<Rightarrow> bool \<Rightarrow> (u64 \<Rightarrow> string) \<Rightarrow> string option \<Rightarrow> MainOpt \<Rightarrow> curl_answer \<Rightarrow> string \<Rightarrow>
   ('k InstanceSet \<times> curl_state, string) prog" where
  "report_and_send K HaveCURL as_double host MainOptions A behind = (\<lambda>(ks, c).
     case reportMetrics K HaveCURL as_double host MainOptions [] ks of
       (Inl f, ks') \<Rightarrow> (Inl f, (ks', c))
     | (Inr (line, None), ks') \<Rightarrow> (Inr line, (ks', c))
     | (Inr (line, Some t), ks') \<Rightarrow>
         (case curl_send HaveCURL A behind t (InfluxURI MainOptions) c of
            (Inl f, c') \<Rightarrow> (Inl f, (ks', c'))
          | (Inr _, c') \<Rightarrow> (Inr line, (ks', c'))))"

section \<open>What the library sees\<close>

text \<open>The library is initialised once, before anything else, and every handle is released.\<close>

definition curl_ok :: "curl_state \<Rightarrow> bool" where
  "curl_ok s \<longleftrightarrow> (if Initialized s then \<exists>cs. CurlCalls s = GlobalInit # cs \<and> GlobalInit \<notin> set cs else CurlCalls s = [])
     \<and> count_list (CurlCalls s) EasyInit = count_list (CurlCalls s) EasyCleanup"

lemma init_curl_run:
  assumes "curl_ok s"
  shows "\<exists>s'. init_curl s = (Inr (), s') \<and> curl_ok s' \<and> Initialized s'"
  using assms by (auto simp: init_curl_def curl_do_def curl_ok_def prog_defs)

lemma curl_send_run:
  assumes "curl_ok s"
  shows "\<exists>x s'. curl_send H A behind t url s = (Inr x, s') \<and> curl_ok s'"
proof -
  obtain s1 cs where "init_curl s = (Inr (), s1)" "curl_ok s1" "CurlCalls s1 = GlobalInit # cs" "GlobalInit \<notin> set cs"
      "Initialized s1"
    using init_curl_run [OF assms] by (auto simp: curl_ok_def)
  then show ?thesis
    using assms by (auto simp: curl_send_def curl_do_def curl_ok_def prog_defs)
qed

lemma sends_run:
  "curl_ok s \<Longrightarrow> \<exists>s'. for_each (\<lambda>(A, behind, t, url). thn (curl_send H A behind t url) (ret ())) xs s = (Inr (), s') \<and> curl_ok s'"
proof (induction xs arbitrary: s)
  case Nil
  then show ?case by (simp add: prog_defs)
next
  case (Cons x xs)
  obtain A behind t url where x: "x = (A, behind, t, url)" by (cases x)
  obtain r s1 where s1: "curl_send H A behind t url s = (Inr r, s1)" "curl_ok s1" using curl_send_run [OF Cons.prems] by blast
  with Cons.IH [OF s1(2)] show ?case by (auto simp: x prog_defs)
qed

text \<open>
  What is posted: the text, and then whatever the memory behind it holds up to the next zero byte, since
  the buffer has no terminator.
\<close>

lemma posted_text:
  assumes "\<forall>c \<in> set t. c \<noteq> char_of (0::nat)"
  shows "c_text (t @ behind) = t @ c_text behind"
  using assms by (simp add: c_text_def takeWhile_append2)

lemma posted_exact:
  assumes "\<forall>c \<in> set t. c \<noteq> char_of (0::nat)"
  shows "c_text (t @ behind) = t \<longleftrightarrow> behind = [] \<or> hd behind = char_of (0::nat)"
  unfolding posted_text [OF assms] by (cases behind) (simp_all add: c_text_def)

lemma report_and_send_returns:
  assumes "instances_ok pending ks" "curl_ok c"
  shows "\<exists>line c'. report_and_send K H as_double host opt A behind (ks, c) = (Inr line, (ks, c')) \<and> curl_ok c'"
proof -
  obtain line t where r: "reportMetrics K H as_double host opt [] ks = (Inr (line, t), ks)"
    using reportMetrics_returns [OF assms(1)] by (metis surj_pair)
  show ?thesis
  proof (cases t)
    case None
    with r assms(2) show ?thesis by (simp add: report_and_send_def)
  next
    case (Some x)
    obtain y c' where "curl_send H A behind x (InfluxURI opt) c = (Inr y, c')" "curl_ok c'"
      using curl_send_run [OF assms(2)] by blast
    with r Some show ?thesis by (simp add: report_and_send_def)
  qed
qed

end
