(* ===== verification/Kafka_Event.thy ===== *)
theory Kafka_Event
  imports Fwd_Prelude
begin

text \<open>
  \<open>KafkaW/KafkaEventCb.h\<close>: what the callback for events of the Kafka client writes to the log, and at
  which level. An event is what its accessors return; the text of an error code (\<open>RdKafka::err2str\<close>) is
  a parameter.
\<close>

section \<open>Model\<close>

datatype Severity = SEVERITY_EMERG | SEVERITY_ALERT | SEVERITY_CRITICAL | SEVERITY_ERROR | SEVERITY_WARNING
  | SEVERITY_NOTICE | SEVERITY_INFO | SEVERITY_DEBUG

datatype EventType = EVENT_ERROR | EVENT_STATS | EVENT_LOG | EVENT_THROTTLE

record 'e rd_event =
  ev_type :: EventType
  ev_severity :: Severity
  ev_err :: 'e
  ev_str :: string
  ev_fac :: string
  ev_broker_id :: int
  ev_broker_name :: string

definition int_text :: "int \<Rightarrow> string" where
  "int_text i = (if i < 0 then ''-'' @ dec (nat (- i)) else dec (nat i))"

text \<open>The numbers of the enumerations, as they are printed.\<close>

primrec severity_number :: "Severity \<Rightarrow> nat" where
  "severity_number SEVERITY_EMERG = 0"
| "severity_number SEVERITY_ALERT = 1"
| "severity_number SEVERITY_CRITICAL = 2"
| "severity_number SEVERITY_ERROR = 3"
| "severity_number SEVERITY_WARNING = 4"
| "severity_number SEVERITY_NOTICE = 5"
| "severity_number SEVERITY_INFO = 6"
| "severity_number SEVERITY_DEBUG = 7"

primrec type_number :: "EventType \<Rightarrow> nat" where
  "type_number EVENT_ERROR = 0"
| "type_number EVENT_STATS = 1"
| "type_number EVENT_LOG = 2"
| "type_number EVENT_THROTTLE = 3"

definition LogLevels :: "(Severity \<times> nat) list" where
  "LogLevels = [(SEVERITY_DEBUG, 0), (SEVERITY_INFO, 1), (SEVERITY_NOTICE, 2), (SEVERITY_WARNING, 3),
     (SEVERITY_ERROR, 4), (SEVERITY_CRITICAL, 5), (SEVERITY_ALERT, 5), (SEVERITY_EMERG, 5)]"

text \<open>\<open>LogLevels.at\<close> throws for a severity that is not in the map.\<close>

definition level_at :: "Severity \<Rightarrow> nat res" where
  "level_at sev = (case map_of LogLevels sev of None \<Rightarrow> Inl (Throw OutOfRange) | Some l \<Rightarrow> Inr l)"

definition event_text :: "('e \<Rightarrow> string) \<Rightarrow> 'e rd_event \<Rightarrow> string" where
  "event_text err2str Event = (case ev_type Event of
     EVENT_ERROR \<Rightarrow> ''Kafka EVENT_ERROR id: '' @ int_text (ev_broker_id Event) @ ''  broker: '' @ ev_broker_name Event
       @ ''  errno: '' @ dec (type_number (ev_type Event)) @ ''  errorname: '' @ err2str (ev_err Event)
       @ ''  errorstring: '' @ ev_str Event
   | EVENT_STATS \<Rightarrow> ''Kafka Stats id: '' @ int_text (ev_broker_id Event) @ '' broker: '' @ ev_broker_name Event
       @ '' message: '' @ ev_str Event
   | EVENT_LOG \<Rightarrow> ''Kafka Log id: '' @ int_text (ev_broker_id Event) @ '' broker: '' @ ev_broker_name Event
       @ '' severity: '' @ dec (severity_number (ev_severity Event)) @ '', facilitystr: '' @ ev_fac Event
       @ '':'' @ ev_str Event
   | EVENT_THROTTLE \<Rightarrow> ''Kafka Event '' @ dec (type_number (ev_type Event)) @ '' ('' @ err2str (ev_err Event)
       @ ''): '' @ ev_str Event)"

definition event_cb :: "('e \<Rightarrow> string) \<Rightarrow> 'e rd_event \<Rightarrow> (nat \<times> string) res" where
  "event_cb err2str Event =
     bind_res (level_at (ev_severity Event)) (\<lambda>l. Inr (l, event_text err2str Event))"

section \<open>Properties\<close>

lemma level_at_monotone:
  "severity_number a \<le> severity_number b \<Longrightarrow> \<exists>l m. level_at a = Inr l \<and> level_at b = Inr m \<and> m \<le> l \<and> l \<le> 5"
  by (cases a; cases b) (simp_all add: level_at_def LogLevels_def)

text \<open>
  The callback never throws: every event is logged, with a level between 0 and 5, and an event that
  is more urgent than another (a smaller severity number) never at a lower level than the other.
\<close>

theorem event_cb_levels:
  assumes "severity_number (ev_severity E) \<le> severity_number (ev_severity E')"
  shows "\<exists>l m. event_cb err2str E = Inr (l, event_text err2str E) \<and> event_cb err2str E' = Inr (m, event_text err2str E')
    \<and> m \<le> l \<and> l \<le> 5"
  using level_at_monotone [OF assms] by (auto simp: event_cb_def)

theorem event_cb_levels_witness:
  "\<exists>l m. event_cb (\<lambda>_. []) \<lparr>ev_type = EVENT_LOG, ev_severity = SEVERITY_ALERT, ev_err = (), ev_str = ''a'', ev_fac = ''f'',
        ev_broker_id = 0, ev_broker_name = ''b''\<rparr> = Inr (l, ''Kafka Log id: 0 broker: b severity: 1, facilitystr: f:a'')
    \<and> event_cb (\<lambda>_. []) \<lparr>ev_type = EVENT_STATS, ev_severity = SEVERITY_INFO, ev_err = (), ev_str = ''{}'', ev_fac = [],
        ev_broker_id = -1, ev_broker_name = ''b''\<rparr> = Inr (m, ''Kafka Stats id: -1 broker: b message: {}'') \<and> m \<le> l"
proof -
  let ?E = "\<lparr>ev_type = EVENT_LOG, ev_severity = SEVERITY_ALERT, ev_err = (), ev_str = ''a'', ev_fac = ''f'',
        ev_broker_id = 0, ev_broker_name = ''b''\<rparr>"
  let ?F = "\<lparr>ev_type = EVENT_STATS, ev_severity = SEVERITY_INFO, ev_err = (), ev_str = ''{}'', ev_fac = [],
        ev_broker_id = -1, ev_broker_name = ''b''\<rparr>"
  have "event_text (\<lambda>_. []) ?E = ''Kafka Log id: 0 broker: b severity: 1, facilitystr: f:a''"
      "event_text (\<lambda>_. []) ?F = ''Kafka Stats id: -1 broker: b message: {}''"
    by (simp_all add: event_text_def int_text_def dec.simps)
  moreover have "severity_number (ev_severity ?E) \<le> severity_number (ev_severity ?F)" by simp
  ultimately show ?thesis using event_cb_levels [of ?E ?F "\<lambda>_. []"] by auto
qed

end
