(* ===== verification/Spec2Isabelle.thy ===== *)
theory Spec2Isabelle
  imports Worker_Thread Worker_Drain Program Curl_Reporter Kafka_Event
begin

text \<open>
  Forward EPICS to Kafka: a model of the program under \<open>src/src\<close> and the properties that make it correct.

  The program. A command on a Kafka topic (or the configuration) names EPICS channels. For each the
  \<open>Forwarder\<close> creates a \<open>Stream\<close>: an EPICS client that puts updates into a queue, and conversion paths,
  each a converter (schema \<open>f142\<close> or \<open>TdcTime\<close>) and a Kafka topic. Worker threads ask a scheduler for
  updates; the scheduler goes round the streams, each of which fills the worker's queue with one packet
  per update and path. A worker takes its packets, converts the update and gives the message to a
  producer. Other threads run the timers, the status report, the metrics report and the callbacks of
  the EPICS and Kafka libraries; \<open>main\<close> polls for commands until the run flag is raised, then shuts down.

  How code is modelled. A function that changes state is a program \<open>'s \<Rightarrow> res \<times> 's\<close> (\<open>Fwd_Prelude\<close>) with
  the exceptions of the source as values; \<open>Crash\<close> is undefined behaviour (a null or dangling pointer) or
  termination, \<open>Running\<close> a call that waits for something that has not happened. Shared objects
  (clients, converters, paths, packets, messages, producers) live in stores, maps from identities to
  values. Machine integers are words. Whether a function throws, crashes or waits is stated with
  \<open>fails_only F I m\<close>: from a state with the invariant \<open>I\<close> the program \<open>m\<close> leaves a state with \<open>I\<close> and
  fails, if it does, with one of \<open>F\<close>.

  The theories, by part of the program.
  \<^item> \<open>Fwd_Prelude\<close>: exceptions, outcomes, programs, decimal texts, the collections of rules for them.
    \<open>Simulation\<close>: the locales of simulation proofs. \<open>Regex_Match\<close>: a backtracking matcher in the order of
    \<open>std::regex\<close>, with its declarative meaning.
  \<^item> \<open>Uri\<close> (\<open>URI.cpp\<close>), \<open>Json_Access\<close> (\<open>json.cpp\<close>), \<open>Config_Parser\<close> (\<open>ConfigParser.cpp\<close>), \<open>Logging\<close>
    (\<open>logger.cpp\<close>), \<open>Main_Opt\<close> and \<open>Cli_Options\<close> (\<open>MainOpt.cpp\<close>): texts and options. Shown: what every address of the
    documented form gives, which exception each rejected text throws, printing and parsing are inverse,
    the streams of a configuration, which exceptions can leave the reading of the command line.
  \<^item> \<open>Pv_Data\<close>, \<open>F142\<close> (\<open>schemas/f142\<close>), \<open>Tdc_Time\<close> (\<open>schemas/tdc_time\<close>): the data and the two schemas.
    Shown: the message of every update, a reader gets every scalar and array back, the range where the
    timestamp is exact, gapless sequence numbers.
  \<^item> \<open>Kafka_Producer\<close>, \<open>Kafka_Instances\<close>, \<open>Kafka_Consumer\<close>, \<open>Kafka_Event\<close> (\<open>KafkaW\<close>, \<open>Kafka.cpp\<close>,
    \<open>KafkaOutput.cpp\<close>, \<open>Config.cpp\<close>): messages with an owner, producers, topics, the subscription to the
    command topic, the log entries for events. The locale \<open>rd_client\<close> is what \<open>librdkafka\<close> promises; it is
    interpreted on a client that keeps its messages in a list. Shown: no message is leaked or freed
    twice and the statistics count them; one producer per broker.
  \<^item> \<open>Epics_Client\<close>, \<open>Epics_Monitor\<close>, \<open>Epics_Random\<close> (\<open>EpicsClient\<close>): the locale \<open>epics_client\<close> is the
    interface; the monitor of a channel, its requesters and the made-up values. Shown: every update of a
    monitor event is queued with the right alarm flag, every monitor is destroyed once, the factories run
    while a client exists.
  \<^item> \<open>Conc_Queue\<close>: the locales of the concurrent queues, interpreted on lists.
    \<open>Converter\<close> (\<open>Converter.cpp\<close>, \<open>SchemaRegistry.h\<close>, paths of \<open>Stream.cpp\<close>), \<open>Stream_Queue\<close>
    (\<open>Stream::fillConversionQueue\<close>), \<open>Conversion_Worker\<close> (\<open>ConversionWorker.cpp\<close>): the pipeline.
    \<open>Worker_Protocol\<close> is the abstract protocol of packets and paths, \<open>Worker_Safety\<close> the simulation of the
    pipeline by it. Shown: under every interleaving a packet that a worker holds or has queued points to
    a path that exists; the scheduler returns. \<open>Worker_Progress\<close> shows that a worker works its queue off,
    \<open>Worker_Run\<close> (\<open>start\<close>, \<open>stop\<close> and the outer loop of \<open>run\<close>) that its thread ends and how fast its rounds
    may follow each other. \<open>Worker_Delivery\<close> compares a round of a worker with the reference \<open>forward\<close> that converts and
    sends an update at once: the packets and queues in between change nothing. \<open>Worker_Thread\<close> puts the rounds of the
    thread together: no stream starves, and the messages of a stream keep the order of its updates. \<open>Worker_Drain\<close>: once the
    workers have worked off their queues every path that is no longer used can be destroyed.
  \<^item> \<open>Stream_Set\<close> (\<open>Stream.cpp\<close>, \<open>Streams.cpp\<close>, \<open>RangeSet.h\<close>), \<open>Stream_Growth\<close>, \<open>Stream_Removal\<close>,
    \<open>Stream_Outcome\<close>: the streams and the objects they own. The invariant \<open>store_ok\<close>: one stream per
    channel, a client and paths of its own, no path without its converter and producer. Shown: what
    stopping a channel and checking the clients do, when they wait.
  \<^item> \<open>Timer\<close> (\<open>Timer.cpp\<close>) and \<open>Run_Flag\<close>: a timer told to stop makes no further calls; raising a flag
    never loses another.
  \<^item> \<open>Forwarder_Main\<close>, \<open>Forwarder_Objects\<close>, \<open>Forwarder_Mapping\<close> (\<open>Forwarder.cpp\<close>: construction and
    mappings): what \<open>addMapping\<close> adds, and what it leaves behind when it throws half way.
  \<^item> \<open>Command_Handler\<close> (\<open>CommandHandler.cpp\<close>): the commands, with the abstract specification \<open>spec_step\<close>
    on the set of channels and the run flag, and the refinement.
  \<^item> \<open>Status_Report\<close>, \<open>Metrics_Report\<close> (\<open>StatusReporter.cpp\<close>, \<open>MetricsReporter.cpp\<close>): the two reports;
    \<open>Curl_Reporter\<close> (\<open>CURLReporter.h\<close>): sending the metrics to a server;
    \<open>Reporter\<close>: the timers and threads of the two reporters. Shown: what a report says and removes, one report per
    wait until the reporter is destroyed.
  \<^item> \<open>Client_Events\<close> and \<open>Timer_Events\<close>: what the threads of EPICS and of the timers do to the clients of the
    forwarder (\<open>connection_event\<close>, \<open>update_event\<close>, \<open>timer_event\<close>), with the invariant \<open>running_ok\<close>: the
    producers and cached updates of the clients exist, and every callback of a timer has a client of its kind. It holds
    as long as at most one of the two timers is configured; with both the program crashes, which is shown too.
  \<^item> \<open>Forwarder_Loop\<close> (\<open>Forwarder::forward_epics_to_kafka\<close>, \<open>~Forwarder\<close>) and \<open>Program\<close> (\<open>Main.cpp\<close>): the
    run of the program, from the command line on. Every thread the program starts is an event of the main loop: signals, both
    reports, the workers' packets, client errors, connection changes, updates, timers. Shown: no
    sequence of events breaks the invariant, the program stops, with everything stopped, and with which exit code.

  Bounds and fuel. Loops over queues take the length they read first, as the code does; the scheduler's
  loop takes as many rounds as there are streams, which \<open>Worker_Safety\<close> shows to be enough in every
  reachable state; the worker's inner loop takes a fuel, with \<open>Running\<close>
  when it is used up, and \<open>Worker_Progress\<close> shows that one more than the length of the queue is enough; the outer
  loop takes a list of rounds, and \<open>Worker_Thread\<close> shows that as many as there are entries in the streams' queues are enough; the loop of
  the producer's destructor makes the 80 polls that the code makes. The main loop takes a list of rounds, each with what the other threads do in it and
  the message the poll returns: \<open>Running\<close> when the list ends with the flag not raised. The liveness
  theorems say that any list with a round that has a signal or an exit command is enough. Raising the flag
  takes the list of the values other threads store between the load and the exchange, each with whether the exchange
  fails spuriously; it succeeds once that list is used up.

  Third-party code is a parameter: \<open>librdkafka\<close>, \<open>pvAccess\<close> and \<open>pvData\<close> (field access), the queue of
  \<open>moodycamel\<close>, the text parser and printer of the json library, the generated flatbuffers code, CLI11, libcurl, the
  clock, random numbers, the host name, the file system.

  Not modelled. How CLI11 splits the command line and reads the configuration file (which callbacks it calls is a
  parameter), the byte layout of flatbuffers (a message is its table, and serialising it a parameter),
  the scheduling of threads by asio (a timer or report thread is a step that may happen; in the run of the
  program the workers' packets are in transit or not, and how they move is the model of
  \<open>Conversion_Worker\<close>), the patterns and most texts of the program's own log entries, what libcurl does
  with a request, the version text of \<open>git_commit_current.h\<close>, the Windows variant of \<open>getHostname\<close>, and
  the test programs.
\<close>

end
